(* ===== verification/KV_Prelude.thy ===== *)
theory KV_Prelude
  imports Main "HOL-Library.Word" "HOL-Library.Multiset"
begin

text \<open>
  Shared ground of the development: machine integers and byte strings, the outcome of a C++
  operation that can hit undefined behaviour or throw, host memory regions with bounds and
  initialisation, little-endian encodings, and the generic rule that an invariant kept by every
  step holds in every reachable state.
\<close>

unbundle bit_operations_syntax

named_theorems outcome_simps \<open>equations that push outcomes through sequencing\<close>
named_theorems region_simps \<open>loads and stores on memory regions\<close>

section \<open>Machine integers and byte strings\<close>

type_synonym u8 = "8 word"
type_synonym u16 = "16 word"
type_synonym u32 = "32 word"
type_synonym u64 = "64 word"
type_synonym bytes = "u8 list"

text \<open>A string literal of the source as the bytes it denotes.\<close>

definition bytes_of :: "string \<Rightarrow> bytes" where
  "bytes_of cs = map of_char cs"

lemma length_bytes_of [simp]: "length (bytes_of cs) = length cs"
  by (simp add: bytes_of_def)

lemma unat_of_nat32: "n < 4294967296 \<Longrightarrow> unat (of_nat n :: u32) = n"
  by (simp add: unat_of_nat)

lemma unat_of_nat64: "n < 18446744073709551616 \<Longrightarrow> unat (of_nat n :: u64) = n"
  by (simp add: unat_of_nat)

lemma unat_u64_less: "unat (x :: u64) < 18446744073709551616"
  using unsigned_less [of x, where 'a = nat] by simp

section \<open>Outcomes\<close>

text \<open>
  What a C++ operation can do instead of returning: dereference a null pointer, access memory
  outside an object, read an indeterminate value, divide by zero, throw one of the standard
  exceptions the code does not catch, overflow a signed integer (which includes converting a
  floating-point number to an integer type that cannot hold it), compute a floating-point value that is
  not finite, or end the process with \<open>exit\<close> or \<open>abort\<close>.  \<open>Out_Of_Fuel\<close> marks a loop that was still
  running when the bound of the model was reached.
\<close>

datatype fault =
    Null_Deref
  | Out_Of_Bounds
  | Uninit_Read
  | Div_By_Zero
  | Length_Error
  | Invalid_Argument
  | Out_Of_Range
  | Signed_Overflow
  | Assert_Failed
  | Not_Finite
  | Process_Exit
  | Process_Abort
  | Out_Of_Fuel

type_synonym 'a outcome = "fault + 'a"

definition bindO :: "'a outcome \<Rightarrow> ('a \<Rightarrow> 'b outcome) \<Rightarrow> 'b outcome" where
  "bindO m f = (case m of Inl e \<Rightarrow> Inl e | Inr x \<Rightarrow> f x)"

lemma bindO_Inl [simp, outcome_simps]: "bindO (Inl e) f = Inl e"
  by (simp add: bindO_def)

lemma bindO_Inr [simp, outcome_simps]: "bindO (Inr x) f = f x"
  by (simp add: bindO_def)

lemma bindO_eq_Inr [outcome_simps]: "bindO m f = Inr y \<longleftrightarrow> (\<exists>x. m = Inr x \<and> f x = Inr y)"
  by (cases m) auto

lemma bindO_assoc: "bindO (bindO m f) g = bindO m (\<lambda>x. bindO (f x) g)"
  by (cases m) auto

lemma bindO_cong [fundef_cong]:
  "m = m' \<Longrightarrow> (\<And>x. m' = Inr x \<Longrightarrow> f x = g x) \<Longrightarrow> bindO m f = bindO m' g"
  by (cases m') auto

definition guardO :: "bool \<Rightarrow> fault \<Rightarrow> unit outcome" where
  "guardO b e = (if b then Inr () else Inl e)"

lemma guardO_True [simp]: "guardO True e = Inr ()"
  by (simp add: guardO_def)

lemma guardO_False [simp]: "guardO False e = Inl e"
  by (simp add: guardO_def)

lemma guardO_eq_Inr [simp]: "guardO b e = Inr u \<longleftrightarrow> b"
  by (simp add: guardO_def)

text \<open>Reading a variable that may be indeterminate, and indexing a C array of known size.\<close>

definition initialised :: "'a option \<Rightarrow> 'a outcome" where
  "initialised x = (case x of None \<Rightarrow> Inl Uninit_Read | Some v \<Rightarrow> Inr v)"

lemma initialised_simps [simp]:
  "initialised None = Inl Uninit_Read"
  "initialised (Some v) = Inr v"
  by (simp_all add: initialised_def)

lemma initialised_eq_Inr [simp]: "initialised x = Inr v \<longleftrightarrow> x = Some v"
  by (cases x) auto

definition deref :: "'a option \<Rightarrow> 'a outcome" where
  "deref p = (case p of None \<Rightarrow> Inl Null_Deref | Some v \<Rightarrow> Inr v)"

lemma deref_simps [simp]:
  "deref None = Inl Null_Deref"
  "deref (Some v) = Inr v"
  by (simp_all add: deref_def)

lemma deref_eq_Inr [simp]: "deref p = Inr v \<longleftrightarrow> p = Some v"
  by (cases p) auto

definition at_index :: "'a list \<Rightarrow> nat \<Rightarrow> 'a outcome" where
  "at_index xs i = (if i < length xs then Inr (xs ! i) else Inl Out_Of_Bounds)"

lemma at_index_in [simp]: "i < length xs \<Longrightarrow> at_index xs i = Inr (xs ! i)"
  by (simp add: at_index_def)

lemma at_index_out [simp]: "\<not> i < length xs \<Longrightarrow> at_index xs i = Inl Out_Of_Bounds"
  by (simp add: at_index_def)

lemma at_index_eq_Inr: "at_index xs i = Inr x \<longleftrightarrow> i < length xs \<and> xs ! i = x"
  by (auto simp: at_index_def)

text \<open>The result of an \<open>int64_t\<close> computation, when the type can hold it.\<close>

definition in_i64 :: "int \<Rightarrow> bool" where
  "in_i64 x \<longleftrightarrow> - 9223372036854775808 \<le> x \<and> x < 9223372036854775808"

definition i64 :: "int \<Rightarrow> int outcome" where
  "i64 x = (if in_i64 x then Inr x else Inl Signed_Overflow)"

lemma i64_in [simp]: "in_i64 x \<Longrightarrow> i64 x = Inr x"
  by (simp add: i64_def)

lemma i64_eq_Inr: "i64 x = Inr y \<longleftrightarrow> in_i64 x \<and> y = x"
  by (auto simp: i64_def)

section \<open>Memory regions\<close>

text \<open>
  A heap block obtained from \<open>posix_memalign\<close>: its size and the bytes written so far.  A byte that
  was never written is indeterminate (\<open>None\<close>).
\<close>

record region =
  rsize :: nat
  rbytes :: "nat \<Rightarrow> u8 option"

definition ralloc :: "nat \<Rightarrow> region" where
  "ralloc n = \<lparr>rsize = n, rbytes = (\<lambda>_. None)\<rparr>"

definition rzero :: "nat \<Rightarrow> region" where
  "rzero n = \<lparr>rsize = n, rbytes = (\<lambda>i. if i < n then Some 0 else None)\<rparr>"

definition rstore :: "region \<Rightarrow> nat \<Rightarrow> bytes \<Rightarrow> region outcome" where
  "rstore r off bs =
     (if off + length bs \<le> rsize r
      then Inr (r\<lparr>rbytes := (\<lambda>i. if off \<le> i \<and> i < off + length bs
                                  then Some (bs ! (i - off)) else rbytes r i)\<rparr>)
      else Inl Out_Of_Bounds)"

definition rload :: "region \<Rightarrow> nat \<Rightarrow> nat \<Rightarrow> bytes outcome" where
  "rload r off n =
     (if off + n \<le> rsize r
      then (case those (map (rbytes r) [off..<off + n]) of
              None \<Rightarrow> Inl Uninit_Read
            | Some bs \<Rightarrow> Inr bs)
      else Inl Out_Of_Bounds)"

text \<open>The block seen from an address inside it.\<close>

definition rview :: "region \<Rightarrow> nat \<Rightarrow> region" where
  "rview r off = \<lparr>rsize = rsize r - off, rbytes = (\<lambda>i. rbytes r (off + i))\<rparr>"

lemma those_map_Some [simp]: "those (map Some ys) = Some ys"
  by (induction ys) auto

lemma those_eq_Some_iff: "those xs = Some ys \<longleftrightarrow> xs = map Some ys"
proof
  show "those xs = Some ys \<Longrightarrow> xs = map Some ys"
    by (induction xs arbitrary: ys) (auto split: option.splits)
qed simp

lemma rload_eq_Inr:
  "rload r off n = Inr bs \<longleftrightarrow>
     off + n \<le> rsize r \<and> length bs = n \<and> (\<forall>i<n. rbytes r (off + i) = Some (bs ! i))"
proof -
  have "those (map (rbytes r) [off..<off + n]) = Some bs \<longleftrightarrow>
      length bs = n \<and> (\<forall>i<n. rbytes r (off + i) = Some (bs ! i))"
    by (auto simp: those_eq_Some_iff list_eq_iff_nth_eq)
  then show ?thesis
    by (auto simp: rload_def split: option.splits)
qed

lemma rload_out_of_bounds: "rsize r < off + n \<Longrightarrow> rload r off n = Inl Out_Of_Bounds"
  by (simp add: rload_def)

lemma rstore_eq_Inr:
  "rstore r off bs = Inr r' \<longleftrightarrow>
     off + length bs \<le> rsize r \<and>
     r' = r\<lparr>rbytes := (\<lambda>i. if off \<le> i \<and> i < off + length bs
                             then Some (bs ! (i - off)) else rbytes r i)\<rparr>"
  by (auto simp: rstore_def)

lemma rstore_rsize: "rstore r off bs = Inr r' \<Longrightarrow> rsize r' = rsize r"
  by (auto simp: rstore_eq_Inr)

text \<open>What was stored is loaded back, and a store elsewhere does not change it.\<close>

lemma rload_rstore_same:
  "rstore r off bs = Inr r' \<Longrightarrow> rload r' off (length bs) = Inr bs"
  by (auto simp: rstore_eq_Inr rload_eq_Inr)

lemma rload_rstore_within:
  assumes "rstore r off bs = Inr r'" and "i + n \<le> length bs"
  shows "rload r' (off + i) n = Inr (take n (drop i bs))"
  using assms by (auto simp: rstore_eq_Inr rload_eq_Inr)

lemma rload_rstore_disjoint:
  assumes "rstore r off bs = Inr r'" and "i + n \<le> off \<or> off + length bs \<le> i"
  shows "rload r' i n = rload r i n"
proof -
  have "map (rbytes r') [i..<i + n] = map (rbytes r) [i..<i + n]"
    using assms by (auto simp: rstore_eq_Inr)
  moreover have "rsize r' = rsize r"
    using assms(1) by (rule rstore_rsize)
  ultimately show ?thesis
    by (simp only: rload_def)
qed

lemma rload_sub:
  "rload r off n = Inr bs \<Longrightarrow> i + m \<le> n \<Longrightarrow> rload r (off + i) m = Inr (take m (drop i bs))"
  by (auto simp: rload_eq_Inr add.assoc)

lemma rstore_append:
  "rstore r off (a @ b) = bindO (rstore r off a) (\<lambda>r. rstore r (off + length a) b)"
proof (cases "off + length (a @ b) \<le> rsize r")
  case True
  have "(\<lambda>i. if off \<le> i \<and> i < off + length (a @ b) then Some ((a @ b) ! (i - off)) else rbytes r i) =
    (\<lambda>i. if off + length a \<le> i \<and> i < off + length a + length b then Some (b ! (i - (off + length a)))
         else if off \<le> i \<and> i < off + length a then Some (a ! (i - off)) else rbytes r i)"
    by (rule ext) (auto simp: nth_append)
  with True show ?thesis
    by (simp add: rstore_def cong: if_cong)
next
  case False
  then show ?thesis
    by (simp add: rstore_def)
qed

lemma rload_rview:
  "off + i + n \<le> rsize r \<Longrightarrow> rload (rview r off) i n = rload r (off + i) n"
proof -
  assume le: "off + i + n \<le> rsize r"
  have "map (rbytes (rview r off)) [i..<i + n] = map (rbytes r) [off + i..<off + i + n]"
    by (auto simp: rview_def list_eq_iff_nth_eq add.assoc)
  then show ?thesis
    using le by (simp add: rload_def rview_def add.assoc)
qed

lemma rsize_ralloc [simp]: "rsize (ralloc n) = n"
  by (simp add: ralloc_def)

lemma rsize_rzero [simp]: "rsize (rzero n) = n"
  by (simp add: rzero_def)

lemmas [region_simps] = rload_rstore_same rload_rstore_disjoint rload_rview

section \<open>Little-endian encodings\<close>

text \<open>The four bytes \<open>memcpy\<close> moves between a \<open>uint32_t\<close> and memory on a little-endian host.\<close>

definition le_bytes32 :: "u32 \<Rightarrow> bytes" where
  "le_bytes32 w = [ucast w, ucast (drop_bit 8 w), ucast (drop_bit 16 w), ucast (drop_bit 24 w)]"

fun le_word32 :: "bytes \<Rightarrow> u32" where
  "le_word32 [a, b, c, d] =
     ucast a OR push_bit 8 (ucast b) OR push_bit 16 (ucast c) OR push_bit 24 (ucast d)"
| "le_word32 _ = 0"

lemma length_le_bytes32 [simp]: "length (le_bytes32 w) = 4"
  by (simp add: le_bytes32_def)

lemma le_word32_bytes32 [simp]: "le_word32 (le_bytes32 w) = w"
proof (rule bit_word_eqI)
  fix n :: nat
  assume "n < LENGTH(32)"
  then have n: "n < 32" by simp
  consider "n < 8" | "8 \<le> n" "n < 16" "n - 8 < 8" | "16 \<le> n" "n < 24" "n - 16 < 8"
    | "24 \<le> n" "n - 24 < 8"
    using n by linarith
  then show "bit (le_word32 (le_bytes32 w)) n = bit w n"
    using n by cases (simp_all add: le_bytes32_def bit_simps, blast+)
qed

lemma bit_u8_high: "8 \<le> m \<Longrightarrow> \<not> bit (a :: u8) m"
  by (auto dest: bit_imp_le_length)

lemma le_word32_bytes:
  "(ucast (le_word32 [a, b, c, d]) :: u8) = a"
  "(ucast (drop_bit 8 (le_word32 [a, b, c, d])) :: u8) = b"
  "(ucast (drop_bit 16 (le_word32 [a, b, c, d])) :: u8) = c"
  "(ucast (drop_bit 24 (le_word32 [a, b, c, d])) :: u8) = d"
  by (auto intro!: bit_word_eqI simp: bit_simps bit_u8_high)

lemma length_4_cases: "length bs = 4 \<Longrightarrow> \<exists>a b c d. bs = [a, b, c, d]"
  by (auto simp: length_Suc_conv numeral_eq_Suc)

lemma le_bytes32_word32:
  assumes "length bs = 4"
  shows "le_bytes32 (le_word32 bs) = bs"
proof -
  obtain a b c d where bs: "bs = [a, b, c, d]"
    using length_4_cases [OF assms] by blast
  show ?thesis
    by (simp only: le_bytes32_def bs le_word32_bytes)
qed

lemma le_word32_inj:
  assumes "length a = 4" and "length b = 4"
  shows "le_word32 a = le_word32 b \<longleftrightarrow> a = b"
proof
  assume "le_word32 a = le_word32 b"
  then have "le_bytes32 (le_word32 a) = le_bytes32 (le_word32 b)"
    by (rule arg_cong)
  then show "a = b"
    by (simp only: le_bytes32_word32 assms)
qed simp

definition rload32 :: "region \<Rightarrow> nat \<Rightarrow> u32 outcome" where
  "rload32 r off = bindO (rload r off 4) (\<lambda>bs. Inr (le_word32 bs))"

text \<open>
  \<open>memcpy (&dst, s.c_str(), 4)\<close>: the characters of the string and its terminator are readable,
  nothing after them.
\<close>

definition c_str4 :: "bytes \<Rightarrow> bytes outcome" where
  "c_str4 s = (if 3 \<le> length s then Inr (take 4 (s @ [0])) else Inl Out_Of_Bounds)"

lemma c_str4_long: "4 \<le> length s \<Longrightarrow> c_str4 s = Inr (take 4 s)"
  by (simp add: c_str4_def)

lemma c_str4_length: "c_str4 s = Inr bs \<Longrightarrow> length bs = 4"
  by (auto simp: c_str4_def split: if_splits)

text \<open>\<open>strncpy\<close>: copies up to the first NUL and pads with NULs to the requested length.\<close>

definition strncpy_bytes :: "bytes \<Rightarrow> bytes" where
  "strncpy_bytes v = (let p = takeWhile (\<lambda>b. b \<noteq> 0) v in p @ replicate (length v - length p) 0)"

lemma length_strncpy_bytes [simp]: "length (strncpy_bytes v) = length v"
  using length_takeWhile_le [of "\<lambda>b. b \<noteq> 0" v] by (simp add: strncpy_bytes_def Let_def)

lemma strncpy_bytes_id: "0 \<notin> set v \<Longrightarrow> strncpy_bytes v = v"
proof -
  assume "0 \<notin> set v"
  then have "takeWhile (\<lambda>b. b \<noteq> 0) v = v"
    by (auto simp: takeWhile_eq_all_conv)
  then show ?thesis
    unfolding strncpy_bytes_def Let_def by (simp only: diff_self_eq_0 replicate_0 append_Nil2)
qed

section \<open>Reachable states\<close>

text \<open>
  A component with operations is a transition system: the states it may start in and the relation
  of its steps.  An invariant that holds at the start and is kept by every step holds in every
  reachable state.
\<close>

inductive reach :: "('s \<Rightarrow> bool) \<Rightarrow> ('s \<Rightarrow> 's \<Rightarrow> bool) \<Rightarrow> 's \<Rightarrow> bool" for init step where
  reach_init: "init s \<Longrightarrow> reach init step s"
| reach_step: "reach init step s \<Longrightarrow> step s t \<Longrightarrow> reach init step t"

locale inductive_invariant =
  fixes init :: "'s \<Rightarrow> bool"
    and step :: "'s \<Rightarrow> 's \<Rightarrow> bool"
    and inv :: "'s \<Rightarrow> bool"
  assumes inv_init: "init s \<Longrightarrow> inv s"
    and inv_step: "inv s \<Longrightarrow> step s t \<Longrightarrow> inv t"
begin

lemma reach_inv: "reach init step s \<Longrightarrow> inv s"
  by (induction rule: reach.induct) (auto intro: inv_init inv_step)

lemma steps_inv: "step\<^sup>*\<^sup>* s t \<Longrightarrow> inv s \<Longrightarrow> inv t"
  by (induction rule: rtranclp_induct) (auto intro: inv_step)

end

end
