(* ===== verification/Hash_Map.thy ===== *)
theory Hash_Map
  imports KV_Prelude
begin

text \<open>
  The template \<open>HashMap\<close> of \<open>kvaccel/util/hash_map.h\<close>, which DB_MASTER uses as its key tracker:
  an array of 128 buckets, each a vector of pairs, with a running entry count.  The abstraction of
  a table is the multiset of its pairs; the operations are shown to implement a bag keyed by the
  64-bit hash, in which \<open>Insert\<close> adds an entry even when the key is already there and \<open>Delete\<close>
  removes one entry only.
\<close>

section \<open>The table and its operations\<close>

text \<open>The template argument \<open>size\<close>, left at its default where the class is used.\<close>

definition hm_size :: nat where
  "hm_size = 128"

text \<open>\<open>std::atomic<int> count\<close> wraps around in two's complement.\<close>

record 'v hash_map =
  hm_table :: "(u64 \<times> 'v) list list"
  hm_count :: "32 word"

definition hm_new :: "'v hash_map" where
  "hm_new = \<lparr>hm_table = replicate hm_size [], hm_count = 0\<rparr>"

text \<open>\<open>std::find_if\<close>: the position of the first match, or the end.\<close>

fun find_if :: "('a \<Rightarrow> bool) \<Rightarrow> 'a list \<Rightarrow> nat" where
  "find_if p [] = 0"
| "find_if p (x # xs) = (if p x then 0 else Suc (find_if p xs))"

definition hm_slot :: "u64 \<Rightarrow> nat" where
  "hm_slot key = unat key mod hm_size"

definition Clear :: "'v hash_map \<Rightarrow> 'v hash_map" where
  "Clear m = m\<lparr>hm_count := 0, hm_table := map (\<lambda>_. []) (hm_table m)\<rparr>"

definition Contains :: "'v hash_map \<Rightarrow> u64 \<Rightarrow> bool" where
  "Contains m key =
     (let bucket = hm_table m ! hm_slot key
      in find_if (\<lambda>p. fst p = key) bucket \<noteq> length bucket)"

definition Insert :: "'v hash_map \<Rightarrow> u64 \<Rightarrow> 'v \<Rightarrow> 'v hash_map" where
  "Insert m key v =
     (let i = hm_slot key
      in m\<lparr>hm_table := (hm_table m)[i := hm_table m ! i @ [(key, v)]],
           hm_count := hm_count m + 1\<rparr>)"

text \<open>
  \<open>Pop\<close> walks to the first non-empty bucket; with every bucket empty it indexes the array one past
  its end.  The bucket's first pair is returned and overwritten by its last one.
\<close>

definition Pop :: "'v hash_map \<Rightarrow> ('v \<times> 'v hash_map) outcome" where
  "Pop m =
     (let i = find_if (\<lambda>b. b \<noteq> []) (hm_table m)
      in bindO (at_index (hm_table m) i)
           (\<lambda>bucket. Inr (snd (hd bucket),
              m\<lparr>hm_table := (hm_table m)[i := butlast (bucket[0 := last bucket])],
                hm_count := hm_count m - 1\<rparr>)))"

definition Delete :: "'v hash_map \<Rightarrow> u64 \<Rightarrow> 'v hash_map" where
  "Delete m key =
     (let i = hm_slot key;
          bucket = hm_table m ! i;
          it = find_if (\<lambda>p. fst p = key) bucket
      in if it \<noteq> length bucket
         then m\<lparr>hm_table := (hm_table m)[i := butlast
                  (if it \<noteq> length bucket - 1 then bucket[it := last bucket] else bucket)],
                hm_count := hm_count m - 1\<rparr>
         else m)"

text \<open>\<open>Get\<close> dereferences the end iterator when the key is absent.\<close>

definition Get_ref :: "'v hash_map \<Rightarrow> u64 \<Rightarrow> 'v outcome" where
  "Get_ref m key =
     (let bucket = hm_table m ! hm_slot key
      in bindO (at_index bucket (find_if (\<lambda>p. fst p = key) bucket)) (\<lambda>p. Inr (snd p)))"

section \<open>Well-formed tables and the bag they represent\<close>

definition hm_entries :: "'v hash_map \<Rightarrow> (u64 \<times> 'v) multiset" where
  "hm_entries m = mset (concat (hm_table m))"

definition hm_mult :: "'v hash_map \<Rightarrow> u64 \<Rightarrow> nat" where
  "hm_mult m key = size (filter_mset (\<lambda>p. fst p = key) (hm_entries m))"

definition hm_wf :: "'v hash_map \<Rightarrow> bool" where
  "hm_wf m \<longleftrightarrow>
     length (hm_table m) = hm_size \<and>
     (\<forall>i<hm_size. \<forall>p\<in>set (hm_table m ! i). hm_slot (fst p) = i) \<and>
     hm_count m = of_nat (size (hm_entries m))"

section \<open>Generic facts on vectors\<close>

lemma find_if_le: "find_if p xs \<le> length xs"
  by (induction xs) auto

lemma find_if_less_iff: "find_if p xs < length xs \<longleftrightarrow> (\<exists>x\<in>set xs. p x)"
  by (induction xs) auto

lemma find_if_eq_length_iff: "find_if p xs = length xs \<longleftrightarrow> (\<forall>x\<in>set xs. \<not> p x)"
  using find_if_le [of p xs] find_if_less_iff [of p xs] by (auto simp: le_less)

lemma find_if_nth: "find_if p xs < length xs \<Longrightarrow> p (xs ! find_if p xs)"
  by (induction xs) (auto split: if_splits)

lemma find_if_first: "i < find_if p xs \<Longrightarrow> \<not> p (xs ! i)"
  by (induction xs arbitrary: i) (auto split: if_splits simp: nth_Cons' less_Suc_eq_0_disj)

text \<open>Overwriting a position with the last element and dropping the last removes that position.\<close>

lemma mset_butlast_last: "xs \<noteq> [] \<Longrightarrow> mset xs = add_mset (last xs) (mset (butlast xs))"
  by (induction xs rule: rev_induct) auto

lemma mset_swap_remove:
  assumes "i < length xs"
  shows "mset xs = add_mset (xs ! i) (mset (butlast (xs[i := last xs])))"
proof (cases "i = length xs - 1")
  case True
  with assms have "xs \<noteq> []"
    by auto
  moreover from this True have "last xs = xs ! i"
    by (simp add: last_conv_nth)
  ultimately show ?thesis
    using mset_butlast_last [of xs] by simp
next
  case False
  with assms have i: "i < length (butlast xs)"
    by simp
  have xs: "xs = butlast xs @ [last xs]"
    using assms by (metis append_butlast_last_id list.size(3) not_less_zero)
  have "xs[i := last xs] = (butlast xs)[i := last xs] @ [last xs]"
    using i by (subst (1) xs) (simp add: list_update_append)
  then have "butlast (xs[i := last xs]) = (butlast xs)[i := last xs]"
    by simp
  moreover have "add_mset (butlast xs ! i) (mset ((butlast xs)[i := last xs])) =
      add_mset (last xs) (mset (butlast xs))"
    using i by (simp add: mset_update)
  moreover have "butlast xs ! i = xs ! i"
    using i by (simp add: nth_butlast)
  ultimately show ?thesis
    by (subst (1) xs) simp
qed

lemma set_swap_remove: "i < length xs \<Longrightarrow> set (butlast (xs[i := last xs])) \<subseteq> set xs"
  using mset_swap_remove [of i xs] by (metis set_mset_add_mset_insert set_mset_mset subset_insertI)

lemma mset_concat_update:
  assumes "i < length xss"
  shows "mset (concat (xss[i := ys])) + mset (xss ! i) = mset (concat xss) + mset ys"
  using assms
proof (induction xss arbitrary: i)
  case Nil
  then show ?case by simp
next
  case (Cons xs xss)
  then show ?case
    by (cases i) (auto simp: ac_simps)
qed

section \<open>The operations implement a bag\<close>

lemma hm_slot_less [simp]: "hm_slot key < hm_size"
  by (simp add: hm_slot_def hm_size_def)

lemma hm_wf_length: "hm_wf m \<Longrightarrow> length (hm_table m) = hm_size"
  by (simp add: hm_wf_def)

lemma hm_wf_slot:
  "hm_wf m \<Longrightarrow> i < hm_size \<Longrightarrow> p \<in> set (hm_table m ! i) \<Longrightarrow> hm_slot (fst p) = i"
  by (simp add: hm_wf_def)

lemma hm_wf_bucket:
  assumes "hm_wf m" and "b \<in> set (hm_table m)" and "p \<in> set b"
  shows "b = hm_table m ! hm_slot (fst p)"
proof -
  obtain i where "i < hm_size" "b = hm_table m ! i"
    using assms(1,2) by (auto simp: in_set_conv_nth hm_wf_length)
  then show ?thesis
    using hm_wf_slot [OF assms(1)] assms(3) by simp
qed

text \<open>Every entry of a key sits in the key's own bucket.\<close>

lemma hm_entries_bucket:
  assumes "hm_wf m"
  shows "p \<in># hm_entries m \<longleftrightarrow> p \<in> set (hm_table m ! hm_slot (fst p))"
proof
  assume "p \<in># hm_entries m"
  then obtain b where "b \<in> set (hm_table m)" "p \<in> set b"
    by (auto simp: hm_entries_def)
  with assms show "p \<in> set (hm_table m ! hm_slot (fst p))"
    using hm_wf_bucket by fastforce
next
  assume "p \<in> set (hm_table m ! hm_slot (fst p))"
  moreover have "hm_table m ! hm_slot (fst p) \<in> set (hm_table m)"
    using assms by (simp add: hm_wf_length)
  ultimately show "p \<in># hm_entries m"
    by (auto simp: hm_entries_def)
qed

lemma Contains_iff_entry:
  "hm_wf m \<Longrightarrow> Contains m key \<longleftrightarrow> (\<exists>v. (key, v) \<in># hm_entries m)"
  by (force simp: Contains_def Let_def find_if_eq_length_iff hm_entries_bucket)

lemma Contains_iff_mult: "hm_wf m \<Longrightarrow> Contains m key \<longleftrightarrow> 0 < hm_mult m key"
  by (force simp: Contains_iff_entry hm_mult_def nonempty_has_size [symmetric] multiset_eq_iff)

text \<open>Replacing one bucket exchanges that bucket's share of the entries.\<close>

lemma hm_entries_update:
  assumes "hm_wf m" and "i < hm_size"
  shows "hm_entries (m\<lparr>hm_table := (hm_table m)[i := b], hm_count := c\<rparr>) + mset (hm_table m ! i) =
    hm_entries m + mset b"
  using assms mset_concat_update [of i "hm_table m" b] by (simp add: hm_entries_def hm_wf_length)

lemma hm_wf_update:
  assumes "hm_wf m" and "i < hm_size" and "\<forall>p\<in>set b. hm_slot (fst p) = i"
    and "c = of_nat (size (hm_entries (m\<lparr>hm_table := (hm_table m)[i := b], hm_count := c\<rparr>)))"
  shows "hm_wf (m\<lparr>hm_table := (hm_table m)[i := b], hm_count := c\<rparr>)"
  using assms by (auto simp: hm_wf_def nth_list_update)

lemma hm_count_pred:
  "hm_wf m \<Longrightarrow> hm_entries m = add_mset p E \<Longrightarrow> hm_count m - 1 = of_nat (size E)"
  by (simp add: hm_wf_def)

lemma hm_new_wf: "hm_wf hm_new"
  by (simp add: hm_wf_def hm_new_def hm_entries_def)

lemma Clear_entries: "hm_entries (Clear m) = {#}"
  by (simp add: hm_entries_def Clear_def)

lemma Clear_wf: "hm_wf m \<Longrightarrow> hm_wf (Clear m)"
  using Clear_entries [of m] by (simp add: hm_wf_def Clear_def)

lemma Insert_entries: "hm_wf m \<Longrightarrow> hm_entries (Insert m key v) = add_mset (key, v) (hm_entries m)"
  using hm_entries_update
    [where m = m and i = "hm_slot key" and b = "hm_table m ! hm_slot key @ [(key, v)]"]
  by (simp add: Insert_def Let_def)

lemma Insert_wf:
  assumes "hm_wf m"
  shows "hm_wf (Insert m key v)"
proof -
  have "hm_count m + 1 = of_nat (size (hm_entries (Insert m key v)))"
    using assms by (simp add: Insert_entries) (simp add: hm_wf_def)
  then show ?thesis
    unfolding Insert_def Let_def
    using assms by (intro hm_wf_update) (auto simp: hm_wf_def)
qed

text \<open>The entry that \<open>Delete\<close> removes is the first one of its key in the bucket.\<close>

definition hm_first :: "'v hash_map \<Rightarrow> u64 \<Rightarrow> u64 \<times> 'v" where
  "hm_first m key =
     hm_table m ! hm_slot key ! find_if (\<lambda>p. fst p = key) (hm_table m ! hm_slot key)"

lemma Contains_find: "Contains m key \<longleftrightarrow>
    find_if (\<lambda>p. fst p = key) (hm_table m ! hm_slot key) < length (hm_table m ! hm_slot key)"
  using find_if_le [of "\<lambda>p. fst p = key" "hm_table m ! hm_slot key"]
  by (auto simp: Contains_def Let_def)

lemma hm_first_key: "Contains m key \<Longrightarrow> fst (hm_first m key) = key"
  by (auto simp: Contains_find hm_first_def dest: find_if_nth)

lemma Delete_bucket:
  assumes "Contains m key"
  defines "bucket \<equiv> hm_table m ! hm_slot key"
  defines "it \<equiv> find_if (\<lambda>p. fst p = key) bucket"
  shows "Delete m key = m\<lparr>hm_table := (hm_table m)[hm_slot key := butlast (bucket[it := last bucket])],
    hm_count := hm_count m - 1\<rparr>"
proof -
  have it: "it < length bucket"
    using assms(1) by (simp add: Contains_find bucket_def it_def)
  have "bucket[it := last bucket] = bucket" if "it = length bucket - 1"
    using it that by (metis last_conv_nth length_0_conv list_update_id not_less_zero)
  then show ?thesis
    using it by (auto simp: Delete_def Let_def bucket_def it_def)
qed

lemma Delete_absent: "\<not> Contains m key \<Longrightarrow> Delete m key = m"
  by (simp add: Contains_def Delete_def Let_def)

lemma Delete_entries:
  assumes "hm_wf m" and "Contains m key"
  shows "hm_entries m = add_mset (hm_first m key) (hm_entries (Delete m key))"
proof -
  let ?b = "hm_table m ! hm_slot key"
  let ?it = "find_if (\<lambda>p. fst p = key) ?b"
  have "mset ?b = add_mset (hm_first m key) (mset (butlast (?b[?it := last ?b])))"
    using assms(2) by (simp add: Contains_find hm_first_def mset_swap_remove)
  then show ?thesis
    using hm_entries_update [where m = m and i = "hm_slot key" and b = "butlast (?b[?it := last ?b])"]
      assms by (simp add: Delete_bucket)
qed

lemma Delete_wf:
  assumes "hm_wf m"
  shows "hm_wf (Delete m key)"
proof (cases "Contains m key")
  case True
  let ?b = "hm_table m ! hm_slot key"
  let ?it = "find_if (\<lambda>p. fst p = key) ?b"
  have "set (butlast (?b[?it := last ?b])) \<subseteq> set ?b"
    using True by (intro set_swap_remove) (simp add: Contains_find)
  then have "\<forall>p\<in>set (butlast (?b[?it := last ?b])). hm_slot (fst p) = hm_slot key"
    using hm_wf_slot [OF assms hm_slot_less] by blast
  moreover have "hm_count m - 1 = of_nat (size (hm_entries (Delete m key)))"
    using hm_count_pred [OF assms Delete_entries [OF assms True]] .
  ultimately show ?thesis
    using assms unfolding Delete_bucket [OF True] by (intro hm_wf_update) simp_all
qed (simp add: assms Delete_absent)

lemma Insert_mult:
  "hm_wf m \<Longrightarrow> hm_mult (Insert m key v) = (hm_mult m)(key := hm_mult m key + 1)"
  by (auto simp: hm_mult_def Insert_entries)

lemma Delete_mult:
  assumes "hm_wf m"
  shows "hm_mult (Delete m key) = (hm_mult m)(key := hm_mult m key - 1)"
proof (cases "Contains m key")
  case True
  then show ?thesis
    using Delete_entries [OF assms True] by (auto simp: hm_mult_def hm_first_key)
next
  case False
  then show ?thesis
    using assms by (auto simp: Delete_absent Contains_iff_mult)
qed

lemma Clear_mult: "hm_mult (Clear m) = (\<lambda>_. 0)"
  by (auto simp: hm_mult_def Clear_entries)

text \<open>\<open>Pop\<close> on a table with entries removes exactly one of them; on an empty one it faults.\<close>

lemma Pop_empty: "hm_wf m \<Longrightarrow> hm_entries m = {#} \<Longrightarrow> Pop m = Inl Out_Of_Bounds"
  by (auto simp: Pop_def Let_def hm_entries_def find_if_eq_length_iff [THEN iffD2])

lemma Pop_entries:
  assumes "hm_wf m" and "hm_entries m \<noteq> {#}"
  shows "\<exists>key v m'. Pop m = Inr (v, m') \<and> hm_entries m = add_mset (key, v) (hm_entries m') \<and> hm_wf m'"
proof -
  let ?i = "find_if (\<lambda>b. b \<noteq> []) (hm_table m)"
  let ?b = "hm_table m ! ?i"
  let ?m' = "m\<lparr>hm_table := (hm_table m)[?i := butlast (?b[0 := last ?b])], hm_count := hm_count m - 1\<rparr>"
  have i: "?i < length (hm_table m)"
    using assms(2) by (auto simp: find_if_less_iff hm_entries_def)
  then have b: "?b \<noteq> []"
    by (rule find_if_nth)
  have "mset ?b = add_mset (hd ?b) (mset (butlast (?b[0 := last ?b])))"
    using b mset_swap_remove [of 0 ?b] by (simp add: hd_conv_nth)
  then have e: "hm_entries m = add_mset (hd ?b) (hm_entries ?m')"
    using hm_entries_update [where m = m and i = ?i and b = "butlast (?b[0 := last ?b])"]
      assms(1) i by (simp add: hm_wf_length)
  have "hm_count m - 1 = of_nat (size (hm_entries ?m'))"
    using hm_count_pred [OF assms(1) e] .
  moreover have "set (butlast (?b[0 := last ?b])) \<subseteq> set ?b"
    using b by (intro set_swap_remove) simp
  then have "\<forall>p\<in>set (butlast (?b[0 := last ?b])). hm_slot (fst p) = ?i"
    using hm_wf_slot [OF assms(1)] i assms(1) by (auto simp: hm_wf_length)
  ultimately have "hm_wf ?m'"
    using assms(1) i by (intro hm_wf_update) (simp_all add: hm_wf_length)
  moreover have "Pop m = Inr (snd (hd ?b), ?m')"
    using i by (simp add: Pop_def Let_def)
  ultimately show ?thesis
    using e by (metis prod.collapse)
qed

lemma Get_ref_first:
  "Contains m key \<Longrightarrow> Get_ref m key = Inr (snd (hm_first m key))"
  by (simp add: Contains_find Get_ref_def Let_def hm_first_def)

lemma Get_ref_absent: "\<not> Contains m key \<Longrightarrow> Get_ref m key = Inl Out_Of_Bounds"
  by (simp add: Contains_find Get_ref_def Let_def)

section \<open>The interface DB_MASTER relies on\<close>

text \<open>
  What the write, read and roll-back paths use of the tracker: four operations and, for every hash,
  the number of entries stored under it.
\<close>

locale key_bag =
  fixes contains :: "'s \<Rightarrow> u64 \<Rightarrow> bool"
    and insert :: "'s \<Rightarrow> u64 \<Rightarrow> 'v \<Rightarrow> 's"
    and delete :: "'s \<Rightarrow> u64 \<Rightarrow> 's"
    and clear :: "'s \<Rightarrow> 's"
    and mult :: "'s \<Rightarrow> u64 \<Rightarrow> nat"
    and invar :: "'s \<Rightarrow> bool"
  assumes bag_contains: "invar s \<Longrightarrow> contains s k \<longleftrightarrow> 0 < mult s k"
    and bag_insert: "invar s \<Longrightarrow> mult (insert s k v) = (mult s)(k := mult s k + 1)"
    and bag_delete: "invar s \<Longrightarrow> mult (delete s k) = (mult s)(k := mult s k - 1)"
    and bag_clear: "mult (clear s) = (\<lambda>_. 0)"
    and invar_insert: "invar s \<Longrightarrow> invar (insert s k v)"
    and invar_delete: "invar s \<Longrightarrow> invar (delete s k)"
    and invar_clear: "invar s \<Longrightarrow> invar (clear s)"
begin

lemmas bag_specs = bag_contains bag_insert bag_delete bag_clear invar_insert invar_delete invar_clear

lemma contains_insert: "invar s \<Longrightarrow> contains (insert s k v) k' \<longleftrightarrow> k' = k \<or> contains s k'"
  by (simp add: bag_specs)

lemma contains_delete_other: "invar s \<Longrightarrow> k' \<noteq> k \<Longrightarrow> contains (delete s k) k' \<longleftrightarrow> contains s k'"
  by (simp add: bag_specs)

lemma contains_delete_same: "invar s \<Longrightarrow> contains (delete s k) k \<longleftrightarrow> 2 \<le> mult s k"
  by (auto simp: bag_specs)

lemma contains_clear: "invar s \<Longrightarrow> \<not> contains (clear s) k"
  by (simp add: bag_specs)

lemma invar_insert_all: "invar s \<Longrightarrow> invar (foldl (\<lambda>s (k, v). insert s k v) s kvs)"
  by (induction kvs arbitrary: s) (auto simp: bag_specs)

lemma mult_insert_all:
  "invar s \<Longrightarrow>
   mult (foldl (\<lambda>s (k, v). insert s k v) s kvs) k = mult s k + length (filter (\<lambda>kv. fst kv = k) kvs)"
  by (induction kvs arbitrary: s) (auto simp: bag_specs)

lemma mult_delete_n: "invar s \<Longrightarrow> mult (((\<lambda>s. delete s k) ^^ n) s) k = mult s k - n \<and>
    invar (((\<lambda>s. delete s k) ^^ n) s)"
  by (induction n) (auto simp: bag_specs)

text \<open>A key recorded \<open>n\<close> times is only forgotten after \<open>n\<close> deletions.\<close>

lemma contains_after_deletes:
  assumes "invar s"
  shows "contains (((\<lambda>s. delete s k) ^^ n) s) k \<longleftrightarrow> n < mult s k"
  using mult_delete_n [OF assms, where k = k and n = n] by (simp add: bag_contains)

end

interpretation tracker: key_bag Contains Insert Delete Clear hm_mult hm_wf
  by unfold_locales
    (auto simp: Contains_iff_mult Insert_mult Delete_mult Clear_mult Insert_wf Delete_wf Clear_wf)

section \<open>Every reachable table is well formed\<close>

inductive hm_step :: "'v hash_map \<Rightarrow> 'v hash_map \<Rightarrow> bool" where
  step_insert: "hm_step m (Insert m key v)"
| step_delete: "hm_step m (Delete m key)"
| step_clear: "hm_step m (Clear m)"
| step_pop: "Pop m = Inr (v, m') \<Longrightarrow> hm_step m m'"

inductive_cases hm_stepE: "hm_step m m'"

lemma Pop_wf: "hm_wf m \<Longrightarrow> Pop m = Inr (v, m') \<Longrightarrow> hm_wf m'"
proof -
  assume "hm_wf m" "Pop m = Inr (v, m')"
  moreover from this have "hm_entries m \<noteq> {#}"
    using Pop_empty by fastforce
  ultimately show "hm_wf m'"
    using Pop_entries by fastforce
qed

interpretation hm_inv: inductive_invariant "\<lambda>m. m = hm_new" hm_step hm_wf
  by unfold_locales (auto simp: hm_new_wf Insert_wf Delete_wf Clear_wf elim!: hm_stepE intro: Pop_wf)

text \<open>
  Claim C40 (type).  In every table that \<open>Insert\<close>, \<open>Delete\<close>, \<open>Pop\<close> and \<open>Clear\<close> can produce
  from a new \<open>HashMap\<close>, each pair lies in the bucket of its own key and \<open>count\<close> is the number of
  stored pairs, as a wrapping 32-bit integer.
\<close>

theorem tracker_reachable_wf:
  assumes "reach (\<lambda>m. m = hm_new) hm_step m"
  shows "length (hm_table m) = 128 \<and>
    (\<forall>i<128. \<forall>p\<in>set (hm_table m ! i). unat (fst p) mod 128 = i) \<and>
    hm_count m = of_nat (length (concat (hm_table m)))"
proof -
  have "hm_wf m"
    using assms by (rule hm_inv.reach_inv)
  then show ?thesis
    unfolding hm_wf_def hm_slot_def hm_size_def hm_entries_def size_mset .
qed

theorem tracker_reachable_wf_witness:
  "hm_count (Insert (Insert hm_new 5 ''k'') 133 ''l'') =
     of_nat (length (concat (hm_table (Insert (Insert hm_new 5 ''k'') 133 ''l''))))"
proof -
  have "reach (\<lambda>m. m = hm_new) hm_step (hm_new :: string hash_map)"
    by (simp add: reach_init)
  then have "reach (\<lambda>m. m = hm_new) hm_step (Insert hm_new 5 ''k'')"
    by (rule reach_step) (rule step_insert)
  then have "reach (\<lambda>m. m = hm_new) hm_step (Insert (Insert hm_new 5 ''k'') 133 ''l'')"
    by (rule reach_step) (rule step_insert)
  then show ?thesis
    using tracker_reachable_wf by blast
qed

text \<open>
  Claim C25 (refinement).  On a well-formed table the operations implement a bag of 64-bit hashes:
  \<open>Contains\<close> tests for a positive multiplicity, \<open>Insert\<close> adds one occurrence of its key and touches
  no other, \<open>Delete\<close> takes away one occurrence, \<open>Clear\<close> empties the bag.
\<close>

theorem tracker_refines_bag:
  assumes "hm_wf m"
  shows "(Contains m key \<longleftrightarrow> 0 < hm_mult m key) \<and>
    hm_mult (Insert m key v) = (hm_mult m)(key := hm_mult m key + 1) \<and>
    hm_mult (Delete m key) = (hm_mult m)(key := hm_mult m key - 1) \<and>
    hm_mult (Clear m) = (\<lambda>_. 0)"
  using assms by (simp add: tracker.bag_specs)

theorem tracker_refines_bag_witness:
  "hm_wf (Insert hm_new 7 ''a'') \<and> Contains (Insert hm_new 7 ''a'') 7 \<and>
   hm_mult (Insert (Insert hm_new 7 ''a'') 7 ''b'') 7 = 2"
proof -
  have wf: "hm_wf (Insert hm_new 7 ''a'')"
    by (simp add: hm_new_wf Insert_wf)
  have "hm_mult (Insert hm_new 7 ''a'') 7 = 1"
    using tracker_refines_bag [OF hm_new_wf, where key = 7 and v = "''a''"]
    by (simp add: hm_mult_def hm_entries_def hm_new_def)
  then show ?thesis
    using wf tracker_refines_bag [OF wf, where key = 7 and v = "''b''"] by simp
qed

text \<open>
  A key inserted \<open>n\<close> times is still reported by \<open>Contains\<close> after \<open>d\<close>
  deletions exactly while \<open>d\<close> is below the number of its entries: one \<open>Delete\<close> does not undo two
  \<open>Insert\<close>s.
\<close>

theorem tracker_delete_count:
  assumes "hm_wf m"
  shows "Contains (((\<lambda>m. Delete m key) ^^ d) (foldl (\<lambda>m (k, v). Insert m k v) m kvs)) key \<longleftrightarrow>
    d < hm_mult m key + length (filter (\<lambda>kv. fst kv = key) kvs)"
  using tracker.contains_after_deletes [OF tracker.invar_insert_all [OF assms]]
    tracker.mult_insert_all [OF assms] by simp

theorem tracker_delete_count_witness:
  "Contains (Delete (Insert (Insert hm_new 9 ''x'') 9 ''y'') 9) 9"
  using tracker_delete_count
    [OF hm_new_wf, where key = 9 and d = 1 and kvs = "[(9, ''x''), (9, ''y'')]"] by simp

text \<open>
  \<open>Pop\<close> on a table with at least one entry returns the value of one stored
  pair and removes exactly that pair; on an empty table it reads past the bucket array.
\<close>

theorem Pop_removes_one:
  assumes "hm_wf m"
  shows "(hm_entries m = {#} \<longrightarrow> Pop m = Inl Out_Of_Bounds) \<and>
    (hm_entries m \<noteq> {#} \<longrightarrow>
       (\<exists>key v m'. Pop m = Inr (v, m') \<and> hm_entries m = add_mset (key, v) (hm_entries m') \<and> hm_wf m'))"
  using assms Pop_empty Pop_entries by blast

theorem Pop_removes_one_witness:
  "Pop (hm_new :: string hash_map) = Inl Out_Of_Bounds \<and>
   (\<exists>v m'. Pop (Insert hm_new 3 ''z'') = Inr (v, m'))"
proof -
  have "hm_entries (hm_new :: string hash_map) = {#}"
    by (simp add: hm_entries_def hm_new_def)
  moreover have "hm_entries (Insert hm_new 3 ''z'') \<noteq> {#}"
    by (simp add: Insert_entries hm_new_wf)
  ultimately show ?thesis
    using Pop_removes_one [OF hm_new_wf]
      Pop_removes_one [OF Insert_wf [OF hm_new_wf, where key = 3 and v = "''z''"]] by metis
qed

end
