(* ===== verification/ILSM_Device.thy ===== *)
theory ILSM_Device
  imports KV_Prelude
begin

text \<open>
  The host-side driver object \<open>iLSM::DB\<close> of \<open>kvaccel/include/rocksdb/iLSM.h\<close> and the part of
  \<open>kvaccel/db/db_impl/iLSM.cc\<close> that every command goes through: opening the device, the NVMe
  passthrough call, the statistics and their report.  The operating system (clock, aligned
  allocation, files, the \<open>ioctl\<close> that reaches the device firmware) is not part of the repository;
  it is the parameter \<open>os\<close>, acting on a world state of any type.
\<close>

section \<open>Constants\<close>

definition PAGE_SIZE :: u32 where "PAGE_SIZE = 4096"
definition NSID :: u32 where "NSID = 96623821"
definition MAX_CMD_NUM :: nat where "MAX_CMD_NUM = 43691"
definition MAX_BUFLEN :: u32 where "MAX_BUFLEN = 508 * 1024"
definition BLOCK_SIZE :: u32 where "BLOCK_SIZE = 4096"
definition MAX_ITERATOR_NUM :: nat where "MAX_ITERATOR_NUM = 10"
definition LIMIT_VALUE_BUFFER_ENTRY :: u32 where "LIMIT_VALUE_BUFFER_ENTRY = 128"
definition MAX_VALUE_BUFFER_ENTRY :: u32 where "MAX_VALUE_BUFFER_ENTRY = 341"
definition MAX_VALUE_BUFFER_SIZE :: u32 where
  "MAX_VALUE_BUFFER_SIZE = MAX_VALUE_BUFFER_ENTRY * PAGE_SIZE"
definition BYTES_PER_KV_PAIR_OFFSET :: u32 where "BYTES_PER_KV_PAIR_OFFSET = 12"
definition MAX_KEY_VALUE_BUFFER_SIZE :: u32 where
  "MAX_KEY_VALUE_BUFFER_SIZE =
     (MAX_VALUE_BUFFER_ENTRY * BYTES_PER_KV_PAIR_OFFSET div PAGE_SIZE + 1) * PAGE_SIZE"

lemmas ilsm_const_defs = PAGE_SIZE_def NSID_def MAX_CMD_NUM_def MAX_BUFLEN_def BLOCK_SIZE_def
  MAX_ITERATOR_NUM_def LIMIT_VALUE_BUFFER_ENTRY_def MAX_VALUE_BUFFER_ENTRY_def
  MAX_VALUE_BUFFER_SIZE_def BYTES_PER_KV_PAIR_OFFSET_def MAX_KEY_VALUE_BUFFER_SIZE_def

definition ENOMEM :: int where "ENOMEM = 12"

section \<open>Opcodes and operations\<close>

datatype NvmeOpcode =
    NVME_CMD_KV_PUT
  | NVME_CMD_KV_GET
  | NVME_CMD_KV_DELETE
  | NVME_CMD_KV_ITER_CREATE_ITER
  | NVME_CMD_KV_ITER_SEEK
  | NVME_CMD_KV_ITER_NEXT
  | NVME_CMD_KV_ITER_DESTROY_ITER
  | NVME_CMD_KV_RANGE_SCAN_SEEK
  | NVME_CMD_KV_RANGE_SCAN_NEXT
  | NVME_CMD_KV_RESET
  | NVME_CMD_V_FLUSH
  | NVME_CMD_KV_FLUSH
  | NVME_CMD_KV_LAST

fun opcode_of :: "NvmeOpcode \<Rightarrow> u8" where
  "opcode_of NVME_CMD_KV_PUT = 0xA0"
| "opcode_of NVME_CMD_KV_GET = 0xA1"
| "opcode_of NVME_CMD_KV_DELETE = 0xA2"
| "opcode_of NVME_CMD_KV_ITER_CREATE_ITER = 0xA3"
| "opcode_of NVME_CMD_KV_ITER_SEEK = 0xA4"
| "opcode_of NVME_CMD_KV_ITER_NEXT = 0xA5"
| "opcode_of NVME_CMD_KV_ITER_DESTROY_ITER = 0xA6"
| "opcode_of NVME_CMD_KV_RANGE_SCAN_SEEK = 0xA7"
| "opcode_of NVME_CMD_KV_RANGE_SCAN_NEXT = 0xA8"
| "opcode_of NVME_CMD_KV_RESET = 0xAA"
| "opcode_of NVME_CMD_V_FLUSH = 0xAB"
| "opcode_of NVME_CMD_KV_FLUSH = 0xAC"
| "opcode_of NVME_CMD_KV_LAST = 0xAD"

datatype iLSMOp = Op_Put | Op_Get | Op_CreateIter | Op_Seek | Op_Next | Op_DestroyIter
  | Op_RANGE_SCAN_SEEK | Op_RANGE_SCAN_NEXT | Op_LAST

fun op_index :: "iLSMOp \<Rightarrow> nat" where
  "op_index Op_Put = 0"
| "op_index Op_Get = 1"
| "op_index Op_CreateIter = 2"
| "op_index Op_Seek = 3"
| "op_index Op_Next = 4"
| "op_index Op_DestroyIter = 5"
| "op_index Op_RANGE_SCAN_SEEK = 6"
| "op_index Op_RANGE_SCAN_NEXT = 7"
| "op_index Op_LAST = 8"

section \<open>The operating system\<close>

record nvme_passthru_cmd =
  cmd_opcode :: u8
  cmd_flags :: u8
  cmd_rsvd1 :: u16
  cmd_nsid :: u32
  cmd_cdw2 :: u32
  cmd_cdw3 :: u32
  cmd_metadata :: u64
  cmd_metadata_len :: u32
  cmd_data_len :: u32
  cmd_cdw10 :: u32
  cmd_cdw11 :: u32
  cmd_cdw12 :: u32
  cmd_cdw13 :: u32
  cmd_cdw14 :: u32
  cmd_cdw15 :: u32
  cmd_timeout_ms :: u32
  cmd_result :: u32

text \<open>
  \<open>os_memalign\<close> tells whether \<open>posix_memalign\<close> succeeds, \<open>os_fstat\<close> gives the return value and
  whether the file is a character or a block device, \<open>os_ioctl\<close> takes the command with the block
  its \<open>addr\<close> points to and gives the return value, the \<open>result\<close> field and the block afterwards.
\<close>

record 'w os =
  os_now :: "'w \<Rightarrow> int \<times> 'w"
  os_memalign :: "nat \<Rightarrow> 'w \<Rightarrow> bool \<times> 'w"
  os_open :: "bytes \<Rightarrow> 'w \<Rightarrow> int \<times> 'w"
  os_fstat :: "int \<Rightarrow> 'w \<Rightarrow> (int \<times> bool \<times> bool) \<times> 'w"
  os_ioctl :: "int \<Rightarrow> nvme_passthru_cmd \<Rightarrow> region option \<Rightarrow> 'w \<Rightarrow>
    (int \<times> u32 \<times> region option) \<times> 'w"

section \<open>The driver object\<close>

record stat_table =
  st_t :: "int list"
  st_c :: "int list"

record BUFFERING_INFO =
  is_init_required :: bool
  value_log_addr :: "region option"
  value_log_offset :: u32
  KV_pair_addr :: "region option"
  KV_pair_offset :: u32
  buffering_cnt :: u32

text \<open>
  The members of \<open>iLSM::DB\<close> and the file-level arrays of \<open>iLSM.cc\<close> that its scans use.  The
  statistics vectors are written without a bounds check; \<open>oob_stat\<close> records the indices at which
  such a write falls outside its vector.  The heap cell it hits is not part of the modelled state, so
  what follows is stated up to that write.
\<close>

record 'w ilsm =
  iter_keys :: "bytes list"
  iter_values :: "bytes list"
  op_stat :: stat_table
  passthru_stat :: stat_table
  ilsm_fd :: int
  buffering_info :: BUFFERING_INFO
  scan_values :: "bytes list list"
  scan_keys :: "bytes list list"
  scan_cnt :: "u32 list"
  brk_point_key :: "u32 list"
  oob_stat :: "int list"
  world :: 'w

text \<open>
  The constructor.  The one object is a global, so members it does not mention start as zero: in
  particular the buffer is marked as not needing initialisation while both its pointers are null.
\<close>

definition ilsm_new :: "'w \<Rightarrow> 'w ilsm" where
  "ilsm_new w =
     \<lparr>iter_keys = replicate MAX_ITERATOR_NUM [],
      iter_values = replicate MAX_ITERATOR_NUM [],
      op_stat = \<lparr>st_t = replicate 8 0, st_c = replicate 8 0\<rparr>,
      passthru_stat = \<lparr>st_t = replicate 9 0, st_c = replicate 9 0\<rparr>,
      ilsm_fd = -1,
      buffering_info =
        \<lparr>is_init_required = False, value_log_addr = None, value_log_offset = 0,
         KV_pair_addr = None, KV_pair_offset = 0, buffering_cnt = 0\<rparr>,
      scan_values = replicate MAX_ITERATOR_NUM [],
      scan_keys = replicate MAX_ITERATOR_NUM [],
      scan_cnt = replicate MAX_ITERATOR_NUM 0,
      brk_point_key = replicate MAX_ITERATOR_NUM 0,
      oob_stat = [],
      world = w\<rparr>"

definition read_clock :: "'w os \<Rightarrow> 'w ilsm \<Rightarrow> int \<times> 'w ilsm" where
  "read_clock os s = (let (t, w) = os_now os (world s) in (t, s\<lparr>world := w\<rparr>))"

definition memalign :: "'w os \<Rightarrow> u32 \<Rightarrow> 'w ilsm \<Rightarrow> bool \<times> 'w ilsm" where
  "memalign os len s = (let (ok, w) = os_memalign os (unat len) (world s) in (ok, s\<lparr>world := w\<rparr>))"

section \<open>Statistics\<close>

definition stat_add :: "nat \<Rightarrow> int \<Rightarrow> stat_table \<Rightarrow> stat_table" where
  "stat_add idx d st =
     st\<lparr>st_t := (st_t st)[idx := st_t st ! idx + d], st_c := (st_c st)[idx := st_c st ! idx + 1]\<rparr>"

definition finishOp :: "iLSMOp \<Rightarrow> int \<Rightarrow> 'w ilsm \<Rightarrow> 'w ilsm" where
  "finishOp op d s =
     (let idx = op_index op
      in if idx < length (st_t (op_stat s))
         then s\<lparr>op_stat := stat_add idx d (op_stat s)\<rparr>
         else s\<lparr>oob_stat := oob_stat s @ [int idx]\<rparr>)"

definition finishPassthru :: "u8 \<Rightarrow> int \<Rightarrow> 'w ilsm \<Rightarrow> 'w ilsm" where
  "finishPassthru opcode d s =
     (let idx = uint opcode - uint (opcode_of NVME_CMD_KV_PUT)
      in if 0 \<le> idx \<and> nat idx < length (st_t (passthru_stat s))
         then s\<lparr>passthru_stat := stat_add (nat idx) d (passthru_stat s)\<rparr>
         else s\<lparr>oob_stat := oob_stat s @ [idx]\<rparr>)"

section \<open>The passthrough call\<close>

text \<open>
  The return value, the \<open>result\<close> output (\<open>None\<close> when the call leaves the caller's variable
  unassigned) and the data block afterwards.
\<close>

definition nvme_passthru ::
  "'w os \<Rightarrow> u8 \<Rightarrow> u8 \<Rightarrow> u16 \<Rightarrow> u32 \<Rightarrow> u32 \<Rightarrow> u32 \<Rightarrow> u32 \<Rightarrow> u32 \<Rightarrow> u32 \<Rightarrow> u32 \<Rightarrow> u32 \<Rightarrow> u32 \<Rightarrow> u32 \<Rightarrow>
   region option \<Rightarrow> 'w ilsm \<Rightarrow> (int \<times> u32 option \<times> region option) \<times> 'w ilsm" where
  "nvme_passthru os opcode flags rsvd nsid cdw2 cdw3 cdw10 cdw11 cdw12 cdw13 cdw14 cdw15 data_len
     data s =
     (let (st, s) = read_clock os s;
          cmd = \<lparr>cmd_opcode = opcode, cmd_flags = flags, cmd_rsvd1 = rsvd, cmd_nsid = nsid,
                 cmd_cdw2 = cdw2, cmd_cdw3 = cdw3, cmd_metadata = 0, cmd_metadata_len = 0,
                 cmd_data_len = data_len, cmd_cdw10 = cdw10, cmd_cdw11 = cdw11,
                 cmd_cdw12 = cdw12, cmd_cdw13 = cdw13, cmd_cdw14 = cdw14, cmd_cdw15 = cdw15,
                 cmd_timeout_ms = 0, cmd_result = 0\<rparr>;
          ((err, res, data'), w) = os_ioctl os (ilsm_fd s) cmd data (world s);
          s = s\<lparr>world := w\<rparr>
      in if err = 0 \<and>
            (opcode < opcode_of NVME_CMD_KV_LAST \<or> opcode = opcode_of NVME_CMD_KV_RESET \<or>
             opcode = opcode_of NVME_CMD_KV_RANGE_SCAN_SEEK \<or>
             opcode = opcode_of NVME_CMD_KV_RANGE_SCAN_NEXT)
         then (let (ed, s) = read_clock os s;
                   s = finishPassthru opcode (ed - st) s
               in ((err, Some res, data'), s))
         else ((err, None, data'), s))"

section \<open>Opening the device\<close>

definition Open :: "'w os \<Rightarrow> bytes \<Rightarrow> 'w ilsm \<Rightarrow> int \<times> 'w ilsm" where
  "Open os dev s =
     (let (err, w) = os_open os dev (world s);
          s = s\<lparr>world := w\<rparr>
      in if err < 0 then (-1, s)
         else (let s = s\<lparr>ilsm_fd := err\<rparr>;
                   ((err, is_chr, is_blk), w) = os_fstat os (ilsm_fd s) (world s);
                   s = s\<lparr>world := w\<rparr>
               in if err < 0 then (-1, s)
                  else if \<not> is_chr \<and> \<not> is_blk then (-1, s)
                  else (0, s\<lparr>buffering_info := (buffering_info s)
                              \<lparr>is_init_required := True, buffering_cnt := 0\<rparr>\<rparr>)))"

section \<open>The report\<close>

text \<open>
  Each line of the report names an operation and gives its total time and its count; the text is
  formatted from these three.  The loop runs over the statistics vector while \<open>vector::operator[]\<close>
  does not check its index.
\<close>

fun op_label :: "nat \<Rightarrow> string" where
  "op_label i =
     (if i = 0 then ''[Put] ''
      else if i = 1 then ''[Get] ''
      else if i = 2 then ''[CreateIter] ''
      else if i = 3 then ''[Seek] ''
      else if i = 4 then ''[Next] ''
      else if i = 5 then ''[DestroyIter] ''
      else ''[????] '')"

fun passthru_label :: "nat \<Rightarrow> string" where
  "passthru_label i =
     (if i = 0 then ''[NVME_CMD_KV_PUT] ''
      else if i = 1 then ''[NVME_CMD_KV_GET] ''
      else if i = 2 then ''[NVME_CMD_KV_DELETE] ''
      else if i = 3 then ''[NVME_CMD_KV_ITER_CREATE_ITER] ''
      else if i = 4 \<or> i = 7 then ''[NVME_CMD_KV_ITER_SEEK] ''
      else if i = 5 \<or> i = 8 then ''[NVME_CMD_KV_ITER_NEXT] ''
      else if i = 6 then ''[NVME_CMD_KV_ITER_DESTROY_ITER] ''
      else ''[???] '')"

fun report_loop ::
  "(nat \<Rightarrow> string) \<Rightarrow> stat_table \<Rightarrow> nat \<Rightarrow> nat \<Rightarrow> (string \<times> int \<times> int) list outcome" where
  "report_loop label st i 0 = Inr []"
| "report_loop label st i (Suc n) =
     bindO (at_index (st_t st) i) (\<lambda>t.
       if t = 0 then report_loop label st (Suc i) n
       else bindO (at_index (st_c st) i) (\<lambda>c.
              bindO (report_loop label st (Suc i) n) (\<lambda>rest. Inr ((label i, t, c) # rest))))"

definition Report :: "'w os \<Rightarrow> 'w ilsm \<Rightarrow> ((string \<times> int \<times> int) list \<times> 'w ilsm) outcome" where
  "Report os s =
     bindO (report_loop op_label (op_stat s) 0 (op_index Op_LAST)) (\<lambda>ops.
       bindO (report_loop passthru_label (passthru_stat s) 0
                (unat (opcode_of NVME_CMD_KV_LAST) - 0xA0)) (\<lambda>cmds.
         let (_, s) = nvme_passthru os (opcode_of NVME_CMD_KV_LAST) 0 0 NSID 0 0 0 0 0 0 0 0 0 None s
         in Inr (ops @ cmds, s)))"

section \<open>Frame conditions\<close>

text \<open>
  The write path leaves the scan state alone; a passthrough call leaves everything alone but the
  world and the statistics.
\<close>

definition same_scan :: "'w ilsm \<Rightarrow> 'w ilsm \<Rightarrow> bool" where
  "same_scan s t \<longleftrightarrow>
     iter_keys t = iter_keys s \<and> iter_values t = iter_values s \<and> scan_values t = scan_values s \<and>
     scan_keys t = scan_keys s \<and> scan_cnt t = scan_cnt s \<and> brk_point_key t = brk_point_key s"

definition same_buffers :: "'w ilsm \<Rightarrow> 'w ilsm \<Rightarrow> bool" where
  "same_buffers s t \<longleftrightarrow>
     same_scan s t \<and> buffering_info t = buffering_info s \<and> ilsm_fd t = ilsm_fd s"

lemma same_scan_refl [simp]: "same_scan s s"
  by (simp add: same_scan_def)

lemma same_scan_trans [trans]: "same_scan s t \<Longrightarrow> same_scan t u \<Longrightarrow> same_scan s u"
  by (simp add: same_scan_def)

lemma same_scan_buffering [simp]:
  "same_scan (s\<lparr>buffering_info := b\<rparr>) t = same_scan s t"
  "same_scan s (t\<lparr>buffering_info := b\<rparr>) = same_scan s t"
  by (simp_all add: same_scan_def)

lemma same_buffers_scan: "same_buffers s t \<Longrightarrow> same_scan s t"
  by (simp add: same_buffers_def)

lemma same_buffers_info: "same_buffers s t \<Longrightarrow> buffering_info t = buffering_info s"
  by (simp add: same_buffers_def)

lemma same_buffers_refl [simp]: "same_buffers s s"
  by (simp add: same_buffers_def)

lemma same_buffers_trans [trans]: "same_buffers s t \<Longrightarrow> same_buffers t u \<Longrightarrow> same_buffers s u"
  by (auto simp: same_buffers_def intro: same_scan_trans)

lemma same_buffers_clock: "read_clock os s = (t, s') \<Longrightarrow> same_buffers s s'"
  by (auto simp: read_clock_def same_buffers_def same_scan_def split: prod.splits)

lemma same_buffers_memalign: "memalign os n s = (ok, s') \<Longrightarrow> same_buffers s s'"
  by (auto simp: memalign_def same_buffers_def same_scan_def split: prod.splits)

lemma same_buffers_finishOp: "same_buffers s (finishOp op d s)"
  by (simp add: finishOp_def Let_def same_buffers_def same_scan_def)

lemma same_buffers_finishPassthru: "same_buffers s (finishPassthru opc d s)"
  by (simp add: finishPassthru_def Let_def same_buffers_def same_scan_def)

lemma same_buffers_passthru:
  "nvme_passthru os a b c d e f g h i j k l m x s = (r, s') \<Longrightarrow> same_buffers s s'"
  by (auto simp: nvme_passthru_def Let_def read_clock_def finishPassthru_def same_buffers_def
      same_scan_def split: prod.splits if_splits)

section \<open>Sizes of the statistics vectors\<close>

text \<open>The sizes the constructor gives the vectors, which no operation changes.\<close>

definition stats_sized :: "'w ilsm \<Rightarrow> bool" where
  "stats_sized s \<longleftrightarrow>
     length (st_t (op_stat s)) = 8 \<and> length (st_c (op_stat s)) = 8 \<and>
     length (st_t (passthru_stat s)) = 9 \<and> length (st_c (passthru_stat s)) = 9"

lemma stats_sized_new [simp]: "stats_sized (ilsm_new w)"
  by (simp add: stats_sized_def ilsm_new_def)

lemma stats_sized_finishOp [simp]: "stats_sized (finishOp op d s) = stats_sized s"
  by (simp add: stats_sized_def finishOp_def stat_add_def Let_def)

lemma stats_sized_finishPassthru [simp]: "stats_sized (finishPassthru opc d s) = stats_sized s"
  by (simp add: stats_sized_def finishPassthru_def stat_add_def Let_def)

lemma stats_sized_world [simp]: "stats_sized (s\<lparr>world := w\<rparr>) = stats_sized s"
  by (simp add: stats_sized_def)

lemma finishOp_in_bounds: "stats_sized s \<Longrightarrow> op \<noteq> Op_LAST \<Longrightarrow> oob_stat (finishOp op d s) = oob_stat s"
  by (cases op) (simp_all add: finishOp_def stats_sized_def)

lemma finishPassthru_oob:
  assumes "stats_sized s"
  shows "oob_stat (finishPassthru (opcode_of c) d s) =
    oob_stat s @ (if c \<in> {NVME_CMD_KV_RESET, NVME_CMD_V_FLUSH, NVME_CMD_KV_FLUSH, NVME_CMD_KV_LAST}
                  then [uint (opcode_of c) - 0xA0] else [])"
  using assms by (cases c) (simp_all add: finishPassthru_def stats_sized_def)

lemma report_loop_oob:
  "i < i + n \<Longrightarrow> length (st_t st) < i + n \<Longrightarrow> length (st_c st) = length (st_t st) \<Longrightarrow>
   report_loop label st i n = Inl Out_Of_Bounds"
proof (induction n arbitrary: i)
  case 0
  then show ?case by simp
next
  case (Suc n)
  show ?case
  proof (cases "i < length (st_t st)")
    case True
    with Suc.prems have "report_loop label st (Suc i) n = Inl Out_Of_Bounds"
      by (intro Suc.IH) auto
    with True Suc.prems show ?thesis by simp
  qed simp
qed

lemma report_loop_in_bounds:
  "i + n \<le> length (st_t st) \<Longrightarrow> length (st_c st) = length (st_t st) \<Longrightarrow>
   report_loop label st i n =
     Inr (map (\<lambda>k. (label k, st_t st ! k, st_c st ! k)) (filter (\<lambda>k. st_t st ! k \<noteq> 0) [i..<i + n]))"
proof (induction n arbitrary: i)
  case 0
  then show ?case by simp
next
  case (Suc n)
  have "[i..<i + Suc n] = i # [Suc i..<Suc i + n]"
    by (simp add: upt_rec)
  with Suc show ?case by simp
qed

text \<open>
  A successful passthrough command indexes the nine-slot passthrough statistics
  inside their bounds except for \<open>RESET\<close>, \<open>V_FLUSH\<close> and \<open>KV_FLUSH\<close>, whose slots 10, 11 and 12 lie
  past the end: every buffer flush and every reset writes outside the vector.
\<close>

theorem passthru_stat_bounds:
  assumes "stats_sized s" and "c \<noteq> NVME_CMD_KV_LAST"
    and "nvme_passthru os (opcode_of c) fl rs ns c2 c3 c10 c11 c12 c13 c14 c15 dl data s =
      ((0, res, data'), s')"
  shows "oob_stat s' = oob_stat s @
      (if c \<in> {NVME_CMD_KV_RESET, NVME_CMD_V_FLUSH, NVME_CMD_KV_FLUSH}
       then [uint (opcode_of c) - 0xA0] else []) \<and> stats_sized s'"
proof -
  have "opcode_of c < opcode_of NVME_CMD_KV_LAST"
    using assms(2) by (cases c) (simp_all add: word_less_alt)
  then obtain d t where "s' = finishPassthru (opcode_of c) d t" "oob_stat t = oob_stat s"
    "stats_sized t"
    using assms(1,3)
    by (auto simp: nvme_passthru_def Let_def read_clock_def split: prod.splits if_splits)
  then show ?thesis
    using finishPassthru_oob [of t c d] assms(2) by simp
qed

definition ok_os :: "unit os" where
  "ok_os = \<lparr>os_now = (\<lambda>w. (0, w)), os_memalign = (\<lambda>_ w. (True, w)), os_open = (\<lambda>_ w. (3, w)),
     os_fstat = (\<lambda>_ w. ((0, False, True), w)), os_ioctl = (\<lambda>_ _ d w. ((0, 0, d), w))\<rparr>"

theorem passthru_stat_bounds_witness:
  "oob_stat (snd (nvme_passthru ok_os (opcode_of NVME_CMD_KV_RESET) 0 0 NSID 0 0 0 0 0 0 0 0 0 None
     (ilsm_new ()))) = [10]"
proof -
  have "fst (nvme_passthru ok_os (opcode_of NVME_CMD_KV_RESET) 0 0 NSID 0 0 0 0 0 0 0 0 0 None
     (ilsm_new ())) = (0, Some 0, None)"
    by (simp add: nvme_passthru_def read_clock_def ok_os_def)
  then obtain s' where "nvme_passthru ok_os (opcode_of NVME_CMD_KV_RESET) 0 0 NSID 0 0 0 0 0 0 0 0 0
      None (ilsm_new ()) = ((0, Some 0, None), s')"
    by (metis prod.collapse)
  with passthru_stat_bounds [OF stats_sized_new _ this] show ?thesis
    by (simp add: ilsm_new_def)
qed

text \<open>
  \<open>Report\<close> visits thirteen passthrough slots of a vector that has nine, so it
  always reads past the vector, whatever was counted before.
\<close>

theorem Report_out_of_bounds:
  assumes "stats_sized s"
  shows "Report os s = Inl Out_Of_Bounds"
  using assms by (simp add: Report_def stats_sized_def report_loop_in_bounds report_loop_oob)

theorem Report_out_of_bounds_witness: "Report ok_os (ilsm_new ()) = Inl Out_Of_Bounds"
  by (rule Report_out_of_bounds) (rule stats_sized_new)

text \<open>
  \<open>Open\<close> returns 0 exactly when the file opens, can be inspected and is a
  character or block device; only then is the write buffer marked for initialisation, and on every
  failure the buffer state is unchanged.
\<close>

theorem Open_result:
  assumes "os_open os dev (world s) = (fd, w1)" and "os_fstat os fd w1 = ((st, is_chr, is_blk), w2)"
  shows "fst (Open os dev s) = (if 0 \<le> fd \<and> 0 \<le> st \<and> (is_chr \<or> is_blk) then 0 else -1) \<and>
    buffering_info (snd (Open os dev s)) =
      (if 0 \<le> fd \<and> 0 \<le> st \<and> (is_chr \<or> is_blk)
       then (buffering_info s)\<lparr>is_init_required := True, buffering_cnt := 0\<rparr>
       else buffering_info s)"
  using assms by (simp add: Open_def Let_def)

theorem Open_result_witness: "fst (Open ok_os (bytes_of ''/dev/nvme1n1'') (ilsm_new ())) = 0"
  using Open_result [of ok_os "bytes_of ''/dev/nvme1n1''" "ilsm_new ()" 3 "()" 0 False True "()"]
  by (simp add: ok_os_def)

end
