(* ===== verification/ILSM_Write.thy ===== *)
theory ILSM_Write
  imports ILSM_Device
begin

text \<open>
  The write side of \<open>iLSM.cc\<close> in its buffering mode: \<open>_Buffering\<close> appends a pair to two host
  buffers (a value log of pages and an array of 12-byte records), \<open>_ValueFlush\<close> and
  \<open>_KeyValueFlush\<close> send them to the device, \<open>_Flush\<close> does both and releases the buffers, \<open>Put\<close>
  buffers and flushes at the 128th record.
\<close>

section \<open>Operations\<close>

definition upd_buffering :: "(BUFFERING_INFO \<Rightarrow> BUFFERING_INFO) \<Rightarrow> 'w ilsm \<Rightarrow> 'w ilsm" where
  "upd_buffering f s = s\<lparr>buffering_info := f (buffering_info s)\<rparr>"

text \<open>The initialisation at the head of \<open>_Buffering\<close>; \<open>False\<close> is the \<open>-ENOMEM\<close> return.\<close>

definition init_buffers :: "'w os \<Rightarrow> 'w ilsm \<Rightarrow> bool \<times> 'w ilsm" where
  "init_buffers os s =
     (let (ok, s) = memalign os MAX_VALUE_BUFFER_SIZE s
      in if \<not> ok then (False, s)
         else (let s = upd_buffering (\<lambda>b. b\<lparr>value_log_addr := Some (ralloc (unat MAX_VALUE_BUFFER_SIZE))\<rparr>) s;
                   (ok, s) = memalign os MAX_KEY_VALUE_BUFFER_SIZE s
               in if \<not> ok then (False, s)
                  else (True, upd_buffering (\<lambda>b. b
                         \<lparr>KV_pair_addr := Some (ralloc (unat MAX_KEY_VALUE_BUFFER_SIZE)),
                          value_log_offset := 0, KV_pair_offset := 0, is_init_required := False,
                          buffering_cnt := 0\<rparr>) s)))"

text \<open>\<open>(value.size() - 1) / PAGE_SIZE\<close> in 64 bits, narrowed to \<open>unsigned int\<close>.\<close>

definition value_nlb :: "bytes \<Rightarrow> u32" where
  "value_nlb v = ucast ((of_nat (length v) - 1 :: u64) div ucast PAGE_SIZE)"

definition Buffering :: "'w os \<Rightarrow> bytes \<Rightarrow> bytes \<Rightarrow> 'w ilsm \<Rightarrow> (int \<times> 'w ilsm) outcome" where
  "Buffering os key value s =
     (let (ok, s) = (if is_init_required (buffering_info s) then init_buffers os s else (True, s))
      in if \<not> ok then Inr (- ENOMEM, s)
         else
           let bip = buffering_info s;
               nlb = value_nlb value;
               V_offset = value_log_offset bip * PAGE_SIZE;
               KV_offset = unat (KV_pair_offset bip * BYTES_PER_KV_PAIR_OFFSET)
           in bindO (deref (value_log_addr bip)) (\<lambda>vlog.
              bindO (rstore vlog (unat V_offset) (strncpy_bytes value)) (\<lambda>vlog.
              bindO (deref (KV_pair_addr bip)) (\<lambda>kv.
              bindO (c_str4 key) (\<lambda>key4.
              bindO (rstore kv KV_offset key4) (\<lambda>kv.
              bindO (rstore kv (KV_offset + 4) (le_bytes32 (value_log_offset bip))) (\<lambda>kv.
              bindO (rstore kv (KV_offset + 8) (le_bytes32 (of_nat (length value)))) (\<lambda>kv.
                Inr (0, s\<lparr>buffering_info := bip
                  \<lparr>value_log_addr := Some vlog, KV_pair_addr := Some kv,
                   KV_pair_offset := KV_pair_offset bip + 1,
                   value_log_offset := value_log_offset bip + (nlb + 1),
                   buffering_cnt := buffering_cnt bip + 1\<rparr>\<rparr>)))))))))"

text \<open>
  The loop of \<open>_ValueFlush\<close>: one command per 128 pages.  The first argument bounds the number of
  iterations; the caller gives one more than the page count, which is enough unless \<open>i * 128\<close> wraps.
\<close>

fun value_flush_loop :: "'w os \<Rightarrow> nat \<Rightarrow> u32 \<Rightarrow> u32 \<Rightarrow> u32 \<Rightarrow> 'w ilsm \<Rightarrow> (int \<times> 'w ilsm) outcome" where
  "value_flush_loop os 0 v_cnt total_data_len i s = Inl Out_Of_Fuel"
| "value_flush_loop os (Suc fuel) v_cnt total_data_len i s =
     (if i * LIMIT_VALUE_BUFFER_ENTRY < v_cnt
      then
        let cdw13 = (if v_cnt \<le> (i + 1) * LIMIT_VALUE_BUFFER_ENTRY
                     then total_data_len - i * LIMIT_VALUE_BUFFER_ENTRY * PAGE_SIZE
                     else LIMIT_VALUE_BUFFER_ENTRY * PAGE_SIZE);
            nlb = (cdw13 - 1) div PAGE_SIZE;
            data_len = (nlb + 1) * PAGE_SIZE;
            cdw12 = 0xFFFF AND nlb;
            cdw14 = (if i = 0 then 1 else 0)
        in bindO (deref (value_log_addr (buffering_info s))) (\<lambda>vlog.
             let data = rview vlog (unat (i * LIMIT_VALUE_BUFFER_ENTRY * PAGE_SIZE));
                 ((err, _, _), s) = nvme_passthru os (opcode_of NVME_CMD_V_FLUSH) 0 0 NSID 0 0
                   0 0 cdw12 cdw13 cdw14 0 data_len (Some data) s
             in if err < 0 then Inr (-1, s)
                else value_flush_loop os fuel v_cnt total_data_len (i + 1) s)
      else Inr (0, s))"

definition ValueFlush :: "'w os \<Rightarrow> 'w ilsm \<Rightarrow> (int \<times> 'w ilsm) outcome" where
  "ValueFlush os s =
     (let bip = buffering_info s;
          KV_addr = unat ((KV_pair_offset bip - 1) * BYTES_PER_KV_PAIR_OFFSET)
      in bindO (deref (KV_pair_addr bip)) (\<lambda>kv.
         bindO (rload32 kv (KV_addr + 4)) (\<lambda>page.
         bindO (rload32 kv (KV_addr + 8)) (\<lambda>size.
           let total_data_len = page * PAGE_SIZE + size;
               v_cnt = value_log_offset bip
           in value_flush_loop os (Suc (unat v_cnt)) v_cnt total_data_len 0 s))))"

definition KeyValueFlush :: "'w os \<Rightarrow> 'w ilsm \<Rightarrow> int \<times> 'w ilsm" where
  "KeyValueFlush os s =
     (let bip = buffering_info s;
          data_len = KV_pair_offset bip * BYTES_PER_KV_PAIR_OFFSET;
          nlb = (data_len - 1) div PAGE_SIZE;
          cdw12 = 0xFFFF AND nlb;
          cdw13 = data_len;
          data_len = (nlb + 1) * PAGE_SIZE;
          ((err, _, _), s) = nvme_passthru os (opcode_of NVME_CMD_KV_FLUSH) 0 0 NSID 0 0
            0 0 cdw12 cdw13 0 0 data_len (KV_pair_addr bip) s
      in if err < 0 then (-2, s) else (0, s))"

text \<open>\<open>_Flush\<close> reports an error of either half on the console only, and always returns 0.\<close>

definition Flush :: "'w os \<Rightarrow> 'w ilsm \<Rightarrow> (int \<times> 'w ilsm) outcome" where
  "Flush os s =
     bindO (ValueFlush os s) (\<lambda>(_, s).
       let (_, s) = KeyValueFlush os s
       in Inr (0, s\<lparr>buffering_info :=
            \<lparr>is_init_required = True, value_log_addr = None, value_log_offset = 0,
             KV_pair_addr = None, KV_pair_offset = 0, buffering_cnt = 0\<rparr>\<rparr>))"

definition iLSM_Put_inner :: "'w os \<Rightarrow> bytes \<Rightarrow> bytes \<Rightarrow> 'w ilsm \<Rightarrow> (int \<times> 'w ilsm) outcome" where
  "iLSM_Put_inner os key value s =
     bindO (Buffering os key value s) (\<lambda>(r, s).
       if KV_pair_offset (buffering_info s) = LIMIT_VALUE_BUFFER_ENTRY
       then bindO (Flush os s) (\<lambda>(_, s). Inr (r, s))
       else Inr (r, s))"

definition iLSM_Put :: "'w os \<Rightarrow> bytes \<Rightarrow> bytes \<Rightarrow> 'w ilsm \<Rightarrow> (int \<times> 'w ilsm) outcome" where
  "iLSM_Put os key value s =
     (let (st, s) = read_clock os s
      in bindO (iLSM_Put_inner os key value s) (\<lambda>(r, s).
           let (ed, s) = read_clock os s
           in Inr (r, finishOp Op_Put (ed - st) s)))"

section \<open>What the buffers hold\<close>

text \<open>Number of pages a value occupies in the log.\<close>

definition npages :: "bytes \<Rightarrow> nat" where
  "npages v = (length v + 4095) div 4096"

text \<open>
  Record \<open>j\<close> describes the pair \<open>kv\<close>: it carries the four key bytes, the first page and the size of
  the value, and the log holds that value (as \<open>strncpy\<close> copied it) from that page on, below page
  \<open>lim\<close>, and exactly up to it for the newest pair.
\<close>

definition pair_at :: "region \<Rightarrow> region \<Rightarrow> nat \<Rightarrow> bool \<Rightarrow> nat \<Rightarrow> bytes \<times> bytes \<Rightarrow> bool" where
  "pair_at vlog recs lim newest j kv \<longleftrightarrow>
     (\<exists>page. rload recs (12 * j) 12 = Inr (fst kv @ le_bytes32 page @ le_bytes32 (of_nat (length (snd kv)))) \<and>
        unat page + npages (snd kv) \<le> lim \<and> (newest \<longrightarrow> unat page + npages (snd kv) = lim) \<and>
        rload vlog (unat page * 4096) (length (snd kv)) = Inr (strncpy_bytes (snd kv)))"

text \<open>The buffers hold the pairs \<open>kvs\<close>, oldest first.\<close>

definition buf_holds :: "BUFFERING_INFO \<Rightarrow> (bytes \<times> bytes) list \<Rightarrow> bool" where
  "buf_holds b kvs \<longleftrightarrow>
     \<not> is_init_required b \<and>
     KV_pair_offset b = of_nat (length kvs) \<and> buffering_cnt b = of_nat (length kvs) \<and>
     length kvs \<le> 128 \<and> unat (value_log_offset b) \<le> 341 \<and>
     (kvs = [] \<longrightarrow> value_log_offset b = 0) \<and> (\<forall>kv\<in>set kvs. length (fst kv) = 4) \<and>
     (\<exists>vlog recs. value_log_addr b = Some vlog \<and> KV_pair_addr b = Some recs \<and>
        rsize vlog = 341 * 4096 \<and> rsize recs = 4096 \<and>
        (\<forall>j<length kvs. pair_at vlog recs (unat (value_log_offset b)) (Suc j = length kvs) j (kvs ! j)))"

lemma value_nlb_Suc:
  assumes "length v < 4294967296"
  shows "value_nlb v + 1 = of_nat (npages v)"
proof (cases "length v")
  case 0
  then show ?thesis
    by (simp add: value_nlb_def npages_def PAGE_SIZE_def)
next
  case (Suc n)
  have "(of_nat (length v) - 1 :: u64) div 4096 = of_nat (n div 4096)"
    using assms Suc by (simp add: word_arith_nat_div unat_of_nat64)
  moreover have "n div 4096 < 18446744073709551616"
    using assms Suc by simp
  ultimately have "value_nlb v = of_nat (n div 4096)"
    by (simp add: value_nlb_def PAGE_SIZE_def unsigned_of_nat take_bit_nat_eq_self)
  then show ?thesis
    using Suc by (simp add: npages_def div_add_self1)
qed

lemma npages_bound: "length v \<le> npages v * 4096"
  by (simp add: npages_def)

lemma npages_fits: "off * 4096 + length v \<le> 341 * 4096 \<Longrightarrow> off + npages v \<le> 341"
  by (simp add: npages_def)

section \<open>Buffering one pair\<close>

text \<open>The four key bytes that reach the record.\<close>

definition key4 :: "bytes \<Rightarrow> bytes" where
  "key4 key = take 4 (key @ [0])"

lemma c_str4_key4: "3 \<le> length key \<Longrightarrow> c_str4 key = Inr (key4 key)"
  by (simp add: c_str4_def key4_def)

lemma length_key4: "3 \<le> length key \<Longrightarrow> length (key4 key) = 4"
  by (simp add: key4_def)

text \<open>Once initialised, buffering is two stores: the value's bytes and one 12-byte record.\<close>

definition kv_record :: "bytes \<Rightarrow> u32 \<Rightarrow> bytes \<Rightarrow> bytes" where
  "kv_record key page v = key4 key @ le_bytes32 page @ le_bytes32 (of_nat (length v))"

lemma length_kv_record: "3 \<le> length key \<Longrightarrow> length (kv_record key page v) = 12"
  by (simp add: kv_record_def length_key4)

lemma Buffering_stores:
  assumes "\<not> is_init_required (buffering_info s)" and "3 \<le> length key"
  shows "Buffering os key v s =
    bindO (deref (value_log_addr (buffering_info s))) (\<lambda>vlog.
    bindO (rstore vlog (unat (value_log_offset (buffering_info s) * 4096)) (strncpy_bytes v)) (\<lambda>vlog.
    bindO (deref (KV_pair_addr (buffering_info s))) (\<lambda>kv.
    bindO (rstore kv (unat (KV_pair_offset (buffering_info s) * 12))
             (kv_record key (value_log_offset (buffering_info s)) v)) (\<lambda>kv.
      Inr (0, s\<lparr>buffering_info := (buffering_info s)
        \<lparr>value_log_addr := Some vlog, KV_pair_addr := Some kv,
         KV_pair_offset := KV_pair_offset (buffering_info s) + 1,
         value_log_offset := value_log_offset (buffering_info s) + (value_nlb v + 1),
         buffering_cnt := buffering_cnt (buffering_info s) + 1\<rparr>\<rparr>)))))"
  using assms
  by (simp add: Buffering_def Let_def PAGE_SIZE_def BYTES_PER_KV_PAIR_OFFSET_def c_str4_key4
      kv_record_def rstore_append bindO_assoc length_key4 add.commute [of 8])

lemma buf_holds_offsets:
  assumes "buf_holds b kvs"
  shows "unat (value_log_offset b * 4096) = unat (value_log_offset b) * 4096"
    and "unat (KV_pair_offset b * 12) = 12 * length kvs"
proof -
  have "unat (value_log_offset b) \<le> 341" "length kvs \<le> 128" "KV_pair_offset b = of_nat (length kvs)"
    using assms by (auto simp: buf_holds_def)
  then show "unat (value_log_offset b * 4096) = unat (value_log_offset b) * 4096"
    and "unat (KV_pair_offset b * 12) = 12 * length kvs"
    by (simp_all add: unat_word_ariths unat_of_nat32)
qed

text \<open>Appending leaves the records and the values buffered before in place.\<close>

lemma pair_at_append:
  assumes "pair_at vlog recs lim newest j kv"
    and "rstore vlog (lim * 4096) v = Inr vlog'" and "rstore recs (12 * n) r = Inr recs'"
    and "j < n" and "lim \<le> lim'"
  shows "pair_at vlog' recs' lim' False j kv"
proof -
  from assms(1) obtain page where page:
    "rload recs (12 * j) 12 = Inr (fst kv @ le_bytes32 page @ le_bytes32 (of_nat (length (snd kv))))"
    "unat page + npages (snd kv) \<le> lim"
    "rload vlog (unat page * 4096) (length (snd kv)) = Inr (strncpy_bytes (snd kv))"
    by (auto simp: pair_at_def)
  have "rload recs' (12 * j) 12 = rload recs (12 * j) 12"
    using assms(4) by (intro rload_rstore_disjoint [OF assms(3)]) simp
  moreover have "rload vlog' (unat page * 4096) (length (snd kv)) =
      rload vlog (unat page * 4096) (length (snd kv))"
    using page(2) npages_bound [of "snd kv"] by (intro rload_rstore_disjoint [OF assms(2)]) linarith
  ultimately show ?thesis
    using page assms(5) by (auto simp: pair_at_def)
qed

text \<open>A pair whose value still fits in the log is appended; the pairs buffered before stay.\<close>

lemma Buffering_appends:
  assumes holds: "buf_holds (buffering_info s) kvs" and room: "length kvs < 128"
    and key: "3 \<le> length key"
    and fits: "unat (value_log_offset (buffering_info s)) * 4096 + length v \<le> 341 * 4096"
  shows "\<exists>b'. Buffering os key v s = Inr (0, s\<lparr>buffering_info := b'\<rparr>) \<and>
    buf_holds b' (kvs @ [(key4 key, v)]) \<and>
    unat (value_log_offset b') = unat (value_log_offset (buffering_info s)) + npages v"
proof -
  let ?b = "buffering_info s"
  let ?off = "unat (value_log_offset ?b)"
  obtain vlog recs where vlog: "value_log_addr ?b = Some vlog" "rsize vlog = 341 * 4096"
    and recs: "KV_pair_addr ?b = Some recs" "rsize recs = 4096"
    and pairs: "\<forall>j<length kvs. pair_at vlog recs ?off (Suc j = length kvs) j (kvs ! j)"
    using holds by (auto simp: buf_holds_def)
  obtain vlog' where vlog': "rstore vlog (?off * 4096) (strncpy_bytes v) = Inr vlog'"
    using fits vlog(2) by (simp add: rstore_def)
  obtain recs' where recs': "rstore recs (12 * length kvs) (kv_record key (value_log_offset ?b) v) = Inr recs'"
    using room recs(2) key by (simp add: rstore_def length_kv_record)
  let ?b' = "?b\<lparr>value_log_addr := Some vlog', KV_pair_addr := Some recs',
         KV_pair_offset := KV_pair_offset ?b + 1,
         value_log_offset := value_log_offset ?b + (value_nlb v + 1),
         buffering_cnt := buffering_cnt ?b + 1\<rparr>"
  have pages: "?off + npages v \<le> 341"
    using fits by (rule npages_fits)
  have off': "unat (value_log_offset ?b') = ?off + npages v"
    using pages fits by (simp add: value_nlb_Suc unat_word_ariths unat_of_nat32)
  have old: "pair_at vlog' recs' (?off + npages v) False j (kvs ! j)" if "j < length kvs" for j
    using pairs that by (intro pair_at_append [OF _ vlog' recs']) auto
  have new: "pair_at vlog' recs' (?off + npages v) True (length kvs) (key4 key, v)"
    using rload_rstore_same [OF recs'] rload_rstore_same [OF vlog'] key
    by (auto simp: pair_at_def length_kv_record kv_record_def [symmetric] intro!: exI [of _ "value_log_offset ?b"])
  have "\<forall>j<length (kvs @ [(key4 key, v)]).
      pair_at vlog' recs' (unat (value_log_offset ?b')) (Suc j = length (kvs @ [(key4 key, v)])) j
        ((kvs @ [(key4 key, v)]) ! j)"
    unfolding off' using old new by (auto simp: nth_append less_Suc_eq)
  then have "buf_holds ?b' (kvs @ [(key4 key, v)])"
    using holds room key vlog recs rstore_rsize [OF vlog'] rstore_rsize [OF recs'] pages off'
    unfolding buf_holds_def by (auto simp: length_key4)
  moreover have "\<not> is_init_required ?b"
    using holds by (simp add: buf_holds_def)
  then have "Buffering os key v s = Inr (0, s\<lparr>buffering_info := ?b'\<rparr>)"
    using key vlog recs vlog' recs' by (simp add: Buffering_stores buf_holds_offsets [OF holds])
  ultimately show ?thesis
    using off' by blast
qed

section \<open>Flushing the value log\<close>

text \<open>
  The commands the loop of \<open>_ValueFlush\<close> is meant to issue for \<open>v\<close> used pages holding \<open>T\<close> bytes:
  full chunks of 128 pages and a last one with the rest, as triples of first page, byte count and
  the flag of the first chunk.
\<close>

definition nchunks :: "nat \<Rightarrow> nat" where
  "nchunks v = (v + 127) div 128"

definition chunk :: "nat \<Rightarrow> nat \<Rightarrow> nat \<Rightarrow> nat \<times> nat \<times> bool" where
  "chunk v T i = (128 * i, if Suc i = nchunks v then T - i * 524288 else 524288, i = 0)"

definition flush_chunk ::
  "'w os \<Rightarrow> region \<Rightarrow> nat \<times> nat \<times> bool \<Rightarrow> 'w ilsm \<Rightarrow> (int \<times> u32 option \<times> region option) \<times> 'w ilsm" where
  "flush_chunk os vlog c s =
     (let (page, len, first) = c;
          nlb = (of_nat len - 1) div PAGE_SIZE
      in nvme_passthru os (opcode_of NVME_CMD_V_FLUSH) 0 0 NSID 0 0 0 0 (0xFFFF AND nlb)
           (of_nat len) (if first then 1 else 0) 0 ((nlb + 1) * PAGE_SIZE)
           (Some (rview vlog (page * 4096))) s)"

fun run_chunks :: "'w os \<Rightarrow> region \<Rightarrow> (nat \<times> nat \<times> bool) list \<Rightarrow> 'w ilsm \<Rightarrow> int \<times> 'w ilsm" where
  "run_chunks os vlog [] s = (0, s)"
| "run_chunks os vlog (c # cs) s =
     (let ((err, _, _), s) = flush_chunk os vlog c s
      in if err < 0 then (-1, s) else run_chunks os vlog cs s)"

lemma nchunks_bounds: "i < nchunks v \<longleftrightarrow> 128 * i < v"
  by (auto simp: nchunks_def)

lemma nchunks_last: "i < nchunks v \<Longrightarrow> Suc i = nchunks v \<longleftrightarrow> v \<le> 128 * Suc i"
  using nchunks_bounds [of "Suc i" v] nchunks_bounds [of i v] by auto

lemma flush_chunk_log:
  "flush_chunk os vlog c s = (r, s') \<Longrightarrow> buffering_info s' = buffering_info s"
  by (cases c) (auto simp: flush_chunk_def Let_def same_buffers_def dest: same_buffers_passthru)

lemma value_flush_loop_step:
  assumes "v \<le> 341" and "T \<le> v * 4096" and "v * 4096 < T + 4096" and "i < nchunks v"
    and "value_log_addr (buffering_info s) = Some vlog"
  shows "value_flush_loop os (Suc fuel) (of_nat v) (of_nat T) (of_nat i) s =
    (let ((err, _, _), s) = flush_chunk os vlog (chunk v T i) s
     in if err < 0 then Inr (-1, s)
        else value_flush_loop os fuel (of_nat v) (of_nat T) (of_nat i + 1) s)"
proof -
  have i: "128 * i < v" "i \<le> 341"
    using assms(1,4) by (simp_all add: nchunks_bounds)
  have less: "(of_nat i * 128 :: u32) < of_nat v"
    using i assms(1) by (simp add: word_less_nat_alt unat_word_ariths unat_of_nat32)
  have last: "(of_nat v :: u32) \<le> (of_nat i + 1) * 128 \<longleftrightarrow> Suc i = nchunks v"
    using i assms(1,4)
    by (simp add: word_le_nat_alt unat_word_ariths unat_of_nat32 nchunks_last) (simp add: ac_simps)
  have first: "(of_nat i :: u32) = 0 \<longleftrightarrow> i = 0"
    using i by (simp add: word_unat_eq_iff unat_of_nat32)
  have start: "unat (of_nat i * 128 * 4096 :: u32) = 128 * i * 4096"
    using i by (simp add: unat_word_ariths unat_of_nat32)
  have "i * 524288 \<le> T"
    using i assms(3) by linarith
  then have len: "(of_nat T - of_nat i * 128 * 4096 :: u32) = of_nat (T - i * 524288)"
    by (simp add: of_nat_diff)
  show ?thesis
    using assms(5) less last first start len
    by (simp add: Let_def flush_chunk_def chunk_def LIMIT_VALUE_BUFFER_ENTRY_def PAGE_SIZE_def
        add.commute [of 1])
qed

lemma value_flush_loop_chunks:
  assumes "v \<le> 341" and "T \<le> v * 4096" and "v * 4096 < T + 4096"
    and "i \<le> nchunks v" and "nchunks v < fuel + i"
    and "value_log_addr (buffering_info s) = Some vlog"
  shows "value_flush_loop os fuel (of_nat v) (of_nat T) (of_nat i) s =
    Inr (run_chunks os vlog (map (chunk v T) [i..<nchunks v]) s)"
  using assms(4-6)
proof (induction fuel arbitrary: i s)
  case 0
  then show ?case by simp
next
  case (Suc fuel)
  show ?case
  proof (cases "i < nchunks v")
    case True
    obtain r s' where c: "flush_chunk os vlog (chunk v T i) s = (r, s')"
      by fastforce
    have "value_flush_loop os fuel (of_nat v) (of_nat T) (of_nat (Suc i)) s' =
        Inr (run_chunks os vlog (map (chunk v T) [Suc i..<nchunks v]) s')"
      using Suc.prems True flush_chunk_log [OF c] by (intro Suc.IH) auto
    then have IH: "value_flush_loop os fuel (of_nat v) (of_nat T) (of_nat i + 1) s' =
        Inr (run_chunks os vlog (map (chunk v T) [Suc i..<nchunks v]) s')"
      by (simp add: add.commute)
    have "[i..<nchunks v] = i # [Suc i..<nchunks v]"
      using True by (rule upt_conv_Cons)
    then show ?thesis
      using IH c value_flush_loop_step [OF assms(1-3) True Suc.prems(3), of os fuel]
      by (simp add: Let_def split: prod.splits)
  next
    case False
    with Suc.prems(1) have i: "i = nchunks v" "\<not> 128 * i < v" "i \<le> 341"
      using assms(1) nchunks_bounds [of i v] by (auto simp: nchunks_def)
    then have "\<not> (of_nat i * 128 :: u32) < of_nat v"
      using assms(1) by (simp add: word_less_nat_alt unat_word_ariths unat_of_nat32)
    with i show ?thesis
      by (simp add: LIMIT_VALUE_BUFFER_ENTRY_def)
  qed
qed

text \<open>Bytes of the log up to the end of the newest value, for \<open>v\<close> used pages.\<close>

definition log_bytes :: "nat \<Rightarrow> bytes \<Rightarrow> nat" where
  "log_bytes v newest = (v - npages newest) * 4096 + length newest"

lemma log_bytes_bounds:
  assumes "npages x \<le> v"
  shows "log_bytes v x \<le> v * 4096" and "v * 4096 < log_bytes v x + 4096"
proof -
  have "length x \<le> npages x * 4096" "npages x * 4096 < length x + 4096"
    by (simp_all add: npages_def)
  moreover have "v * 4096 = (v - npages x) * 4096 + npages x * 4096"
    using assms by (simp flip: add_mult_distrib)
  ultimately show "log_bytes v x \<le> v * 4096" and "v * 4096 < log_bytes v x + 4096"
    by (simp_all add: log_bytes_def)
qed

lemma buf_holds_newest:
  assumes "buf_holds b kvs" and "kvs \<noteq> []"
  shows "\<exists>vlog recs page. value_log_addr b = Some vlog \<and> KV_pair_addr b = Some recs \<and>
    rload32 recs (12 * (length kvs - 1) + 4) = Inr page \<and>
    rload32 recs (12 * (length kvs - 1) + 8) = Inr (of_nat (length (snd (last kvs)))) \<and>
    unat page + npages (snd (last kvs)) = unat (value_log_offset b)"
proof -
  let ?j = "length kvs - 1"
  obtain vlog recs where r: "value_log_addr b = Some vlog" "KV_pair_addr b = Some recs"
    and pairs: "\<forall>j<length kvs. pair_at vlog recs (unat (value_log_offset b)) (Suc j = length kvs) j (kvs ! j)"
    using assms by (auto simp: buf_holds_def)
  have p: "pair_at vlog recs (unat (value_log_offset b)) (Suc ?j = length kvs) ?j (kvs ! ?j)"
    using pairs [rule_format, of ?j] assms(2) by simp
  have len: "length (fst (kvs ! ?j)) = 4"
    using assms by (auto simp: buf_holds_def)
  have "Suc ?j = length kvs" "kvs ! ?j = last kvs"
    using assms(2) by (simp_all add: last_conv_nth)
  with p obtain page where page:
    "rload recs (12 * ?j) 12 = Inr (fst (kvs ! ?j) @ le_bytes32 page @ le_bytes32 (of_nat (length (snd (last kvs)))))"
    "unat page + npages (snd (last kvs)) = unat (value_log_offset b)"
    by (auto simp: pair_at_def)
  have "rload32 recs (12 * ?j + 4) = Inr page"
    using rload_sub [OF page(1), of 4 4] len by (simp add: rload32_def)
  moreover have "rload32 recs (12 * ?j + 8) = Inr (of_nat (length (snd (last kvs))))"
    using rload_sub [OF page(1), of 8 4] len by (simp add: rload32_def)
  ultimately show ?thesis
    using r page(2) by blast
qed

lemma ValueFlush_chunks:
  assumes "buf_holds (buffering_info s) kvs" and "kvs \<noteq> []"
    and "value_log_addr (buffering_info s) = Some vlog"
  defines "v \<equiv> unat (value_log_offset (buffering_info s))"
  shows "ValueFlush os s =
    Inr (run_chunks os vlog (map (chunk v (log_bytes v (snd (last kvs)))) [0..<nchunks v]) s)"
proof -
  let ?b = "buffering_info s"
  obtain recs page where recs: "KV_pair_addr ?b = Some recs"
    and loads: "rload32 recs (12 * (length kvs - 1) + 4) = Inr page"
      "rload32 recs (12 * (length kvs - 1) + 8) = Inr (of_nat (length (snd (last kvs))))"
    and page: "unat page + npages (snd (last kvs)) = v"
    using buf_holds_newest [OF assms(1,2)] unfolding v_def by blast
  have b: "KV_pair_offset ?b = of_nat (length kvs)" "length kvs \<le> 128" "v \<le> 341"
    using assms(1) by (auto simp: buf_holds_def v_def)
  have "KV_pair_offset ?b - 1 = of_nat (length kvs - 1)"
    using assms(2) b(1) by (simp add: of_nat_diff Suc_leI)
  then have addr: "unat ((KV_pair_offset ?b - 1) * 12) = 12 * (length kvs - 1)"
    using b(2) by (simp add: unat_word_ariths unat_of_nat32)
  have u: "v - npages (snd (last kvs)) = unat page"
    using page by simp
  have "page = of_nat (v - npages (snd (last kvs)))"
    unfolding u by simp
  then have total: "page * 4096 + of_nat (length (snd (last kvs))) = of_nat (log_bytes v (snd (last kvs)))"
    by (simp add: log_bytes_def)
  have cnt: "value_log_offset ?b = of_nat v"
    by (simp add: v_def)
  have "nchunks v < Suc v"
    by (simp add: nchunks_def)
  then have "value_flush_loop os (Suc v) (of_nat v) (of_nat (log_bytes v (snd (last kvs)))) (of_nat 0) s =
      Inr (run_chunks os vlog (map (chunk v (log_bytes v (snd (last kvs)))) [0..<nchunks v]) s)"
    using b(3) page assms(3) by (intro value_flush_loop_chunks log_bytes_bounds) auto
  then show ?thesis
    using recs loads addr total cnt b(3)
    by (simp add: ValueFlush_def Let_def BYTES_PER_KV_PAIR_OFFSET_def PAGE_SIZE_def unat_of_nat32
        del: value_flush_loop.simps)
qed

section \<open>States between operations\<close>

text \<open>
  Either the buffers await initialisation and nothing is buffered, or they hold fewer than 128 pairs.
\<close>

definition buf_abs :: "BUFFERING_INFO \<Rightarrow> (bytes \<times> bytes) list \<Rightarrow> bool" where
  "buf_abs b kvs \<longleftrightarrow>
     (if is_init_required b
      then kvs = [] \<and> KV_pair_offset b = 0 \<and> buffering_cnt b = 0
      else buf_holds b kvs \<and> length kvs < 128)"

definition used_pages :: "BUFFERING_INFO \<Rightarrow> nat" where
  "used_pages b = (if is_init_required b then 0 else unat (value_log_offset b))"

definition mem_ok :: "'w os \<Rightarrow> bool" where
  "mem_ok os \<longleftrightarrow> (\<forall>n w. fst (os_memalign os n w))"

lemma memalign_ok: "mem_ok os \<Longrightarrow> memalign os n s = (ok, s') \<Longrightarrow> ok"
  by (auto simp: mem_ok_def memalign_def split: prod.splits) (metis fst_conv)

lemma init_buffers_ok:
  assumes "mem_ok os"
  shows "\<exists>s'. init_buffers os s = (True, s') \<and> buf_holds (buffering_info s') [] \<and>
    value_log_offset (buffering_info s') = 0 \<and> same_scan s s'"
proof -
  obtain ok1 s1 where m1: "memalign os MAX_VALUE_BUFFER_SIZE s = (ok1, s1)" by fastforce
  let ?s2 = "upd_buffering (\<lambda>b. b\<lparr>value_log_addr := Some (ralloc (unat MAX_VALUE_BUFFER_SIZE))\<rparr>) s1"
  obtain ok2 s2 where m2: "memalign os MAX_KEY_VALUE_BUFFER_SIZE ?s2 = (ok2, s2)" by fastforce
  have ok: "ok1" "ok2"
    using memalign_ok [OF assms] m1 m2 by blast+
  have same: "same_buffers s s1" "same_buffers ?s2 s2"
    using same_buffers_memalign m1 m2 by blast+
  show ?thesis
    using ok m1 m2 same
    by (auto simp: init_buffers_def upd_buffering_def buf_holds_def same_buffers_def same_scan_def
        ilsm_const_defs)
qed

lemma Buffering_after_init:
  assumes "is_init_required (buffering_info s)" and "init_buffers os s = (True, s0)"
    and "\<not> is_init_required (buffering_info s0)"
  shows "Buffering os key v s = Buffering os key v s0"
  using assms by (simp add: Buffering_def)

text \<open>Buffering from a state between operations, in or before initialisation.\<close>

lemma buf_abs_start:
  assumes "buf_abs (buffering_info s) kvs" and "mem_ok os"
  shows "\<exists>s0. buf_holds (buffering_info s0) kvs \<and> length kvs < 128 \<and> same_scan s s0 \<and>
    unat (value_log_offset (buffering_info s0)) = used_pages (buffering_info s) \<and>
    (\<forall>key v. Buffering os key v s = Buffering os key v s0)"
proof (cases "is_init_required (buffering_info s)")
  case True
  with init_buffers_ok [OF assms(2), of s] assms(1) show ?thesis
    by (auto simp: buf_abs_def used_pages_def buf_holds_def intro: Buffering_after_init)
next
  case False
  with assms(1) show ?thesis
    by (auto simp: buf_abs_def used_pages_def intro!: exI [of _ s])
qed

lemma Buffering_ok:
  assumes "buf_abs (buffering_info s) kvs" and "mem_ok os" and "3 \<le> length key"
    and "used_pages (buffering_info s) * 4096 + length v \<le> 341 * 4096"
  shows "\<exists>s'. Buffering os key v s = Inr (0, s') \<and> same_scan s s' \<and>
    buf_holds (buffering_info s') (kvs @ [(key4 key, v)]) \<and>
    used_pages (buffering_info s') = used_pages (buffering_info s) + npages v"
proof -
  obtain s0 where s0: "buf_holds (buffering_info s0) kvs" "length kvs < 128" "same_scan s s0"
    "unat (value_log_offset (buffering_info s0)) = used_pages (buffering_info s)"
    "\<forall>key v. Buffering os key v s = Buffering os key v s0"
    using buf_abs_start [OF assms(1,2)] by blast
  obtain b' where "Buffering os key v s0 = Inr (0, s0\<lparr>buffering_info := b'\<rparr>)"
    "buf_holds b' (kvs @ [(key4 key, v)])"
    "unat (value_log_offset b') = used_pages (buffering_info s) + npages v"
    using Buffering_appends [OF s0(1,2) assms(3), of v os] assms(4) s0(4) by auto
  then show ?thesis
    using s0 by (auto simp: used_pages_def buf_holds_def)
qed

text \<open>A value that does not fit is written past the end of the log.\<close>

lemma Buffering_overflow:
  assumes "buf_abs (buffering_info s) kvs" and "mem_ok os" and "3 \<le> length key"
    and "341 * 4096 < used_pages (buffering_info s) * 4096 + length v"
  shows "Buffering os key v s = Inl Out_Of_Bounds"
proof -
  obtain s0 where s0: "buf_holds (buffering_info s0) kvs"
    "unat (value_log_offset (buffering_info s0)) = used_pages (buffering_info s)"
    "\<forall>key v. Buffering os key v s = Buffering os key v s0"
    using buf_abs_start [OF assms(1,2)] by blast
  then obtain vlog where "value_log_addr (buffering_info s0) = Some vlog" "rsize vlog = 341 * 4096"
    "\<not> is_init_required (buffering_info s0)"
    by (auto simp: buf_holds_def)
  then have "Buffering os key v s0 = Inl Out_Of_Bounds"
    using assms(3,4) s0(2) by (simp add: Buffering_stores buf_holds_offsets [OF s0(1)] rstore_def)
  then show ?thesis
    using s0(3) by simp
qed

section \<open>Flushing and putting\<close>

lemma run_chunks_same: "run_chunks os vlog cs s = (r, s') \<Longrightarrow> same_buffers s s'"
proof (induction cs arbitrary: s)
  case Nil
  then show ?case by simp
next
  case (Cons c cs)
  obtain x t where c: "flush_chunk os vlog c s = (x, t)"
    by fastforce
  then have "same_buffers s t"
    by (cases c) (auto simp: flush_chunk_def Let_def dest: same_buffers_passthru)
  with c Cons show ?case
    by (auto simp: Let_def split: prod.splits if_splits intro: same_buffers_trans)
qed

lemma KeyValueFlush_same: "KeyValueFlush os s = (r, s') \<Longrightarrow> same_buffers s s'"
  by (auto simp: KeyValueFlush_def Let_def split: prod.splits if_splits dest: same_buffers_passthru)

definition buf_empty :: BUFFERING_INFO where
  "buf_empty = \<lparr>is_init_required = True, value_log_addr = None, value_log_offset = 0,
     KV_pair_addr = None, KV_pair_offset = 0, buffering_cnt = 0\<rparr>"

lemma buf_abs_empty [simp]: "buf_abs buf_empty []"
  by (simp add: buf_abs_def buf_empty_def)

lemma Flush_ok:
  assumes "buf_holds (buffering_info s) kvs" and "kvs \<noteq> []"
  shows "\<exists>s'. Flush os s = Inr (0, s') \<and> buffering_info s' = buf_empty \<and> same_scan s s'"
proof -
  obtain vlog where vlog: "value_log_addr (buffering_info s) = Some vlog"
    using assms(1) by (auto simp: buf_holds_def)
  obtain r1 s1 where v: "ValueFlush os s = Inr (r1, s1)" and s1: "same_buffers s s1"
    using ValueFlush_chunks [OF assms vlog] run_chunks_same by (metis surj_pair)
  obtain r2 s2 where k: "KeyValueFlush os s1 = (r2, s2)"
    by fastforce
  have "same_scan s s2"
    using s1 KeyValueFlush_same [OF k] by (auto simp: same_buffers_def intro: same_scan_trans)
  then show ?thesis
    using v k by (simp add: Flush_def buf_empty_def)
qed

lemma iLSM_Put_ok:
  assumes "buf_abs (buffering_info s) kvs" and "mem_ok os" and "3 \<le> length key"
    and "used_pages (buffering_info s) * 4096 + length v \<le> 341 * 4096"
  defines "kvs' \<equiv> (if length kvs = 127 then [] else kvs @ [(key4 key, v)])"
  shows "\<exists>s'. iLSM_Put os key v s = Inr (0, s') \<and> same_scan s s' \<and> buf_abs (buffering_info s') kvs' \<and>
    used_pages (buffering_info s') =
      (if length kvs = 127 then 0 else used_pages (buffering_info s) + npages v)"
proof -
  obtain t1 s1 where c1: "read_clock os s = (t1, s1)"
    by fastforce
  have s1: "buffering_info s1 = buffering_info s" "same_scan s s1"
    using same_buffers_clock [OF c1] by (auto simp: same_buffers_def)
  obtain s2 where s2: "Buffering os key v s1 = Inr (0, s2)" "same_scan s1 s2"
    "buf_holds (buffering_info s2) (kvs @ [(key4 key, v)])"
    "used_pages (buffering_info s2) = used_pages (buffering_info s1) + npages v"
    using Buffering_ok [of s1 kvs os key v] assms(1-4) s1(1) by auto
  have len: "length kvs < 128"
    using assms(1) by (auto simp: buf_abs_def split: if_splits)
  have "KV_pair_offset (buffering_info s2) = of_nat (Suc (length kvs))"
    using s2(3) by (simp add: buf_holds_def)
  then have full: "KV_pair_offset (buffering_info s2) = 128 \<longleftrightarrow> length kvs = 127"
    using len by (auto simp: word_unat_eq_iff unat_of_nat32 simp del: of_nat_Suc)
  show ?thesis
  proof (cases "length kvs = 127")
    case True
    then obtain s3 where s3: "Flush os s2 = Inr (0, s3)" "buffering_info s3 = buf_empty" "same_scan s2 s3"
      using Flush_ok [OF s2(3)] by auto
    obtain t2 s4 where c2: "read_clock os s3 = (t2, s4)"
      by fastforce
    have "iLSM_Put os key v s = Inr (0, finishOp Op_Put (t2 - t1) s4)"
      using c1 s2 full True s3 c2
      by (simp add: iLSM_Put_def iLSM_Put_inner_def LIMIT_VALUE_BUFFER_ENTRY_def)
    moreover have "same_scan s3 (finishOp Op_Put (t2 - t1) s4)"
      "buffering_info (finishOp Op_Put (t2 - t1) s4) = buffering_info s3"
      using same_buffers_trans [OF same_buffers_clock [OF c2] same_buffers_finishOp]
      by (auto simp: same_buffers_def)
    ultimately show ?thesis
      using True s1(2) s2(2) s3 by (auto simp: kvs'_def used_pages_def buf_empty_def
          intro: same_scan_trans) (auto simp: buf_abs_def)
  next
    case False
    obtain t2 s4 where c2: "read_clock os s2 = (t2, s4)"
      by fastforce
    have "iLSM_Put os key v s = Inr (0, finishOp Op_Put (t2 - t1) s4)"
      using c1 s2 full False c2
      by (simp add: iLSM_Put_def iLSM_Put_inner_def LIMIT_VALUE_BUFFER_ENTRY_def)
    moreover have "same_scan s2 (finishOp Op_Put (t2 - t1) s4)"
      "buffering_info (finishOp Op_Put (t2 - t1) s4) = buffering_info s2"
      using same_buffers_trans [OF same_buffers_clock [OF c2] same_buffers_finishOp]
      by (auto simp: same_buffers_def)
    ultimately show ?thesis
      using False len s1 s2 by (auto simp: kvs'_def buf_abs_def buf_holds_def [of _ "kvs @ _"]
          intro: same_scan_trans)
  qed
qed

section \<open>Sequences of puts\<close>

fun iLSM_Puts :: "'w os \<Rightarrow> (bytes \<times> bytes) list \<Rightarrow> 'w ilsm \<Rightarrow> 'w ilsm outcome" where
  "iLSM_Puts os [] s = Inr s"
| "iLSM_Puts os ((k, v) # kvs) s = bindO (iLSM_Put os k v s) (\<lambda>(_, s). iLSM_Puts os kvs s)"

text \<open>The pairs still in the host buffers after a sequence of puts: those after the last full 128.\<close>

definition unflushed :: "'a list \<Rightarrow> 'a list" where
  "unflushed xs = drop (128 * (length xs div 128)) xs"

lemma unflushed_short: "length xs < 128 \<Longrightarrow> unflushed xs = xs"
  by (simp add: unflushed_def)

lemma unflushed_full: "length xs = 128 \<Longrightarrow> unflushed (xs @ ys) = unflushed ys"
  by (simp add: unflushed_def div_add_self1)

lemma npages_two: "length v \<le> 8192 \<Longrightarrow> npages v \<le> 2"
  by (simp add: npages_def)

lemma iLSM_Puts_ok:
  assumes "mem_ok os" and "buf_abs (buffering_info s) old"
    and "used_pages (buffering_info s) \<le> 2 * length old"
    and "\<forall>(k, v)\<in>set kvs. 3 \<le> length k \<and> length v \<le> 8192"
  shows "\<exists>s'. iLSM_Puts os kvs s = Inr s' \<and> same_scan s s' \<and>
    buf_abs (buffering_info s') (unflushed (old @ map (\<lambda>(k, v). (key4 k, v)) kvs))"
  using assms(2-4)
proof (induction kvs arbitrary: s old)
  case Nil
  then have "length old < 128"
    by (auto simp: buf_abs_def split: if_splits)
  with Nil show ?case
    by (simp add: unflushed_short)
next
  case (Cons kv kvs)
  obtain k v where kv: "kv = (k, v)"
    by fastforce
  let ?new = "if length old = 127 then [] else old @ [(key4 k, v)]"
  have len: "length old < 128"
    using Cons.prems(1) by (auto simp: buf_abs_def split: if_splits)
  have k: "3 \<le> length k" "length v \<le> 8192"
    using Cons.prems(3) kv by auto
  obtain s1 where s1: "iLSM_Put os k v s = Inr (0, s1)" "same_scan s s1"
    "buf_abs (buffering_info s1) ?new"
    "used_pages (buffering_info s1) =
      (if length old = 127 then 0 else used_pages (buffering_info s) + npages v)"
    using iLSM_Put_ok [OF Cons.prems(1) assms(1) k(1), of v] Cons.prems(2) k len by auto
  have "used_pages (buffering_info s1) \<le> 2 * length ?new"
    using s1(4) Cons.prems(2) npages_two [OF k(2)] by auto
  from Cons.IH [OF s1(3) this] Cons.prems(3) obtain s2 where
    s2: "iLSM_Puts os kvs s1 = Inr s2" "same_scan s1 s2"
    "buf_abs (buffering_info s2) (unflushed (?new @ map (\<lambda>(k, v). (key4 k, v)) kvs))"
    by auto
  have "unflushed (old @ map (\<lambda>(k, v). (key4 k, v)) (kv # kvs)) =
      unflushed (?new @ map (\<lambda>(k, v). (key4 k, v)) kvs)"
    using unflushed_full [of "old @ [(key4 k, v)]" "map (\<lambda>(k, v). (key4 k, v)) kvs"] kv by simp
  then show ?case
    using kv s1 s2 same_scan_trans [OF s1(2) s2(2)] by simp
qed

text \<open>Reading pair \<open>j\<close> back from the two buffers, as the records say.\<close>

definition read_pair :: "BUFFERING_INFO \<Rightarrow> nat \<Rightarrow> (bytes \<times> bytes) outcome" where
  "read_pair b j =
     bindO (deref (value_log_addr b)) (\<lambda>vlog.
     bindO (deref (KV_pair_addr b)) (\<lambda>recs.
     bindO (rload recs (12 * j) 4) (\<lambda>k.
     bindO (rload32 recs (12 * j + 4)) (\<lambda>page.
     bindO (rload32 recs (12 * j + 8)) (\<lambda>size.
     bindO (rload vlog (unat page * 4096) (unat size)) (\<lambda>v. Inr (k, v)))))))"

lemma read_pair_holds:
  assumes "buf_holds b kvs" and "j < length kvs"
  shows "read_pair b j = Inr (fst (kvs ! j), strncpy_bytes (snd (kvs ! j)))"
proof -
  obtain vlog recs where r: "value_log_addr b = Some vlog" "KV_pair_addr b = Some recs"
    "rsize vlog = 341 * 4096"
    and p: "pair_at vlog recs (unat (value_log_offset b)) (Suc j = length kvs) j (kvs ! j)"
    using assms by (auto simp: buf_holds_def)
  have k: "length (fst (kvs ! j)) = 4"
    using assms by (auto simp: buf_holds_def)
  from p obtain page where page:
    "rload recs (12 * j) 12 =
      Inr (fst (kvs ! j) @ le_bytes32 page @ le_bytes32 (of_nat (length (snd (kvs ! j)))))"
    "rload vlog (unat page * 4096) (length (snd (kvs ! j))) = Inr (strncpy_bytes (snd (kvs ! j)))"
    by (auto simp: pair_at_def)
  have "length (snd (kvs ! j)) < 4294967296"
    using page(2) r(3) by (auto simp: rload_eq_Inr)
  then show ?thesis
    using r page(2) rload_sub [OF page(1), of 0 4] rload_sub [OF page(1), of 4 4]
      rload_sub [OF page(1), of 8 4] k
    by (simp add: read_pair_def rload32_def unat_of_nat32)
qed

text \<open>
  \<open>Put\<close> of a value that fits in the rest of the log, with memory available,
  returns 0 and appends the pair to the buffered ones; when it is the 128th, both buffers are flushed
  and released.  The scan lists are not touched, whatever the device answers.
\<close>

theorem Put_buffers:
  assumes "buf_abs (buffering_info s) kvs" and "mem_ok os" and "3 \<le> length key"
    and "used_pages (buffering_info s) * 4096 + length v \<le> 341 * 4096"
  shows "\<exists>s'. iLSM_Put os key v s = Inr (0, s') \<and> same_scan s s' \<and>
    buf_abs (buffering_info s') (if length kvs = 127 then [] else kvs @ [(key4 key, v)])"
  using iLSM_Put_ok [OF assms] by blast

definition opened :: "unit ilsm" where
  "opened = snd (Open ok_os (bytes_of ''/dev/nvme1n1'') (ilsm_new ()))"

lemma opened_abs:
  "buf_abs (buffering_info opened) []" "used_pages (buffering_info opened) = 0" "mem_ok ok_os"
  by (simp_all add: opened_def Open_def ok_os_def ilsm_new_def buf_abs_def used_pages_def mem_ok_def)

theorem Put_buffers_witness:
  "\<exists>s'. iLSM_Put ok_os (bytes_of ''key1'') (bytes_of ''value'') opened = Inr (0, s') \<and>
     buf_abs (buffering_info s') [(key4 (bytes_of ''key1''), bytes_of ''value'')]"
  using Put_buffers [OF opened_abs(1,3), of "bytes_of ''key1''" "bytes_of ''value''"] opened_abs(2)
  by auto



text \<open>
  Claim C39 (bounds).  Buffering faults exactly when the value does not fit behind the pages in use:
  nothing in the code checks the log's capacity of 341 pages, which 128 values of three pages exceed.
\<close>

theorem Buffering_overflow_iff:
  assumes "buf_abs (buffering_info s) kvs" and "mem_ok os" and "3 \<le> length key"
  shows "Buffering os key v s = Inl Out_Of_Bounds \<longleftrightarrow>
    341 * 4096 < used_pages (buffering_info s) * 4096 + length v"
  using Buffering_ok [OF assms, of v] Buffering_overflow [OF assms, of v] by fastforce

theorem Buffering_overflow_iff_witness:
  "Buffering ok_os (bytes_of ''key1'') (replicate 1396737 1) opened = Inl Out_Of_Bounds"
  using Buffering_overflow_iff [OF opened_abs(1,3), of "bytes_of ''key1''" "replicate 1396737 1"]
    opened_abs(2) by simp

lemma chunk_len_bounds:
  assumes "i < nchunks v" and "T \<le> v * 4096" and "v * 4096 < T + 4096"
  shows "0 < fst (snd (chunk v T i))" and "fst (snd (chunk v T i)) \<le> 524288"
proof -
  have i: "128 * i < v"
    using assms(1) by (simp add: nchunks_bounds)
  have last: "v \<le> 128 * Suc i" if "Suc i = nchunks v"
    using nchunks_last [OF assms(1)] that by simp
  have "i * 524288 < T"
    using i assms(3) by linarith
  then show "0 < fst (snd (chunk v T i))"
    by (simp add: chunk_def)
  show "fst (snd (chunk v T i)) \<le> 524288"
    using last assms(2) by (auto simp: chunk_def)
qed

lemma chunk_len_sum:
  assumes "T \<le> v * 4096" and "v * 4096 < T + 4096"
  shows "(\<Sum>i<nchunks v. fst (snd (chunk v T i))) = T"
proof (cases "nchunks v")
  case 0
  then have "v = 0"
    by (simp add: nchunks_def)
  with 0 assms(1) show ?thesis by simp
next
  case (Suc n)
  have "n * 524288 \<le> T"
    using nchunks_bounds [of n v] Suc assms(2) by simp
  moreover have "(\<Sum>i<n. fst (snd (chunk v T i))) = n * 524288"
    using Suc by (simp add: chunk_def)
  moreover have "fst (snd (chunk v T n)) = T - n * 524288"
    using Suc by (simp add: chunk_def)
  ultimately show ?thesis
    using Suc by simp
qed

text \<open>
  Claim C32 (equivalence).  The flush loop on 32-bit counters issues exactly the commands of the
  reference list of chunks, stopping at the first error.  Chunk \<open>i\<close> starts at page \<open>128 * i\<close>, each
  chunk carries between 1 byte and 512 KB, and together they carry every byte of the log up to the
  end of the newest value.
\<close>

theorem ValueFlush_partition:
  assumes "buf_holds (buffering_info s) kvs" and "kvs \<noteq> []"
    and "value_log_addr (buffering_info s) = Some vlog"
    and "v = unat (value_log_offset (buffering_info s))" and "T = log_bytes v (snd (last kvs))"
  shows "ValueFlush os s = Inr (run_chunks os vlog (map (chunk v T) [0..<nchunks v]) s) \<and>
    (\<Sum>i<nchunks v. fst (snd (chunk v T i))) = T \<and>
    (\<forall>i<nchunks v. fst (chunk v T i) = 128 * i \<and>
       0 < fst (snd (chunk v T i)) \<and> fst (snd (chunk v T i)) \<le> 524288)"
proof -
  have "npages (snd (last kvs)) \<le> v"
    using buf_holds_newest [OF assms(1,2)] assms(4) by auto
  then have T: "T \<le> v * 4096" "v * 4096 < T + 4096"
    using log_bytes_bounds assms(5) by auto
  have "ValueFlush os s = Inr (run_chunks os vlog (map (chunk v T) [0..<nchunks v]) s)"
    using ValueFlush_chunks [OF assms(1-3)] assms(4,5) by simp
  then show ?thesis
    using chunk_len_sum [OF T] chunk_len_bounds [OF _ T] by (simp add: chunk_def)
qed

lemma opened_put:
  "\<exists>s'. Buffering ok_os (bytes_of ''key1'') (bytes_of ''value'') opened = Inr (0, s') \<and>
     buf_holds (buffering_info s') [(key4 (bytes_of ''key1''), bytes_of ''value'')] \<and>
     unat (value_log_offset (buffering_info s')) = 1"
proof -
  have "npages (bytes_of ''value'') = 1"
    by (simp add: npages_def)
  then show ?thesis
    using Buffering_ok [OF opened_abs(1,3), of "bytes_of ''key1''" "bytes_of ''value''"] opened_abs(2)
    by (auto simp: used_pages_def buf_holds_def)
qed

theorem ValueFlush_partition_witness:
  "\<exists>s vlog. Buffering ok_os (bytes_of ''key1'') (bytes_of ''value'') opened = Inr (0, s) \<and>
     ValueFlush ok_os s = Inr (run_chunks ok_os vlog [(0, 5, True)] s)"
proof -
  obtain s where s: "Buffering ok_os (bytes_of ''key1'') (bytes_of ''value'') opened = Inr (0, s)"
    "buf_holds (buffering_info s) [(key4 (bytes_of ''key1''), bytes_of ''value'')]"
    "unat (value_log_offset (buffering_info s)) = 1"
    using opened_put by blast
  then obtain vlog where vlog: "value_log_addr (buffering_info s) = Some vlog"
    by (auto simp: buf_holds_def)
  have "log_bytes 1 (bytes_of ''value'') = 5" "nchunks 1 = 1" "chunk 1 5 0 = (0, 5, True)"
    by (simp_all add: log_bytes_def npages_def nchunks_def chunk_def)
  then show ?thesis
    using ValueFlush_partition [OF s(2) _ vlog refl refl, of ok_os] s(1,3) by auto
qed

text \<open>
  Flushing nonempty buffers always returns 0 and drops every buffered pair, even
  when the device rejects the commands: neither half's error reaches the caller.
\<close>

theorem Flush_drops_pairs:
  assumes "buf_holds (buffering_info s) kvs" and "kvs \<noteq> []"
  shows "\<exists>s'. Flush os s = Inr (0, s') \<and> buffering_info s' = buf_empty \<and> same_scan s s'"
  by (rule Flush_ok [OF assms])

text \<open>A device that rejects every command.\<close>

definition failing_os :: "unit os" where
  "failing_os = ok_os\<lparr>os_ioctl := (\<lambda>_ _ d w. ((-1, 0, d), w))\<rparr>"

theorem Flush_drops_pairs_witness:
  "\<exists>s s'. Buffering ok_os (bytes_of ''key1'') (bytes_of ''value'') opened = Inr (0, s) \<and>
     fst (KeyValueFlush failing_os s) = -2 \<and>
     Flush failing_os s = Inr (0, s') \<and> buffering_info s' = buf_empty"
proof -
  obtain s where s: "Buffering ok_os (bytes_of ''key1'') (bytes_of ''value'') opened = Inr (0, s)"
    "buf_holds (buffering_info s) [(key4 (bytes_of ''key1''), bytes_of ''value'')]"
    using opened_put by blast
  have "fst (KeyValueFlush failing_os s) = -2"
    by (simp add: KeyValueFlush_def nvme_passthru_def failing_os_def ok_os_def read_clock_def Let_def)
  then show ?thesis
    using s Flush_drops_pairs [OF s(2), of failing_os] by auto
qed

text \<open>
  A \<open>Put\<close> on an object whose device was never opened, or failed to open,
  dereferences a null pointer: only \<open>Open\<close> asks for the buffers to be initialised.
\<close>

theorem Put_unopened_null:
  assumes "os_open os dev w = (fd, w1)" and "os_fstat os fd w1 = ((st, is_chr, is_blk), w2)"
    and "fst (Open os dev (ilsm_new w)) \<noteq> 0"
  shows "iLSM_Put os key v (snd (Open os dev (ilsm_new w))) = Inl Null_Deref"
proof -
  let ?s = "snd (Open os dev (ilsm_new w))"
  have "buffering_info ?s = buffering_info (ilsm_new w)"
    using assms by (auto simp: Open_def Let_def ilsm_new_def split: if_splits)
  then have b: "\<not> is_init_required (buffering_info ?s)" "value_log_addr (buffering_info ?s) = None"
    by (simp_all add: ilsm_new_def)
  obtain t s' where c: "read_clock os ?s = (t, s')"
    by fastforce
  have "buffering_info s' = buffering_info ?s"
    using same_buffers_clock [OF c] by (rule same_buffers_info)
  with b c show ?thesis
    by (simp add: iLSM_Put_def iLSM_Put_inner_def Buffering_def Let_def)
qed

definition no_device_os :: "unit os" where
  "no_device_os = ok_os\<lparr>os_open := (\<lambda>_ w. (-1, w))\<rparr>"

theorem Put_unopened_null_witness:
  "iLSM_Put no_device_os (bytes_of ''key1'') (bytes_of ''value'')
     (snd (Open no_device_os (bytes_of ''/dev/nvme1n1'') (ilsm_new ()))) = Inl Null_Deref"
proof -
  have "fst (Open no_device_os (bytes_of ''/dev/nvme1n1'') (ilsm_new ())) \<noteq> 0"
    by (simp add: Open_def no_device_os_def ok_os_def)
  then show ?thesis
    using Put_unopened_null [of no_device_os "bytes_of ''/dev/nvme1n1''" "()" "-1" "()" 0 False True "()"]
    by (simp add: no_device_os_def ok_os_def)
qed

end
