(* ===== verification/ILSM_Read.thy ===== *)
theory ILSM_Read
  imports ILSM_Write
begin

text \<open>
  The point reads and the iterator commands of \<open>iLSM.cc\<close>: \<open>Get\<close>, \<open>Seek\<close>, \<open>Next\<close>, \<open>CreateIter\<close>,
  \<open>DestroyIter\<close> and \<open>Reset\<close>, each with its inner function (\<open>_Get\<close>, ...).  Output parameters are
  passed in and returned, so that the branches which leave them unassigned show it.
\<close>

section \<open>Operations\<close>

text \<open>
  \<open>std::string (ptr, (int) len)\<close>: a length of \<open>2 ^ 31\<close> or more turns negative and then into a size
  no string can have.
\<close>

definition string_at :: "region \<Rightarrow> nat \<Rightarrow> u32 \<Rightarrow> bytes outcome" where
  "string_at r off len = (if sint len < 0 then Inl Length_Error else rload r off (unat len))"

definition NO_SUCH_KEY :: int where "NO_SUCH_KEY = 0x7C1"

text \<open>The code after the passthrough call that \<open>_Seek\<close>, \<open>_Next\<close> and \<open>_Get\<close> have in common.\<close>

definition value_reply :: "bytes \<Rightarrow> int \<times> u32 option \<times> region option \<Rightarrow> (int \<times> bytes) outcome" where
  "value_reply value reply =
     (let (err, result, data) = reply
      in if err < 0 then Inr (-1, value)
         else if err = NO_SUCH_KEY then Inr (-2, value)
         else bindO (initialised result) (\<lambda>result.
                if result > 0
                then bindO (deref data) (\<lambda>data.
                     bindO (string_at data 0 result) (\<lambda>value. Inr (sint result, value)))
                else Inr (sint result, [])))"

definition reply_nlb :: u32 where
  "reply_nlb = (MAX_BUFLEN - 1) div PAGE_SIZE"

definition iLSM_Seek_inner ::
  "'w os \<Rightarrow> u32 \<Rightarrow> bytes \<Rightarrow> bytes \<Rightarrow> 'w ilsm \<Rightarrow> (int \<times> bytes \<times> 'w ilsm) outcome" where
  "iLSM_Seek_inner os iter_id key value s =
     (let (ok, s) = memalign os MAX_BUFLEN s
      in if \<not> ok then Inr (- ENOMEM, value, s)
         else bindO (c_str4 key) (\<lambda>k.
           let cdw10 = le_word32 k;
               cdw12 = 0xFFFF AND reply_nlb;
               cdw13 = iter_id;
               (reply, s) = nvme_passthru os (opcode_of NVME_CMD_KV_ITER_SEEK) 0 0 NSID 0 0
                 cdw10 0 cdw12 cdw13 0 0 MAX_BUFLEN (Some (rzero (unat MAX_BUFLEN))) s
           in bindO (value_reply value reply) (\<lambda>(r, value). Inr (r, value, s))))"

definition iLSM_Seek ::
  "'w os \<Rightarrow> u32 \<Rightarrow> bytes \<Rightarrow> bytes \<Rightarrow> 'w ilsm \<Rightarrow> (int \<times> bytes \<times> 'w ilsm) outcome" where
  "iLSM_Seek os iter_id key value s =
     (let (st, s) = read_clock os s
      in bindO (iLSM_Seek_inner os iter_id key value s) (\<lambda>(r, value, s).
           let (ed, s) = read_clock os s
           in Inr (r, value, finishOp Op_Seek (ed - st) s)))"

definition iLSM_Next_inner ::
  "'w os \<Rightarrow> u32 \<Rightarrow> bytes \<Rightarrow> 'w ilsm \<Rightarrow> (int \<times> bytes \<times> 'w ilsm) outcome" where
  "iLSM_Next_inner os iter_id value s =
     (let (ok, s) = memalign os MAX_BUFLEN s
      in if \<not> ok then Inr (- ENOMEM, value, s)
         else
           let cdw10 = 0;
               cdw12 = 0xFFFF AND reply_nlb;
               cdw13 = iter_id;
               (reply, s) = nvme_passthru os (opcode_of NVME_CMD_KV_ITER_NEXT) 0 0 NSID 0 0
                 cdw10 0 cdw12 cdw13 0 0 MAX_BUFLEN (Some (rzero (unat MAX_BUFLEN))) s
           in bindO (value_reply value reply) (\<lambda>(r, value). Inr (r, value, s)))"

definition iLSM_Next ::
  "'w os \<Rightarrow> u32 \<Rightarrow> bytes \<Rightarrow> 'w ilsm \<Rightarrow> (int \<times> bytes \<times> 'w ilsm) outcome" where
  "iLSM_Next os iter_id value s =
     (let (st, s) = read_clock os s
      in bindO (iLSM_Next_inner os iter_id value s) (\<lambda>(r, value, s).
           let (ed, s) = read_clock os s
           in Inr (r, value, finishOp Op_Next (ed - st) s)))"

definition iLSM_Get_inner ::
  "'w os \<Rightarrow> bytes \<Rightarrow> bytes \<Rightarrow> 'w ilsm \<Rightarrow> (int \<times> bytes \<times> 'w ilsm) outcome" where
  "iLSM_Get_inner os key value s =
     (let (ok, s) = memalign os MAX_BUFLEN s
      in if \<not> ok then Inr (- ENOMEM, value, s)
         else bindO (c_str4 key) (\<lambda>k.
           let cdw10 = le_word32 k;
               cdw12 = 0xFFFF AND reply_nlb;
               (reply, s) = nvme_passthru os (opcode_of NVME_CMD_KV_GET) 0 0 NSID 0 0
                 cdw10 0 cdw12 0 0 0 MAX_BUFLEN (Some (rzero (unat MAX_BUFLEN))) s
           in bindO (value_reply value reply) (\<lambda>(r, value). Inr (r, value, s))))"

definition iLSM_Get ::
  "'w os \<Rightarrow> bytes \<Rightarrow> bytes \<Rightarrow> 'w ilsm \<Rightarrow> (int \<times> bytes \<times> 'w ilsm) outcome" where
  "iLSM_Get os key value s =
     (let (st, s) = read_clock os s
      in bindO (iLSM_Get_inner os key value s) (\<lambda>(r, value, s).
           let (ed, s) = read_clock os s
           in Inr (r, value, finishOp Op_Get (ed - st) s)))"

text \<open>\<open>_CreateIter\<close> flushes what is buffered, ignoring the outcome of the flush.\<close>

definition CreateIter_inner :: "'w os \<Rightarrow> u32 \<Rightarrow> 'w ilsm \<Rightarrow> (int \<times> u32 \<times> 'w ilsm) outcome" where
  "CreateIter_inner os iter_id s =
     bindO (if buffering_cnt (buffering_info s) \<noteq> 0
            then bindO (Flush os s) (\<lambda>(_, s). Inr s) else Inr s) (\<lambda>s.
       let ((err, result, _), s) = nvme_passthru os (opcode_of NVME_CMD_KV_ITER_CREATE_ITER) 0 0 NSID
             0 0 0 0 0 0 0 0 0 None s
       in if err < 0 then Inr (-1, iter_id, s)
          else if err = NO_SUCH_KEY then Inr (-2, iter_id, s)
          else bindO (initialised result) (\<lambda>result. Inr (0, result, s)))"

definition CreateIter :: "'w os \<Rightarrow> u32 \<Rightarrow> 'w ilsm \<Rightarrow> (int \<times> u32 \<times> 'w ilsm) outcome" where
  "CreateIter os iter_id s =
     (let (st, s) = read_clock os s
      in bindO (CreateIter_inner os iter_id s) (\<lambda>(r, iter_id, s).
           let (ed, s) = read_clock os s
           in Inr (r, iter_id, finishOp Op_CreateIter (ed - st) s)))"

text \<open>Clearing one list of a C array of lists.\<close>

definition clear_at :: "'a list list \<Rightarrow> nat \<Rightarrow> 'a list list outcome" where
  "clear_at xss i = (if i < length xss then Inr (xss[i := []]) else Inl Out_Of_Bounds)"

definition DestroyIter_inner :: "'w os \<Rightarrow> u32 \<Rightarrow> 'w ilsm \<Rightarrow> (int \<times> 'w ilsm) outcome" where
  "DestroyIter_inner os iter_id s =
     (let cdw13 = iter_id;
          ((err, result, _), s) = nvme_passthru os (opcode_of NVME_CMD_KV_ITER_DESTROY_ITER) 0 0 NSID
             0 0 0 0 0 cdw13 0 0 0 None s
      in if err < 0 then Inr (-1, s)
         else if err = NO_SUCH_KEY then Inr (-2, s)
         else bindO (clear_at (scan_values s) (unat iter_id)) (\<lambda>vss.
              bindO (initialised result) (\<lambda>result.
                Inr (sint result, s\<lparr>scan_values := vss\<rparr>))))"

definition DestroyIter :: "'w os \<Rightarrow> u32 \<Rightarrow> 'w ilsm \<Rightarrow> (int \<times> 'w ilsm) outcome" where
  "DestroyIter os iter_id s =
     (let (st, s) = read_clock os s
      in bindO (DestroyIter_inner os iter_id s) (\<lambda>(r, s).
           let (ed, s) = read_clock os s
           in Inr (r, finishOp Op_DestroyIter (ed - st) s)))"

text \<open>\<open>keys->clear ()\<close> and \<open>values->clear ()\<close> reach element 0 of the two arrays.\<close>

definition Reset :: "'w os \<Rightarrow> 'w ilsm \<Rightarrow> int \<times> 'w ilsm" where
  "Reset os s =
     (let s = s\<lparr>scan_keys := (scan_keys s)[0 := []], scan_values := (scan_values s)[0 := []]\<rparr>;
          ((err, _, _), s) = nvme_passthru os (opcode_of NVME_CMD_KV_RESET) 0 0 NSID
            0 0 0 0 0 0 0 0 MAX_BUFLEN None s
      in (err, s))"

section \<open>The device as a store\<close>

text \<open>
  The firmware is outside the repository.  \<open>dev w\<close> is the content of the device in world \<open>w\<close>, by
  the four key bytes; reading the clock and allocating host memory do not change it, and the
  \<open>KV_GET\<close> command answers with it: the status for a missing key, or the length of the value with
  its bytes at the start of the block.
\<close>

definition quiet :: "'w os \<Rightarrow> ('w \<Rightarrow> bytes \<Rightarrow> bytes option) \<Rightarrow> bool" where
  "quiet os dev \<longleftrightarrow>
     (\<forall>w. dev (snd (os_now os w)) = dev w) \<and> (\<forall>n w. dev (snd (os_memalign os n w)) = dev w)"

definition get_answer :: "bytes option \<Rightarrow> int \<times> u32 \<times> region option \<Rightarrow> bool" where
  "get_answer found reply \<longleftrightarrow>
     (case found of
        None \<Rightarrow> fst reply = NO_SUCH_KEY
      | Some v \<Rightarrow> fst reply = 0 \<and> length v \<le> 520192 \<and> fst (snd reply) = of_nat (length v) \<and>
          (\<exists>data. snd (snd reply) = Some data \<and> rload data 0 (length v) = Inr v))"

definition serves_get :: "'w os \<Rightarrow> ('w \<Rightarrow> bytes \<Rightarrow> bytes option) \<Rightarrow> bool" where
  "serves_get os dev \<longleftrightarrow>
     (\<forall>fd cmd data w. cmd_opcode cmd = opcode_of NVME_CMD_KV_GET \<longrightarrow>
        get_answer (dev w (le_bytes32 (cmd_cdw10 cmd))) (fst (os_ioctl os fd cmd data w)) \<and>
        dev (snd (os_ioctl os fd cmd data w)) = dev w)"

lemma read_clock_dev: "quiet os dev \<Longrightarrow> read_clock os s = (t, s') \<Longrightarrow> dev (world s') = dev (world s)"
  unfolding quiet_def read_clock_def by (auto split: prod.splits) (metis snd_conv)

lemma memalign_dev: "quiet os dev \<Longrightarrow> memalign os n s = (ok, s') \<Longrightarrow> dev (world s') = dev (world s)"
  unfolding quiet_def memalign_def by (auto split: prod.splits) (metis snd_conv)

lemma finishOp_world [simp]: "world (finishOp op d s) = world s"
  by (simp add: finishOp_def Let_def)

lemma finishOp_info [simp]: "buffering_info (finishOp op d s) = buffering_info s"
  by (simp add: finishOp_def Let_def)

lemma finishPassthru_world [simp]: "world (finishPassthru opc d s) = world s"
  by (simp add: finishPassthru_def Let_def)

text \<open>A passthrough call ends in the world the \<open>ioctl\<close> leaves, up to reading the clock.\<close>

lemma passthru_ioctl:
  assumes "quiet os dev"
    and "nvme_passthru os opc fl rs ns c2 c3 c10 c11 c12 c13 c14 c15 dl data s = (reply, s')"
  shows "\<exists>w cmd err res data'. dev w = dev (world s) \<and> cmd_opcode cmd = opc \<and> cmd_cdw10 cmd = c10 \<and>
    fst (os_ioctl os (ilsm_fd s) cmd data w) = (err, res, data') \<and>
    dev (world s') = dev (snd (os_ioctl os (ilsm_fd s) cmd data w)) \<and>
    fst reply = err \<and> snd (snd reply) = data' \<and>
    (err = 0 \<longrightarrow> opc < opcode_of NVME_CMD_KV_LAST \<longrightarrow> fst (snd reply) = Some res)"
proof -
  obtain t1 s1 where c1: "read_clock os s = (t1, s1)"
    by fastforce
  let ?cmd = "\<lparr>cmd_opcode = opc, cmd_flags = fl, cmd_rsvd1 = rs, cmd_nsid = ns,
                 cmd_cdw2 = c2, cmd_cdw3 = c3, cmd_metadata = 0, cmd_metadata_len = 0,
                 cmd_data_len = dl, cmd_cdw10 = c10, cmd_cdw11 = c11,
                 cmd_cdw12 = c12, cmd_cdw13 = c13, cmd_cdw14 = c14, cmd_cdw15 = c15,
                 cmd_timeout_ms = 0, cmd_result = 0\<rparr>"
  have fd: "ilsm_fd s1 = ilsm_fd s"
    using same_buffers_clock [OF c1] by (simp add: same_buffers_def)
  obtain err res data' w2 where io: "os_ioctl os (ilsm_fd s) ?cmd data (world s1) = ((err, res, data'), w2)"
    using prod_cases3 by (metis surj_pair)
  have "dev (world s') = dev w2 \<and> fst reply = err \<and> snd (snd reply) = data' \<and>
    (err = 0 \<longrightarrow> opc < opcode_of NVME_CMD_KV_LAST \<longrightarrow> fst (snd reply) = Some res)"
    using assms(2) c1 io fd read_clock_dev [OF assms(1)]
    by (auto simp: nvme_passthru_def Let_def split: prod.splits if_splits)
  then show ?thesis
    using io read_clock_dev [OF assms(1) c1] by (intro exI [of _ "world s1"] exI [of _ ?cmd]) auto
qed

lemma sint_of_small:
  assumes "unat (x :: u32) < 2147483648"
  shows "sint x = int (unat x)"
proof -
  have "int (unat x) < int 2147483648"
    using assms by (simp only: of_nat_less_iff)
  then have "uint x < 2 ^ 31"
    by simp
  moreover have "0 \<le> uint x"
    by (rule uint_ge_0)
  ultimately have "signed_take_bit 31 (uint x) = uint x"
    by (intro signed_take_bit_int_eq_self) linarith+
  then show ?thesis
    by (simp add: sint_uint)
qed

lemma value_reply_found:
  assumes "get_answer (Some v) (err, res, data)" and "result = Some res"
  shows "value_reply value (err, result, data) = Inr (int (length v), v)"
proof (cases "v = []")
  case True
  with assms show ?thesis
    by (simp add: value_reply_def get_answer_def NO_SUCH_KEY_def)
next
  case False
  have u: "unat (of_nat (length v) :: u32) = length v" and len: "length v \<le> 520192"
    using assms(1) by (auto simp: get_answer_def unat_of_nat32)
  then have s: "sint (of_nat (length v) :: u32) = int (length v)"
    by (simp add: sint_of_small)
  have "(0 :: u32) < of_nat (length v)"
    using False u by (simp add: word_less_nat_alt)
  with assms s u show ?thesis
    by (auto simp: value_reply_def get_answer_def NO_SUCH_KEY_def string_at_def)
qed

lemma iLSM_Get_lookup:
  assumes "serves_get os dev" and "quiet os dev" and "mem_ok os" and "3 \<le> length key"
  shows "\<exists>s'. iLSM_Get os key value s =
      Inr (case dev (world s) (key4 key) of
             None \<Rightarrow> (-2, value, s') | Some v \<Rightarrow> (int (length v), v, s')) \<and>
    dev (world s') = dev (world s) \<and> same_buffers s s'"
proof -
  obtain t1 s1 where c1: "read_clock os s = (t1, s1)"
    by fastforce
  obtain ok s2 where m: "memalign os MAX_BUFLEN s1 = (ok, s2)"
    by fastforce
  obtain reply s3 where p: "nvme_passthru os (opcode_of NVME_CMD_KV_GET) 0 0 NSID 0 0
      (le_word32 (key4 key)) 0 (0xFFFF AND reply_nlb) 0 0 0 MAX_BUFLEN
      (Some (rzero (unat MAX_BUFLEN))) s2 = (reply, s3)"
    by fastforce
  obtain t2 s4 where c2: "read_clock os s3 = (t2, s4)"
    by fastforce
  let ?s' = "finishOp Op_Get (t2 - t1) s4"
  have ok: ok
    using memalign_ok [OF assms(3) m] .
  have "same_buffers s s3"
    by (rule same_buffers_trans [OF same_buffers_clock [OF c1]
          same_buffers_trans [OF same_buffers_memalign [OF m] same_buffers_passthru [OF p]]])
  then have same: "same_buffers s ?s'"
    by (rule same_buffers_trans) (rule same_buffers_trans [OF same_buffers_clock [OF c2] same_buffers_finishOp])
  have dev2: "dev (world s2) = dev (world s)"
    using read_clock_dev [OF assms(2) c1] memalign_dev [OF assms(2) m] by simp
  obtain w cmd err res data' where io: "dev w = dev (world s2)"
    "cmd_opcode cmd = opcode_of NVME_CMD_KV_GET" "cmd_cdw10 cmd = le_word32 (key4 key)"
    "fst (os_ioctl os (ilsm_fd s2) cmd (Some (rzero (unat MAX_BUFLEN))) w) = (err, res, data')"
    "dev (world s3) = dev (snd (os_ioctl os (ilsm_fd s2) cmd (Some (rzero (unat MAX_BUFLEN))) w))"
    "fst reply = err" "snd (snd reply) = data'"
    "err = 0 \<longrightarrow> opcode_of NVME_CMD_KV_GET < opcode_of NVME_CMD_KV_LAST \<longrightarrow> fst (snd reply) = Some res"
    using passthru_ioctl [OF assms(2) p] by blast
  have ans: "get_answer (dev (world s) (key4 key)) (err, res, data')"
    and dev3: "dev (world s3) = dev (world s)"
    using assms(1) [unfolded serves_get_def, rule_format, OF io(2),
        where fd = "ilsm_fd s2" and data = "Some (rzero (unat MAX_BUFLEN))" and w = w]
    by (simp_all add: io dev2 le_bytes32_word32 [OF length_key4 [OF assms(4)]])
  have reply: "reply = (err, fst (snd reply), data')"
    using io(6,7) by (cases reply) auto
  have v: "value_reply value reply =
      Inr (case dev (world s) (key4 key) of None \<Rightarrow> (-2, value) | Some v \<Rightarrow> (int (length v), v))"
  proof (cases "dev (world s) (key4 key)")
    case None
    with ans show ?thesis
      by (subst reply) (simp add: value_reply_def get_answer_def NO_SUCH_KEY_def)
  next
    case (Some v)
    with ans io(8) have "fst (snd reply) = Some res"
      by (simp add: get_answer_def word_less_alt)
    with Some ans show ?thesis
      by (subst reply) (simp add: value_reply_found)
  qed
  have "iLSM_Get os key value s =
      Inr (case dev (world s) (key4 key) of
             None \<Rightarrow> (-2, value, ?s') | Some v \<Rightarrow> (int (length v), v, ?s'))"
    using c1 m ok c_str4_key4 [OF assms(4)] p v c2
    by (simp add: iLSM_Get_def iLSM_Get_inner_def Let_def split: option.splits)
  moreover have "dev (world ?s') = dev (world s)"
    using dev3 read_clock_dev [OF assms(2) c2] by simp
  ultimately show ?thesis
    using same by blast
qed

text \<open>Until the 128th pair a put only allocates host memory and reads the clock.\<close>

lemma Buffering_dev:
  assumes "quiet os dev" and "Buffering os key v s = Inr (r, s')"
  shows "dev (world s') = dev (world s)"
proof -
  obtain ok1 s1 where m1: "memalign os MAX_VALUE_BUFFER_SIZE s = (ok1, s1)"
    by fastforce
  let ?s1 = "upd_buffering (\<lambda>b. b\<lparr>value_log_addr := Some (ralloc (unat MAX_VALUE_BUFFER_SIZE))\<rparr>) s1"
  obtain ok2 s2 where m2: "memalign os MAX_KEY_VALUE_BUFFER_SIZE ?s1 = (ok2, s2)"
    by fastforce
  have d: "dev (world s1) = dev (world s)" "dev (world s2) = dev (world s)"
    using memalign_dev [OF assms(1) m1] memalign_dev [OF assms(1) m2] by (simp_all add: upd_buffering_def)
  have init: "dev (world t) = dev (world s)" if "init_buffers os s = (ok, t)" for ok t
    using that m1 m2 d by (auto simp: init_buffers_def Let_def upd_buffering_def split: if_splits)
  obtain ok0 s0 where s0: "(if is_init_required (buffering_info s) then init_buffers os s else (True, s)) = (ok0, s0)"
    by fastforce
  then have "dev (world s0) = dev (world s)"
    using init by (auto split: if_splits)
  then show ?thesis
    using assms(2) s0 by (auto simp: Buffering_def bindO_eq_Inr Let_def split: if_splits)
qed

lemma iLSM_Put_dev:
  assumes "quiet os dev" and "buf_abs (buffering_info s) kvs" and "mem_ok os" and "3 \<le> length key"
    and "used_pages (buffering_info s) * 4096 + length v \<le> 341 * 4096" and "length kvs < 127"
    and "iLSM_Put os key v s = Inr (r, s')"
  shows "dev (world s') = dev (world s)"
proof -
  obtain t1 s1 where c1: "read_clock os s = (t1, s1)"
    by fastforce
  have s1: "buffering_info s1 = buffering_info s"
    using same_buffers_info [OF same_buffers_clock [OF c1]] .
  obtain s2 where s2: "Buffering os key v s1 = Inr (0, s2)"
    "buf_holds (buffering_info s2) (kvs @ [(key4 key, v)])"
    using Buffering_ok [of s1 kvs os key v] assms s1 by auto
  have "KV_pair_offset (buffering_info s2) \<noteq> 128"
    using s2(2) assms(6) by (auto simp: buf_holds_def word_unat_eq_iff unat_of_nat32 simp del: of_nat_Suc)
  then have "s' = finishOp Op_Put (fst (read_clock os s2) - t1) (snd (read_clock os s2))"
    using assms(7) c1 s2(1)
    by (auto simp: iLSM_Put_def iLSM_Put_inner_def LIMIT_VALUE_BUFFER_ENTRY_def split: prod.splits)
  then show ?thesis
    using Buffering_dev [OF assms(1) s2(1)] read_clock_dev [OF assms(1) c1]
      read_clock_dev [OF assms(1), of s2] by (simp add: prod_eq_iff)
qed

section \<open>Properties\<close>

text \<open>
  Claim C26 (refinement).  On a device that serves \<open>KV_GET\<close> from its content, \<open>Get\<close> is a lookup by
  the first four key bytes: it returns the length and assigns the value when the key is there, and
  returns -2 and leaves the output alone when it is not; the device content, the write buffer and the
  scan lists stay as they were.
\<close>

theorem Get_refines_lookup:
  assumes "serves_get os dev" and "quiet os dev" and "mem_ok os" and "3 \<le> length key"
  shows "\<exists>s'. iLSM_Get os key value s =
      Inr (case dev (world s) (key4 key) of
             None \<Rightarrow> (-2, value, s') | Some v \<Rightarrow> (int (length v), v, s')) \<and>
    dev (world s') = dev (world s) \<and> same_buffers s s'"
  by (rule iLSM_Get_lookup [OF assms])

text \<open>A device that holds one pair.\<close>

definition one_pair :: "unit \<Rightarrow> bytes \<Rightarrow> bytes option" where
  "one_pair w k = (if k = [107, 101, 121, 49] then Some [7] else None)"

definition one_pair_os :: "unit os" where
  "one_pair_os = ok_os\<lparr>os_ioctl := (\<lambda>_ cmd data w.
     if cmd_opcode cmd \<noteq> 0xA1 then ((0, 0, data), w)
     else if le_bytes32 (cmd_cdw10 cmd) = [107, 101, 121, 49]
     then ((0, 1, Some \<lparr>rsize = 520192, rbytes = (\<lambda>i. Some 7)\<rparr>), w)
     else ((NO_SUCH_KEY, 0, data), w))\<rparr>"

lemma one_pair_serves: "serves_get one_pair_os one_pair" "quiet one_pair_os one_pair" "mem_ok one_pair_os"
  by (simp_all add: serves_get_def get_answer_def one_pair_os_def one_pair_def quiet_def ok_os_def
      mem_ok_def rload_def)

theorem Get_refines_lookup_witness:
  "\<exists>s'. iLSM_Get one_pair_os (bytes_of ''key1'') [] (ilsm_new ()) = Inr (1, [7], s')"
proof -
  have "key4 (bytes_of ''key1'') = [107, 101, 121, 49]"
    by (simp add: key4_def bytes_of_def of_char_def)
  then show ?thesis
    using Get_refines_lookup [OF one_pair_serves, of "bytes_of ''key1''" "[]" "ilsm_new ()"]
    by (auto simp: one_pair_def)
qed

text \<open>
  \<open>Get\<close> asks the device only: right after a \<open>Put\<close> that stayed in the host
  buffer, a \<open>Get\<close> of the same key still answers with what the device held before the \<open>Put\<close>.
\<close>

theorem buffered_Put_invisible:
  assumes "serves_get os dev" and "quiet os dev" and "mem_ok os" and "3 \<le> length key"
    and "buf_abs (buffering_info s) kvs" and "length kvs < 127"
    and "used_pages (buffering_info s) * 4096 + length v \<le> 341 * 4096"
  shows "\<exists>s1 s2. iLSM_Put os key v s = Inr (0, s1) \<and>
    iLSM_Get os key value s1 =
      Inr (case dev (world s) (key4 key) of
             None \<Rightarrow> (-2, value, s2) | Some x \<Rightarrow> (int (length x), x, s2))"
proof -
  obtain s1 where s1: "iLSM_Put os key v s = Inr (0, s1)"
    using iLSM_Put_ok [OF assms(5,3,4,7)] by blast
  then have "dev (world s1) = dev (world s)"
    using iLSM_Put_dev [OF assms(2,5,3,4,7,6)] by blast
  then show ?thesis
    using s1 iLSM_Get_lookup [OF assms(1-4), of "value" s1] by auto
qed

theorem buffered_Put_invisible_witness:
  "\<exists>s1 s2. iLSM_Put one_pair_os (bytes_of ''new1'') [5]
       (snd (Open one_pair_os (bytes_of ''/dev/nvme1n1'') (ilsm_new ()))) = Inr (0, s1) \<and>
     iLSM_Get one_pair_os (bytes_of ''new1'') [] s1 = Inr (-2, [], s2)"
proof -
  let ?s = "snd (Open one_pair_os (bytes_of ''/dev/nvme1n1'') (ilsm_new ()))"
  have b: "buf_abs (buffering_info ?s) []" "used_pages (buffering_info ?s) = 0"
    by (simp_all add: Open_def one_pair_os_def ok_os_def ilsm_new_def buf_abs_def used_pages_def)
  have "key4 (bytes_of ''new1'') \<noteq> [107, 101, 121, 49]"
    by (simp add: key4_def bytes_of_def of_char_def)
  then show ?thesis
    using buffered_Put_invisible [OF one_pair_serves, of "bytes_of ''new1''" ?s "[]" "[5]" "[]"] b
    by (auto simp: one_pair_def)
qed

text \<open>
  A device status that is positive but not the missing-key status leaves the
  result unassigned, and \<open>_Get\<close>, \<open>_Seek\<close> and \<open>_Next\<close> all go on to read it; a negative status gives
  -1 and the missing-key status -2, without touching the output.
\<close>

theorem value_reply_status:
  shows "value_reply value (err, None, data) =
    (if err < 0 then Inr (-1, value) else if err = NO_SUCH_KEY then Inr (-2, value)
     else Inl Uninit_Read)"
  by (simp add: value_reply_def)

lemma CreateIter_inner_empties:
  assumes "buf_abs (buffering_info s) kvs" and "CreateIter_inner os i s = Inr (r, i', s')"
  shows "buf_abs (buffering_info s') []"
proof -
  obtain s1 where s1: "buf_abs (buffering_info s1) []"
    "CreateIter_inner os i s = CreateIter_inner os i s1" "buffering_cnt (buffering_info s1) = 0"
  proof (cases "buffering_cnt (buffering_info s) = 0")
    case True
    then have "kvs = []"
      using assms(1) by (auto simp: buf_abs_def buf_holds_def word_unat_eq_iff unat_of_nat32 split: if_splits)
    with True assms(1) that show ?thesis by blast
  next
    case False
    then have "buf_holds (buffering_info s) kvs" "kvs \<noteq> []"
      using assms(1) by (auto simp: buf_abs_def buf_holds_def split: if_splits)
    then obtain t where t: "Flush os s = Inr (0, t)" "buffering_info t = buf_empty"
      using Flush_ok by blast
    with False that [of t] show ?thesis
      by (simp add: CreateIter_inner_def buf_empty_def buf_abs_def)
  qed
  then have "buffering_info s' = buffering_info s1"
    using assms(2) by (auto simp: CreateIter_inner_def bindO_eq_Inr Let_def
        dest!: same_buffers_passthru same_buffers_info split: prod.splits if_splits)
  with s1(1) show ?thesis by simp
qed

text \<open>
  Creating an iterator first flushes: whenever \<open>CreateIter\<close> returns, no
  pair is left in the host buffers, whatever the device answered.
\<close>

theorem CreateIter_flushes:
  assumes "buf_abs (buffering_info s) kvs" and "CreateIter os i s = Inr (r, i', s')"
  shows "buf_abs (buffering_info s') []"
proof -
  obtain t1 s1 where c1: "read_clock os s = (t1, s1)"
    by fastforce
  obtain s2 where s2: "CreateIter_inner os i s1 = Inr (r, i', s2)"
    and s': "s' = finishOp Op_CreateIter (fst (read_clock os s2) - t1) (snd (read_clock os s2))"
    using assms(2) c1 by (auto simp: CreateIter_def bindO_eq_Inr Let_def split_beta)
  obtain t2 s3 where c2: "read_clock os s2 = (t2, s3)"
    by fastforce
  have "buffering_info s1 = buffering_info s" "buffering_info s' = buffering_info s2"
    using same_buffers_info [OF same_buffers_clock [OF c1]] same_buffers_info [OF same_buffers_clock [OF c2]]
      s' c2 by simp_all
  with CreateIter_inner_empties [OF _ s2] assms(1) show ?thesis by simp
qed

lemma unit_world [simp]: "s\<lparr>world := ()\<rparr> = s"
  by (cases s) simp

theorem CreateIter_flushes_witness:
  "\<exists>s1 s2. iLSM_Put ok_os (bytes_of ''key1'') [5] opened = Inr (0, s1) \<and>
     CreateIter ok_os 0 s1 = Inr (0, 0, s2) \<and> buf_abs (buffering_info s2) []"
proof -
  obtain s1 where s1: "iLSM_Put ok_os (bytes_of ''key1'') [5] opened = Inr (0, s1)"
    "buf_abs (buffering_info s1) [(key4 (bytes_of ''key1''), [5])]"
    using iLSM_Put_ok [OF opened_abs(1,3), of "bytes_of ''key1''" "[5]"] opened_abs(2) by auto
  then have b: "buf_holds (buffering_info s1) [(key4 (bytes_of ''key1''), [5])]"
    by (simp add: buf_abs_def split: if_splits)
  then obtain t where t: "Flush ok_os s1 = Inr (0, t)"
    using Flush_ok [OF b, of ok_os] by auto
  have "buffering_cnt (buffering_info s1) \<noteq> 0"
    using b by (simp add: buf_holds_def)
  then have "\<exists>s2. CreateIter ok_os 0 s1 = Inr (0, 0, s2)"
    using t by (simp add: CreateIter_def CreateIter_inner_def read_clock_def ok_os_def
        nvme_passthru_def NO_SUCH_KEY_def word_less_alt)
  then show ?thesis
    using s1(1) CreateIter_flushes [OF s1(2), of ok_os 0 0 0] by auto
qed

text \<open>
  \<open>Reset\<close> returns the device's status; of the host state it empties the scan
  lists of iterator 0 only.  The lists of every other iterator keep what earlier scans left in them,
  and so does the write buffer.
\<close>

theorem Reset_slot0_only:
  assumes "Reset os s = (r, s')" and "scan_keys s \<noteq> []" and "scan_values s \<noteq> []"
  shows "scan_keys s' ! 0 = [] \<and> scan_values s' ! 0 = [] \<and> buffering_info s' = buffering_info s \<and>
    (\<forall>i. 0 < i \<longrightarrow> scan_keys s' ! i = scan_keys s ! i \<and> scan_values s' ! i = scan_values s ! i)"
proof -
  let ?s0 = "s\<lparr>scan_keys := (scan_keys s)[0 := []], scan_values := (scan_values s)[0 := []]\<rparr>"
  have "same_buffers ?s0 s'"
    using assms(1) by (auto simp: Reset_def Let_def split: prod.splits dest: same_buffers_passthru)
  then have "scan_keys s' = (scan_keys s)[0 := []]" "scan_values s' = (scan_values s)[0 := []]"
    "buffering_info s' = buffering_info s"
    by (simp_all add: same_buffers_def same_scan_def)
  then show ?thesis
    using assms(2,3) by simp
qed

theorem Reset_slot0_only_witness:
  "scan_keys (snd (Reset ok_os ((ilsm_new ())\<lparr>scan_keys := [[[1]], [[2]]]\<rparr>))) ! 1 = [[2]]"
  using Reset_slot0_only [of ok_os "(ilsm_new ())\<lparr>scan_keys := [[[1]], [[2]]]\<rparr>" _ _, OF prod.collapse [symmetric]]
  by (simp add: ilsm_new_def MAX_ITERATOR_NUM_def)

end
