(* ===== verification/ILSM_Scan.thy ===== *)
theory ILSM_Scan
  imports ILSM_Read
begin

text \<open>
  The bulk-scan interface of \<open>iLSM.cc\<close>: \<open>DoBulkyScan\<close> and \<open>DoBulkyNextScan\<close> fetch a block from the
  device and parse it into the key and value lists of an iterator, \<open>RangeScan\<close> keeps the key to go on
  from, and \<open>SeekScan\<close> and \<open>NextScan\<close> hand the pairs out one at a time.
\<close>

section \<open>Parsing a block\<close>

definition push_at :: "'a list list \<Rightarrow> nat \<Rightarrow> 'a \<Rightarrow> 'a list list outcome" where
  "push_at xss i x = (if i < length xss then Inr (xss[i := xss ! i @ [x]]) else Inl Out_Of_Bounds)"

text \<open>
  The first loop: pairs of a value length and a four-byte key, up to a zero length or \<open>MAX_CMD_NUM\<close>
  pairs.  The second argument counts the rounds left.  It gives the lengths, the offset reached and
  the key lists.
\<close>

fun key_loop ::
  "region \<Rightarrow> nat \<Rightarrow> nat \<Rightarrow> nat \<Rightarrow> bytes list list \<Rightarrow> (u32 list \<times> nat \<times> bytes list list) outcome" where
  "key_loop data 0 iter_id temp keys = Inr ([], temp, keys)"
| "key_loop data (Suc rounds) iter_id temp keys =
     bindO (rload32 data temp) (\<lambda>temp_len.
       if temp_len = 0 then Inr ([], temp, keys)
       else bindO (rload data (temp + 4) 4) (\<lambda>temp_key.
            bindO (push_at keys iter_id temp_key) (\<lambda>keys.
            bindO (key_loop data rounds iter_id (temp + 8) keys) (\<lambda>(key_list, temp, keys).
              Inr (temp_len # key_list, temp, keys)))))"

text \<open>Bytes a value of the given length occupies in the block, on 32 bits.\<close>

definition value_span :: "u32 \<Rightarrow> u32" where
  "value_span temp_len =
     (temp_len div BLOCK_SIZE + (if temp_len mod BLOCK_SIZE > 0 then 1 else 0)) * BLOCK_SIZE"

fun value_loop ::
  "region \<Rightarrow> u32 list \<Rightarrow> nat \<Rightarrow> nat \<Rightarrow> bytes list list \<Rightarrow> bytes list list outcome" where
  "value_loop data [] iter_id temp values = Inr values"
| "value_loop data (temp_len # key_list) iter_id temp values =
     bindO (string_at data temp temp_len) (\<lambda>temp_val.
     bindO (push_at values iter_id temp_val) (\<lambda>values.
       value_loop data key_list iter_id (temp + unat (value_span temp_len)) values))"

text \<open>The block is page aligned, so the alignment of an address in it is that of its offset.\<close>

definition parse_block ::
  "region \<Rightarrow> nat \<Rightarrow> bytes list list \<Rightarrow> bytes list list \<Rightarrow> (bytes list list \<times> bytes list list) outcome" where
  "parse_block data iter_id keys values =
     bindO (key_loop data MAX_CMD_NUM iter_id 0 keys) (\<lambda>(key_list, temp, keys).
     bindO (rload32 data temp) (\<lambda>x.
       if x = 0
       then let temp = temp + (unat BLOCK_SIZE - temp mod unat BLOCK_SIZE)
            in bindO (value_loop data key_list iter_id temp values) (\<lambda>values. Inr (keys, values))
       else Inr (keys, values)))"

section \<open>Scan operations\<close>

text \<open>
  What both bulk scans do with the reply: the return value, the output \<open>next\<close> (unassigned on the
  error paths) and the state with the parsed lists.
\<close>

definition bulky_reply ::
  "nat \<Rightarrow> int \<times> u32 option \<times> region option \<Rightarrow> 'w ilsm \<Rightarrow> (int \<times> u32 option \<times> 'w ilsm) outcome" where
  "bulky_reply iter_id reply s =
     (let (err, result, data) = reply
      in if err < 0 then Inr (-1, None, s)
         else if err = NO_SUCH_KEY then Inr (-2, None, s)
         else bindO (deref data) (\<lambda>data.
              bindO (parse_block data iter_id (scan_keys s) (scan_values s)) (\<lambda>(ks, vs).
              bindO (initialised result) (\<lambda>result.
                Inr (sint result, Some result, s\<lparr>scan_keys := ks, scan_values := vs\<rparr>)))))"

definition DoBulkyScan ::
  "'w os \<Rightarrow> u32 \<Rightarrow> u32 \<Rightarrow> bytes \<Rightarrow> 'w ilsm \<Rightarrow> (int \<times> u32 option \<times> 'w ilsm) outcome" where
  "DoBulkyScan os is_seek iter_id key s =
     (let (ok, s) = memalign os MAX_BUFLEN s
      in if \<not> ok then Inr (- ENOMEM, None, s)
         else bindO (if key \<noteq> bytes_of ''start'' then bindO (c_str4 key) (\<lambda>k. Inr (le_word32 k))
                     else Inr 0) (\<lambda>cdw10.
           let cdw12 = 0xFFFF AND reply_nlb;
               cdw13 = iter_id;
               (reply, s) = nvme_passthru os (ucast is_seek) 0 0 NSID 0 0
                 cdw10 0 cdw12 cdw13 0 0 MAX_BUFLEN (Some (rzero (unat MAX_BUFLEN))) s
           in bulky_reply (unat iter_id) reply s))"

definition DoBulkyNextScan ::
  "'w os \<Rightarrow> u32 \<Rightarrow> u32 \<Rightarrow> u32 \<Rightarrow> 'w ilsm \<Rightarrow> (int \<times> u32 option \<times> 'w ilsm) outcome" where
  "DoBulkyNextScan os is_seek iter_id key s =
     (let (ok, s) = memalign os MAX_BUFLEN s
      in if \<not> ok then Inr (- ENOMEM, None, s)
         else
           let cdw10 = key;
               cdw12 = 0xFFFF AND reply_nlb;
               cdw13 = iter_id;
               (reply, s) = nvme_passthru os (ucast is_seek) 0 0 NSID 0 0
                 cdw10 0 cdw12 cdw13 0 0 MAX_BUFLEN (Some (rzero (unat MAX_BUFLEN))) s
           in bulky_reply (unat iter_id) reply s)"

text \<open>Assigning one element of a C array.\<close>

definition set_at :: "'a list \<Rightarrow> nat \<Rightarrow> 'a \<Rightarrow> 'a list outcome" where
  "set_at xs i x = (if i < length xs then Inr (xs[i := x]) else Inl Out_Of_Bounds)"

text \<open>
  The loop of \<open>RangeScan\<close> runs once.  It copies \<open>next\<close> before it looks at the error, also when the
  scan did not assign it.
\<close>

definition RangeScan ::
  "'w os \<Rightarrow> u32 \<Rightarrow> u32 \<Rightarrow> bytes \<Rightarrow> 'w ilsm \<Rightarrow> (u32 \<times> 'w ilsm) outcome" where
  "RangeScan os is_seek iter_id key s =
     bindO (at_index (brk_point_key s) (unat iter_id)) (\<lambda>start_uint.
     bindO (if is_seek = ucast (opcode_of NVME_CMD_KV_RANGE_SCAN_SEEK)
            then DoBulkyScan os is_seek iter_id key s
            else DoBulkyNextScan os is_seek iter_id start_uint s) (\<lambda>(err, nxt, s).
     bindO (initialised nxt) (\<lambda>start_uint.
       if err = -2 \<or> start_uint = 0xFFFFFFFF
       then bindO (set_at (scan_cnt s) (unat iter_id) 0xFFFFFFFF) (\<lambda>cnts.
              Inr (start_uint, s\<lparr>scan_cnt := cnts\<rparr>))
       else Inr (start_uint, s))))"

text \<open>\<open>list::front\<close> of an empty list is undefined.\<close>

definition front :: "'a list \<Rightarrow> 'a outcome" where
  "front xs = (case xs of [] \<Rightarrow> Inl Out_Of_Bounds | x # _ \<Rightarrow> Inr x)"

text \<open>
  Taking a pair from the lists: the value from the back, the key from the front.  \<open>store\<close> tells
  whether the iterator's copies \<open>iter_keys\<close> and \<open>iter_values\<close> are assigned too.
\<close>

definition take_pair ::
  "bool \<Rightarrow> nat \<Rightarrow> 'w ilsm \<Rightarrow> (bytes \<times> bytes \<times> 'w ilsm) outcome" where
  "take_pair store i s =
     (let v = last (scan_values s ! i);
          s = (if store then s\<lparr>iter_values := (iter_values s)[i := v]\<rparr> else s);
          s = s\<lparr>scan_values := (scan_values s)[i := butlast (scan_values s ! i)]\<rparr>
      in bindO (front (scan_keys s ! i)) (\<lambda>k.
           let s = (if store then s\<lparr>iter_keys := (iter_keys s)[i := k]\<rparr> else s)
           in Inr (k, v, s\<lparr>scan_keys := (scan_keys s)[i := tl (scan_keys s ! i)]\<rparr>)))"

definition SeekScan_inner ::
  "'w os \<Rightarrow> u32 \<Rightarrow> bytes \<Rightarrow> bytes \<Rightarrow> 'w ilsm \<Rightarrow> (int \<times> bytes \<times> bytes \<times> 'w ilsm) outcome" where
  "SeekScan_inner os iter_id key value s =
     (let i = unat iter_id
      in bindO (set_at (scan_cnt s) i 1) (\<lambda>cnts.
         bindO (RangeScan os (ucast (opcode_of NVME_CMD_KV_RANGE_SCAN_SEEK)) iter_id key
                  (s\<lparr>scan_cnt := cnts\<rparr>)) (\<lambda>(brk, s).
         bindO (set_at (brk_point_key s) i brk) (\<lambda>brks.
         let s = s\<lparr>brk_point_key := brks\<rparr>
         in bindO (at_index (scan_values s) i) (\<lambda>vs.
              if vs \<noteq> []
              then bindO (take_pair True i s) (\<lambda>(key, value, s). Inr (1, key, value, s))
              else Inr (-2, key, value, s))))))"

definition SeekScan ::
  "'w os \<Rightarrow> u32 \<Rightarrow> bytes \<Rightarrow> bytes \<Rightarrow> 'w ilsm \<Rightarrow> (int \<times> bytes \<times> bytes \<times> 'w ilsm) outcome" where
  "SeekScan os iter_id key value s =
     (let (st, s) = read_clock os s
      in bindO (SeekScan_inner os iter_id key value s) (\<lambda>(r, key, value, s).
           let (ed, s) = read_clock os s
           in Inr (r, key, value, finishOp Op_Seek (ed - st) s)))"

definition NextScan_inner ::
  "'w os \<Rightarrow> u32 \<Rightarrow> bytes \<Rightarrow> bytes \<Rightarrow> 'w ilsm \<Rightarrow> (int \<times> bytes \<times> bytes \<times> 'w ilsm) outcome" where
  "NextScan_inner os iter_id key value s =
     (let i = unat iter_id
      in bindO (at_index (scan_values s) i) (\<lambda>vs.
         if vs \<noteq> []
         then bindO (take_pair True i s) (\<lambda>(key, value, s). Inr (1, key, value, s))
         else bindO (at_index (brk_point_key s) i) (\<lambda>brk.
              if brk = 0xFFFFFFFF then Inr (-3, key, value, s)
              else bindO (RangeScan os (ucast (opcode_of NVME_CMD_KV_RANGE_SCAN_NEXT)) iter_id [] s)
                     (\<lambda>(brk, s).
                   bindO (set_at (brk_point_key s) i brk) (\<lambda>brks.
                   let s = s\<lparr>brk_point_key := brks\<rparr>
                   in bindO (at_index (scan_values s) i) (\<lambda>vs.
                        if vs \<noteq> []
                        then bindO (take_pair False i s) (\<lambda>(key, value, s). Inr (1, key, value, s))
                        else Inr (-2, key, value, s)))))))"

definition NextScan ::
  "'w os \<Rightarrow> u32 \<Rightarrow> bytes \<Rightarrow> bytes \<Rightarrow> 'w ilsm \<Rightarrow> (int \<times> bytes \<times> bytes \<times> 'w ilsm) outcome" where
  "NextScan os iter_id key value s =
     (let (st, s) = read_clock os s
      in bindO (NextScan_inner os iter_id key value s) (\<lambda>(r, key, value, s).
           let (ed, s) = read_clock os s
           in Inr (r, key, value, finishOp Op_Next (ed - st) s)))"

section \<open>The header of a block\<close>

lemma rload32_word: "rload r off 4 = Inr bs \<Longrightarrow> rload32 r off = Inr (le_word32 bs)"
  by (simp add: rload32_def)

lemma rload_full:
  assumes "\<forall>i<rsize r. rbytes r i \<noteq> None" and "off + n \<le> rsize r"
  shows "\<exists>bs. rload r off n = Inr bs"
proof -
  have "rload r off n = Inr (map (\<lambda>i. the (rbytes r i)) [off..<off + n])"
    using assms by (auto simp: rload_eq_Inr)
  then show ?thesis ..
qed

lemma push_at_in: "i < length xss \<Longrightarrow> push_at xss i x = Inr (xss[i := xss ! i @ [x]])"
  by (simp add: push_at_def)

text \<open>The key loop on a fully written block stays inside it and collects one key per length.\<close>

lemma key_loop_total:
  assumes "\<forall>i<rsize data. rbytes data i \<noteq> None" and "temp + 8 * n + 4 \<le> rsize data"
    and "i < length keys"
  shows "\<exists>lens ks. key_loop data n i temp keys =
      Inr (lens, temp + 8 * length lens, keys[i := keys ! i @ ks]) \<and>
    length ks = length lens \<and> length lens \<le> n \<and>
    (length lens < n \<longrightarrow> rload32 data (temp + 8 * length lens) = Inr 0)"
  using assms(2,3)
proof (induction n arbitrary: temp keys)
  case 0
  then show ?case
    by (intro exI [of _ "[]"]) simp
next
  case (Suc n)
  obtain x where x: "rload32 data temp = Inr x"
    using rload_full [OF assms(1), of temp 4] Suc.prems(1) by (auto dest: rload32_word)
  obtain k where k: "rload data (temp + 4) 4 = Inr k"
    using rload_full [OF assms(1), of "temp + 4" 4] Suc.prems(1) by auto
  show ?case
  proof (cases "x = 0")
    case True
    with x Suc.prems(2) show ?thesis
      by (intro exI [of _ "[]"]) simp
  next
    case False
    let ?keys = "keys[i := keys ! i @ [k]]"
    obtain lens ks where IH: "key_loop data n i (temp + 8) ?keys =
        Inr (lens, temp + 8 + 8 * length lens, ?keys[i := ?keys ! i @ ks])"
      "length ks = length lens" "length lens \<le> n"
      "length lens < n \<longrightarrow> rload32 data (temp + 8 + 8 * length lens) = Inr 0"
      using Suc.IH [of "temp + 8" ?keys] Suc.prems by auto
    with False x k Suc.prems(2) show ?thesis
      by (intro exI [of _ "x # lens"] exI [of _ "k # ks"]) (simp add: push_at_in add.assoc)
  qed
qed

section \<open>Encoding and parsing a block\<close>

text \<open>
  The layout the comments of \<open>DoBulkyScan\<close> describe: lengths and keys, a zero length, zeros up to the
  next block boundary, then each value padded to whole blocks.
\<close>

definition span :: "nat \<Rightarrow> nat" where
  "span n = (n + 4095) div 4096 * 4096"

definition pad_value :: "bytes \<Rightarrow> bytes" where
  "pad_value v = v @ replicate (span (length v) - length v) 0"

definition header :: "(bytes \<times> bytes) list \<Rightarrow> bytes" where
  "header kvs = concat (map (\<lambda>(k, v). le_bytes32 (of_nat (length v)) @ k) kvs)"

definition block_image :: "(bytes \<times> bytes) list \<Rightarrow> bytes" where
  "block_image kvs =
     header kvs @ replicate (4096 - length (header kvs) mod 4096) 0 @ concat (map (pad_value \<circ> snd) kvs)"

definition scannable :: "(bytes \<times> bytes) list \<Rightarrow> bool" where
  "scannable kvs \<longleftrightarrow> length kvs \<le> 43691 \<and>
     (\<forall>(k, v)\<in>set kvs. length k = 4 \<and> v \<noteq> [] \<and> length v < 2147483648)"

lemma span_ge: "n \<le> span n"
  by (simp add: span_def)

lemma length_pad_value [simp]: "length (pad_value v) = span (length v)"
  using span_ge [of "length v"] by (simp add: pad_value_def)

lemma div_round_up:
  assumes "r < 4096"
  shows "(4096 * q + r + 4095) div 4096 = q + (if 0 < r then 1 else (0 :: nat))"
proof (cases r)
  case 0
  then show ?thesis by simp
next
  case (Suc r')
  then have "4096 * q + r + 4095 = r' + 4096 * (q + 1)"
    by simp
  then have "(4096 * q + r + 4095) div 4096 = (q + 1) + r' div 4096"
    by (simp only: div_mult_self2)
  with Suc assms show ?thesis by simp
qed

lemma value_span_nat:
  assumes "n < 2147483648"
  shows "unat (value_span (of_nat n)) = span n"
proof -
  have m: "(of_nat n mod 4096 > (0 :: u32)) \<longleftrightarrow> n mod 4096 > 0"
    using assms by (simp add: word_less_nat_alt unat_mod unat_of_nat32)
  have d: "(of_nat n :: u32) div 4096 = of_nat (n div 4096)"
    using assms by (simp add: word_arith_nat_div unat_of_nat32)
  have q: "(n + 4095) div 4096 = n div 4096 + (if n mod 4096 > 0 then 1 else 0)"
    using div_round_up [of "n mod 4096" "n div 4096"] by (simp only: mult_div_mod_eq)
  have "value_span (of_nat n) = of_nat ((n + 4095) div 4096 * 4096)"
    unfolding value_span_def BLOCK_SIZE_def m d q by simp
  moreover have "(n + 4095) div 4096 * 4096 < 4294967296"
    using assms by linarith
  ultimately show ?thesis
    by (simp only: span_def unat_of_nat32)
qed

lemma length_header: "\<forall>(k, v)\<in>set kvs. length k = 4 \<Longrightarrow> length (header kvs) = 8 * length kvs"
  by (induction kvs) (auto simp: header_def)

lemma le_word32_zero [simp]: "le_word32 [0, 0, 0, 0] = 0"
  by simp

lemma key_loop_header:
  assumes "rload data temp (8 * length kvs + 4) = Inr (header kvs @ [0, 0, 0, 0])"
    and "\<forall>(k, v)\<in>set kvs. length k = 4 \<and> v \<noteq> [] \<and> length v < 2147483648"
    and "length kvs \<le> n" and "i < length keys"
  shows "key_loop data n i temp keys =
    Inr (map (\<lambda>(k, v). of_nat (length v)) kvs, temp + 8 * length kvs,
         keys[i := keys ! i @ map fst kvs])"
  using assms
proof (induction kvs arbitrary: n temp keys)
  case Nil
  then have "rload32 data temp = Inr 0"
    by (simp add: header_def rload32_def)
  with Nil show ?case
    by (cases n) simp_all
next
  case (Cons kv kvs)
  obtain k v where kv: "kv = (k, v)"
    by fastforce
  have k: "length k = 4" "v \<noteq> []" "length v < 2147483648"
    using Cons.prems(2) kv by auto
  obtain n' where n: "n = Suc n'" "length kvs \<le> n'"
    using Cons.prems(3) by (cases n) auto
  have h: "header (kv # kvs) = le_bytes32 (of_nat (length v)) @ k @ header kvs"
    by (simp add: header_def kv)
  have len: "rload32 data temp = Inr (of_nat (length v))"
    using rload_sub [OF Cons.prems(1), of 0 4] by (simp add: h rload32_def)
  have key: "rload data (temp + 4) 4 = Inr k"
    using rload_sub [OF Cons.prems(1), of 4 4] k(1) by (simp add: h)
  have "length (header kvs) = 8 * length kvs"
    using Cons.prems(2) by (intro length_header) auto
  then have rest: "rload data (temp + 8) (8 * length kvs + 4) = Inr (header kvs @ [0, 0, 0, 0])"
    using rload_sub [OF Cons.prems(1), of 8 "8 * length kvs + 4"] k(1) by (simp add: h)
  have nz: "(of_nat (length v) :: u32) \<noteq> 0"
    using k by (simp add: word_unat_eq_iff unat_of_nat32)
  let ?keys = "keys[i := keys ! i @ [k]]"
  have "key_loop data n' i (temp + 8) ?keys =
      Inr (map (\<lambda>(k, v). of_nat (length v)) kvs, temp + 8 + 8 * length kvs,
        ?keys[i := ?keys ! i @ map fst kvs])"
    using Cons.prems n by (intro Cons.IH rest) auto
  then show ?case
    using n kv len key nz Cons.prems(4) by (simp add: push_at_in)
qed

lemma value_loop_values:
  assumes "rload data temp (length (concat (map pad_value vs))) = Inr (concat (map pad_value vs))"
    and "\<forall>v\<in>set vs. length v < 2147483648" and "i < length vals"
  shows "value_loop data (map (\<lambda>v. of_nat (length v)) vs) i temp vals = Inr (vals[i := vals ! i @ vs])"
  using assms
proof (induction vs arbitrary: temp vals)
  case Nil
  then show ?case by simp
next
  case (Cons v vs)
  have v: "length v < 2147483648"
    using Cons.prems(2) by simp
  have u: "unat (of_nat (length v) :: u32) = length v"
    using v by (simp add: unat_of_nat32)
  have "rload data temp (length v) = Inr v"
    using rload_sub [OF Cons.prems(1), of 0 "length v"] span_ge [of "length v"] by (simp add: pad_value_def)
  then have s: "string_at data temp (of_nat (length v)) = Inr v"
    using v u by (simp add: string_at_def sint_of_small)
  have "rload data (temp + span (length v)) (length (concat (map pad_value vs))) =
      Inr (concat (map pad_value vs))"
    using rload_sub [OF Cons.prems(1), of "span (length v)" "length (concat (map pad_value vs))"] by simp
  then have "value_loop data (map (\<lambda>v. of_nat (length v)) vs) i (temp + span (length v))
      (vals[i := vals ! i @ [v]]) = Inr ((vals[i := vals ! i @ [v]])[i := (vals[i := vals ! i @ [v]]) ! i @ vs])"
    using Cons.prems by (intro Cons.IH) auto
  then show ?case
    using s v Cons.prems(3) by (simp add: push_at_in value_span_nat)
qed

text \<open>The keys and values the lists of iterator \<open>i\<close> gain.\<close>

lemma parse_block_image:
  assumes "rload data 0 (length (block_image kvs)) = Inr (block_image kvs)" and "scannable kvs"
    and "i < length keys" and "i < length vals"
  shows "parse_block data i keys vals =
    Inr (keys[i := keys ! i @ map fst kvs], vals[i := vals ! i @ map snd kvs])"
proof -
  let ?n = "length kvs"
  let ?pad = "4096 - 8 * ?n mod 4096"
  let ?vals = "concat (map pad_value (map snd kvs))"
  have ok: "\<forall>(k, v)\<in>set kvs. length k = 4 \<and> v \<noteq> [] \<and> length v < 2147483648" "?n \<le> MAX_CMD_NUM"
    using assms(2) by (auto simp: scannable_def MAX_CMD_NUM_def)
  have len: "length (header kvs) = 8 * ?n"
    using ok(1) by (intro length_header) auto
  have img: "block_image kvs = header kvs @ replicate ?pad 0 @ ?vals"
    by (simp add: block_image_def len)
  have pad: "4 \<le> ?pad"
  proof -
    have "8 * ?n mod 4096 = 8 * (?n mod 512)"
      by (simp add: mult_mod_right)
    then show ?thesis by simp
  qed
  have "replicate 4 (0 :: u8) = [0, 0, 0, 0]"
    by (simp add: eval_nat_numeral)
  then have four: "take 4 (replicate ?pad (0 :: u8)) = [0, 0, 0, 0]"
    using pad by (simp add: take_replicate min_absorb1)
  have hdr: "rload data 0 (8 * ?n + 4) = Inr (header kvs @ [0, 0, 0, 0])"
    using rload_sub [OF assms(1), of 0 "8 * ?n + 4"] pad four by (simp add: img len)
  have loop: "key_loop data MAX_CMD_NUM i 0 keys =
      Inr (map (\<lambda>v. of_nat (length v)) (map snd kvs), 8 * ?n, keys[i := keys ! i @ map fst kvs])"
    using key_loop_header [OF hdr ok assms(3)] by (simp add: split_beta)
  have zero: "rload32 data (8 * ?n) = Inr 0"
    using rload_sub [OF hdr, of "8 * ?n" 4] by (simp add: len rload32_def)
  have "rload data (8 * ?n + ?pad) (length ?vals) = Inr ?vals"
    using rload_sub [OF assms(1), of "8 * ?n + ?pad" "length ?vals"] by (simp add: img len)
  then have "value_loop data (map (\<lambda>v. of_nat (length v)) (map snd kvs)) i (8 * ?n + ?pad) vals =
      Inr (vals[i := vals ! i @ map snd kvs])"
    using ok(1) assms(4) by (intro value_loop_values) auto
  then show ?thesis
    using loop zero by (simp add: parse_block_def BLOCK_SIZE_def Let_def)
qed

section \<open>Handing out the pairs\<close>

text \<open>All per-iterator arrays have their declared size.\<close>

definition arrays_sized :: "'w ilsm \<Rightarrow> bool" where
  "arrays_sized s \<longleftrightarrow>
     length (scan_keys s) = 10 \<and> length (scan_values s) = 10 \<and> length (scan_cnt s) = 10 \<and>
     length (brk_point_key s) = 10 \<and> length (iter_keys s) = 10 \<and> length (iter_values s) = 10"

lemma arrays_sized_new [simp]: "arrays_sized (ilsm_new w)"
  by (simp add: arrays_sized_def ilsm_new_def MAX_ITERATOR_NUM_def)

lemma arrays_sized_same: "same_scan s t \<Longrightarrow> arrays_sized t = arrays_sized s"
  by (simp add: arrays_sized_def same_scan_def)

lemma take_pair_lists:
  assumes "scan_values s ! i = vs @ [v]" and "scan_keys s ! i = k # ks"
    and "i < 10" and "arrays_sized s"
  shows "\<exists>s'. take_pair store i s = Inr (k, v, s') \<and> arrays_sized s' \<and>
    scan_values s' = (scan_values s)[i := vs] \<and> scan_keys s' = (scan_keys s)[i := ks] \<and>
    brk_point_key s' = brk_point_key s \<and> buffering_info s' = buffering_info s \<and>
    iter_keys s' = (if store then (iter_keys s)[i := k] else iter_keys s) \<and>
    iter_values s' = (if store then (iter_values s)[i := v] else iter_values s)"
  using assms by (cases store) (simp_all add: take_pair_def front_def arrays_sized_def Let_def)

lemma NextScan_buffered:
  assumes "scan_values s ! unat i = vs @ [v]" and "scan_keys s ! unat i = k # ks"
    and "unat i < 10" and "arrays_sized s"
  shows "\<exists>s'. NextScan os i key value s = Inr (1, k, v, s') \<and> arrays_sized s' \<and>
    scan_values s' = (scan_values s)[unat i := vs] \<and> scan_keys s' = (scan_keys s)[unat i := ks] \<and>
    brk_point_key s' = brk_point_key s \<and> buffering_info s' = buffering_info s \<and>
    iter_keys s' ! unat i = k \<and> iter_values s' ! unat i = v"
proof -
  obtain t1 s1 where c1: "read_clock os s = (t1, s1)"
    by fastforce
  have b1: "same_buffers s s1"
    by (rule same_buffers_clock [OF c1])
  then have s1: "scan_values s1 = scan_values s" "scan_keys s1 = scan_keys s" "arrays_sized s1"
    using assms(4) by (auto simp: same_buffers_def arrays_sized_same) (simp_all add: same_scan_def)
  obtain s2 where s2: "take_pair True (unat i) s1 = Inr (k, v, s2)" "arrays_sized s2"
    "scan_values s2 = (scan_values s1)[unat i := vs]" "scan_keys s2 = (scan_keys s1)[unat i := ks]"
    "brk_point_key s2 = brk_point_key s1" "buffering_info s2 = buffering_info s1"
    "iter_keys s2 = (iter_keys s1)[unat i := k]" "iter_values s2 = (iter_values s1)[unat i := v]"
    using take_pair_lists [of s1 "unat i" vs v k ks True] assms s1 by auto
  have inner: "NextScan_inner os i key value s1 = Inr (1, k, v, s2)"
    using s2(1) s1 assms by (simp add: NextScan_inner_def Let_def arrays_sized_def)
  obtain t2 s3 where c2: "read_clock os s2 = (t2, s3)"
    by fastforce
  let ?s' = "finishOp Op_Next (t2 - t1) s3"
  have b2: "same_buffers s2 ?s'"
    by (rule same_buffers_trans [OF same_buffers_clock [OF c2] same_buffers_finishOp])
  have "NextScan os i key value s = Inr (1, k, v, ?s')"
    using c1 inner c2 by (simp add: NextScan_def)
  moreover have "arrays_sized ?s'"
    using arrays_sized_same [OF same_buffers_scan [OF b2]] s2(2) by simp
  ultimately show ?thesis
    using b1 b2 s1(3) s2 assms(3) by (auto simp: same_buffers_def same_scan_def arrays_sized_def)
qed

text \<open>Calling \<open>NextScan\<close> \<open>n\<close> times and collecting the pairs.\<close>

fun NextScans :: "'w os \<Rightarrow> u32 \<Rightarrow> nat \<Rightarrow> 'w ilsm \<Rightarrow> ((bytes \<times> bytes) list \<times> 'w ilsm) outcome" where
  "NextScans os i 0 s = Inr ([], s)"
| "NextScans os i (Suc n) s =
     bindO (NextScan os i [] [] s) (\<lambda>(r, k, v, s).
     bindO (NextScans os i n s) (\<lambda>(kvs, s). Inr ((k, v) # kvs, s)))"

lemma NextScans_drain:
  assumes "scan_values s ! unat i = vs" and "scan_keys s ! unat i = ks" and "length ks = length vs"
    and "unat i < 10" and "arrays_sized s"
  shows "\<exists>s'. NextScans os i (length vs) s = Inr (zip ks (rev vs), s') \<and>
    scan_values s' ! unat i = [] \<and> scan_keys s' ! unat i = [] \<and> arrays_sized s' \<and>
    brk_point_key s' = brk_point_key s"
  using assms
proof (induction vs arbitrary: ks s rule: rev_induct)
  case Nil
  then show ?case by simp
next
  case (snoc v vs)
  then obtain k ks' where ks: "ks = k # ks'" "length ks' = length vs"
    by (cases ks) auto
  obtain s1 where s1: "NextScan os i [] [] s = Inr (1, k, v, s1)" "arrays_sized s1"
    "scan_values s1 = (scan_values s)[unat i := vs]" "scan_keys s1 = (scan_keys s)[unat i := ks']"
    "brk_point_key s1 = brk_point_key s"
    using NextScan_buffered [of s i vs v k ks' os "[]" "[]"] snoc.prems ks by blast
  then have "scan_values s1 ! unat i = vs" "scan_keys s1 ! unat i = ks'"
    using snoc.prems(4,5) by (simp_all add: arrays_sized_def)
  from snoc.IH [OF this ks(2) snoc.prems(4) s1(2)] s1 show ?case
    by (auto simp: ks)
qed

section \<open>Seeking\<close>

text \<open>The device answers a bulk-scan command with the block of \<open>kvs\<close> and the key to go on from.\<close>

definition serves_scan :: "'w os \<Rightarrow> NvmeOpcode \<Rightarrow> u32 \<Rightarrow> (bytes \<times> bytes) list \<Rightarrow> bool" where
  "serves_scan os c nxt kvs \<longleftrightarrow>
     (\<forall>fd cmd data w. cmd_opcode cmd = opcode_of c \<longrightarrow>
        (\<exists>data'. fst (os_ioctl os fd cmd data w) = (0, nxt, Some data') \<and>
           rload data' 0 (length (block_image kvs)) = Inr (block_image kvs)))"

definition scan_code :: "NvmeOpcode \<Rightarrow> bool" where
  "scan_code c \<longleftrightarrow> c = NVME_CMD_KV_RANGE_SCAN_SEEK \<or> c = NVME_CMD_KV_RANGE_SCAN_NEXT"

lemma passthru_scan:
  assumes "serves_scan os c nxt kvs" and "scan_code c"
    and "nvme_passthru os (opcode_of c) fl rs ns c2 c3 c10 c11 c12 c13 c14 c15 dl data s = (reply, s')"
  shows "\<exists>data'. reply = (0, Some nxt, Some data') \<and>
    rload data' 0 (length (block_image kvs)) = Inr (block_image kvs)"
proof -
  have "quiet os (\<lambda>_ _. None)"
    by (simp add: quiet_def)
  from passthru_ioctl [OF this assms(3)] obtain w cmd err res data' where io:
    "cmd_opcode cmd = opcode_of c" "fst (os_ioctl os (ilsm_fd s) cmd data w) = (err, res, data')"
    "fst reply = err" "snd (snd reply) = data'"
    "err = 0 \<longrightarrow> opcode_of c < opcode_of NVME_CMD_KV_LAST \<longrightarrow> fst (snd reply) = Some res"
    by blast
  have lt: "opcode_of c < opcode_of NVME_CMD_KV_LAST"
    using assms(2) by (auto simp: scan_code_def word_less_alt)
  have "\<exists>data'. fst (os_ioctl os (ilsm_fd s) cmd data w) = (0, nxt, Some data') \<and>
      rload data' 0 (length (block_image kvs)) = Inr (block_image kvs)"
    using assms(1) io(1) unfolding serves_scan_def by blast
  then obtain d where d: "(err, res, data') = (0, nxt, Some d)"
    "rload d 0 (length (block_image kvs)) = Inr (block_image kvs)"
    using io(2) by auto
  then have "reply = (0, Some nxt, Some d)"
    using io(3-5) lt by (simp add: prod_eq_iff)
  with d(2) show ?thesis by blast
qed

lemma bulky_reply_image:
  assumes "rload data 0 (length (block_image kvs)) = Inr (block_image kvs)" and "scannable kvs"
    and "i < 10" and "arrays_sized s"
  shows "bulky_reply i (0, Some nxt, Some data) s =
    Inr (sint nxt, Some nxt, s\<lparr>scan_keys := (scan_keys s)[i := scan_keys s ! i @ map fst kvs],
      scan_values := (scan_values s)[i := scan_values s ! i @ map snd kvs]\<rparr>)"
  using parse_block_image [OF assms(1,2), of i "scan_keys s" "scan_values s"] assms(3,4)
  by (simp add: bulky_reply_def NO_SUCH_KEY_def arrays_sized_def)

lemma ucast_opcode [simp]: "ucast (ucast (x :: u8) :: u32) = x"
  by (rule bit_word_eqI) (auto simp: bit_simps)

lemma DoBulkyScan_lists:
  assumes "serves_scan os NVME_CMD_KV_RANGE_SCAN_SEEK nxt kvs" and "scannable kvs" and "mem_ok os"
    and "key = bytes_of ''start'' \<or> 3 \<le> length key" and "unat i < 10" and "arrays_sized s"
  shows "\<exists>s'. DoBulkyScan os (ucast (opcode_of NVME_CMD_KV_RANGE_SCAN_SEEK)) i key s =
      Inr (sint nxt, Some nxt, s') \<and>
    scan_keys s' = (scan_keys s)[unat i := scan_keys s ! unat i @ map fst kvs] \<and>
    scan_values s' = (scan_values s)[unat i := scan_values s ! unat i @ map snd kvs] \<and>
    scan_cnt s' = scan_cnt s \<and> brk_point_key s' = brk_point_key s \<and>
    iter_keys s' = iter_keys s \<and> iter_values s' = iter_values s \<and>
    buffering_info s' = buffering_info s"
proof -
  obtain ok s1 where m: "memalign os MAX_BUFLEN s = (ok, s1)"
    by fastforce
  have ok: ok
    using memalign_ok [OF assms(3) m] .
  obtain cdw10 where k: "(if key \<noteq> bytes_of ''start'' then bindO (c_str4 key) (\<lambda>k. Inr (le_word32 k))
      else Inr 0) = Inr cdw10"
    using assms(4) by (cases "key = bytes_of ''start''") (auto simp: c_str4_key4)
  obtain reply s2 where p: "nvme_passthru os (opcode_of NVME_CMD_KV_RANGE_SCAN_SEEK) 0 0 NSID 0 0
      cdw10 0 (0xFFFF AND reply_nlb) i 0 0 MAX_BUFLEN (Some (rzero (unat MAX_BUFLEN))) s1 = (reply, s2)"
    by fastforce
  obtain data where r: "reply = (0, Some nxt, Some data)"
    "rload data 0 (length (block_image kvs)) = Inr (block_image kvs)"
    using passthru_scan [OF assms(1) _ p] by (auto simp: scan_code_def)
  have same: "same_scan s s2" and info: "buffering_info s2 = buffering_info s"
    using same_buffers_trans [OF same_buffers_memalign [OF m] same_buffers_passthru [OF p]]
    by (auto simp: same_buffers_def)
  have "DoBulkyScan os (ucast (opcode_of NVME_CMD_KV_RANGE_SCAN_SEEK)) i key s =
      bulky_reply (unat i) reply s2"
    using m ok k p unfolding DoBulkyScan_def by (simp only: Let_def prod.case ucast_opcode bindO_Inr simp_thms if_False)
  then show ?thesis
    using bulky_reply_image [OF r(2) assms(2,5), of s2 nxt] r(1) same
      arrays_sized_same [OF same] assms(6) info by (simp add: same_scan_def)
qed

lemma keys_values_ends:
  assumes "kvs \<noteq> []"
  shows "map fst kvs = fst (hd kvs) # tl (map fst kvs)"
    and "map snd kvs = butlast (map snd kvs) @ [snd (last kvs)]"
proof -
  show "map fst kvs = fst (hd kvs) # tl (map fst kvs)"
    using assms by (cases kvs) simp_all
  have "butlast (map snd kvs) @ [last (map snd kvs)] = map snd kvs"
    using assms by (intro append_butlast_last_id) simp
  then show "map snd kvs = butlast (map snd kvs) @ [snd (last kvs)]"
    using assms by (simp add: last_map)
qed

lemma zip_rev_ends:
  assumes "kvs \<noteq> []"
  shows "zip (map fst kvs) (rev (map snd kvs)) =
    (fst (hd kvs), snd (last kvs)) # zip (tl (map fst kvs)) (rev (butlast (map snd kvs)))"
proof -
  have "rev (map snd kvs) = rev (butlast (map snd kvs) @ [snd (last kvs)])"
    using keys_values_ends(2) [OF assms] by (rule arg_cong)
  then have "zip (map fst kvs) (rev (map snd kvs)) =
      zip (fst (hd kvs) # tl (map fst kvs)) (snd (last kvs) # rev (butlast (map snd kvs)))"
    using keys_values_ends(1) [OF assms] by (simp only: rev_append rev.simps append_Nil append_Cons)
  then show ?thesis
    by (simp only: zip_Cons_Cons)
qed

lemma RangeScan_seek:
  assumes "serves_scan os NVME_CMD_KV_RANGE_SCAN_SEEK nxt kvs" and "scannable kvs" and "mem_ok os"
    and "key = bytes_of ''start'' \<or> 3 \<le> length key" and "unat i < 10" and "arrays_sized s"
  shows "\<exists>s'. RangeScan os (ucast (opcode_of NVME_CMD_KV_RANGE_SCAN_SEEK)) i key s = Inr (nxt, s') \<and>
    arrays_sized s' \<and> scan_keys s' ! unat i = scan_keys s ! unat i @ map fst kvs \<and>
    scan_values s' ! unat i = scan_values s ! unat i @ map snd kvs \<and>
    buffering_info s' = buffering_info s"
proof -
  let ?i = "unat i"
  obtain s1 where b: "DoBulkyScan os (ucast (opcode_of NVME_CMD_KV_RANGE_SCAN_SEEK)) i key s =
      Inr (sint nxt, Some nxt, s1)" and s1:
    "scan_keys s1 = (scan_keys s)[?i := scan_keys s ! ?i @ map fst kvs]"
    "scan_values s1 = (scan_values s)[?i := scan_values s ! ?i @ map snd kvs]"
    "scan_cnt s1 = scan_cnt s" "brk_point_key s1 = brk_point_key s"
    "iter_keys s1 = iter_keys s" "iter_values s1 = iter_values s" "buffering_info s1 = buffering_info s"
    using DoBulkyScan_lists [OF assms] by blast
  let ?cnts = "if sint nxt = -2 \<or> nxt = 0xFFFFFFFF then (scan_cnt s1)[?i := 0xFFFFFFFF] else scan_cnt s1"
  have "RangeScan os (ucast (opcode_of NVME_CMD_KV_RANGE_SCAN_SEEK)) i key s =
      Inr (nxt, s1\<lparr>scan_cnt := ?cnts\<rparr>)"
    using b s1 assms(5,6) unfolding RangeScan_def by (simp add: set_at_def arrays_sized_def del: opcode_of.simps)
  moreover have "arrays_sized (s1\<lparr>scan_cnt := ?cnts\<rparr>)"
    using s1 assms(6) by (simp add: arrays_sized_def)
  ultimately show ?thesis
    using s1 assms(5,6) by (simp add: arrays_sized_def)
qed

text \<open>Seeking puts the first key together with the last value, and the lists hold the rest.\<close>

lemma SeekScan_lists:
  assumes "serves_scan os NVME_CMD_KV_RANGE_SCAN_SEEK nxt kvs" and "scannable kvs" and "kvs \<noteq> []"
    and "mem_ok os" and "key = bytes_of ''start'' \<or> 3 \<le> length key" and "unat i < 10"
    and "arrays_sized s" and "scan_keys s ! unat i = []" and "scan_values s ! unat i = []"
  shows "\<exists>s'. SeekScan os i key value s = Inr (1, fst (hd kvs), snd (last kvs), s') \<and>
    arrays_sized s' \<and> scan_keys s' ! unat i = tl (map fst kvs) \<and>
    scan_values s' ! unat i = butlast (map snd kvs) \<and> brk_point_key s' ! unat i = nxt"
proof -
  let ?i = "unat i"
  obtain t1 s1 where c1: "read_clock os s = (t1, s1)"
    by fastforce
  have s1: "same_scan s s1"
    using same_buffers_clock [OF c1] by (rule same_buffers_scan)
  let ?s2 = "s1\<lparr>scan_cnt := (scan_cnt s1)[?i := 1]\<rparr>"
  have sz: "arrays_sized ?s2"
    using s1 assms(7) by (simp add: arrays_sized_def same_scan_def)
  obtain s4 where s4: "RangeScan os (ucast (opcode_of NVME_CMD_KV_RANGE_SCAN_SEEK)) i key ?s2 = Inr (nxt, s4)"
    and s4': "arrays_sized s4" "scan_keys s4 ! ?i = scan_keys ?s2 ! ?i @ map fst kvs"
    "scan_values s4 ! ?i = scan_values ?s2 ! ?i @ map snd kvs"
    using RangeScan_seek [OF assms(1,2,4,5,6) sz] by blast
  let ?s5 = "s4\<lparr>brk_point_key := (brk_point_key s4)[?i := nxt]\<rparr>"
  have sz5: "arrays_sized ?s5"
    using s4'(1) by (simp add: arrays_sized_def)
  have "scan_keys ?s5 ! ?i = map fst kvs" "scan_values ?s5 ! ?i = map snd kvs"
    using s4' s1 assms(8,9) by (simp_all add: same_scan_def)
  then have l5: "scan_keys ?s5 ! ?i = fst (hd kvs) # tl (map fst kvs)"
    "scan_values ?s5 ! ?i = butlast (map snd kvs) @ [snd (last kvs)]"
    using keys_values_ends [OF assms(3)] by simp_all
  obtain s6 where t: "take_pair True ?i ?s5 = Inr (fst (hd kvs), snd (last kvs), s6)" and s6:
    "arrays_sized s6" "scan_values s6 = (scan_values ?s5)[?i := butlast (map snd kvs)]"
    "scan_keys s6 = (scan_keys ?s5)[?i := tl (map fst kvs)]" "brk_point_key s6 = brk_point_key ?s5"
    using take_pair_lists [OF l5(2,1) assms(6) sz5, of True] by blast
  have inner: "SeekScan_inner os i key value s1 = Inr (1, fst (hd kvs), snd (last kvs), s6)"
    using s4 t sz sz5 l5(2) assms(6) by (simp add: SeekScan_inner_def set_at_def arrays_sized_def Let_def)
  obtain t2 s7 where c2: "read_clock os s6 = (t2, s7)"
    by fastforce
  let ?s' = "finishOp Op_Seek (t2 - t1) s7"
  have b2: "same_scan s6 ?s'"
    by (rule same_buffers_scan [OF same_buffers_trans [OF same_buffers_clock [OF c2] same_buffers_finishOp]])
  have "SeekScan os i key value s = Inr (1, fst (hd kvs), snd (last kvs), ?s')"
    using c1 inner c2 by (simp add: SeekScan_def)
  moreover have "arrays_sized ?s'"
    using arrays_sized_same [OF b2] s6(1) by simp
  ultimately show ?thesis
    using b2 s6 sz5 assms(6) by (auto simp: same_scan_def arrays_sized_def)
qed

text \<open>Seeking in an empty range.\<close>

lemma SeekScan_empty:
  assumes "serves_scan os NVME_CMD_KV_RANGE_SCAN_SEEK nxt []" and "mem_ok os"
    and "key = bytes_of ''start'' \<or> 3 \<le> length key" and "unat i < 10"
    and "arrays_sized s" and "scan_keys s ! unat i = []" and "scan_values s ! unat i = []"
  shows "\<exists>s'. SeekScan os i key value s = Inr (-2, key, value, s') \<and> arrays_sized s' \<and>
    scan_keys s' ! unat i = [] \<and> scan_values s' ! unat i = [] \<and> buffering_info s' = buffering_info s"
proof -
  let ?i = "unat i"
  obtain t1 s1 where c1: "read_clock os s = (t1, s1)"
    by fastforce
  have s1: "same_scan s s1" "buffering_info s1 = buffering_info s"
    using same_buffers_clock [OF c1] by (auto simp: same_buffers_def)
  let ?s2 = "s1\<lparr>scan_cnt := (scan_cnt s1)[?i := 1]\<rparr>"
  have sz: "arrays_sized ?s2"
    using s1 assms(5) by (simp add: arrays_sized_def same_scan_def)
  have "scannable []"
    by (simp add: scannable_def)
  then obtain s4 where s4: "RangeScan os (ucast (opcode_of NVME_CMD_KV_RANGE_SCAN_SEEK)) i key ?s2 = Inr (nxt, s4)"
    "arrays_sized s4" "scan_keys s4 ! ?i = scan_keys ?s2 ! ?i" "scan_values s4 ! ?i = scan_values ?s2 ! ?i"
    "buffering_info s4 = buffering_info ?s2"
    using RangeScan_seek [OF assms(1) _ assms(2-4) sz] by auto
  let ?s5 = "s4\<lparr>brk_point_key := (brk_point_key s4)[?i := nxt]\<rparr>"
  have s5: "arrays_sized ?s5" "scan_keys ?s5 ! ?i = []" "scan_values ?s5 ! ?i = []"
    "buffering_info ?s5 = buffering_info s"
    using s4 s1 assms(6,7) by (simp_all add: arrays_sized_def same_scan_def)
  have inner: "SeekScan_inner os i key value s1 = Inr (-2, key, value, ?s5)"
    using s4(1,2) s5 sz assms(4)
    by (simp add: SeekScan_inner_def set_at_def arrays_sized_def Let_def del: opcode_of.simps)
  obtain t2 s6 where c2: "read_clock os ?s5 = (t2, s6)"
    by fastforce
  let ?s' = "finishOp Op_Seek (t2 - t1) s6"
  have b: "same_buffers ?s5 ?s'"
    by (rule same_buffers_trans [OF same_buffers_clock [OF c2] same_buffers_finishOp])
  have "SeekScan os i key value s = Inr (-2, key, value, ?s')"
    using c1 inner c2 by (simp add: SeekScan_def)
  moreover have "arrays_sized ?s'"
    using arrays_sized_same [OF same_buffers_scan [OF b]] s5(1) by simp
  moreover have "scan_keys ?s' ! ?i = []" "scan_values ?s' ! ?i = []" "buffering_info ?s' = buffering_info s"
    using b s5 by (simp_all add: same_buffers_def same_scan_def)
  ultimately show ?thesis by blast
qed

section \<open>Properties\<close>

text \<open>
  On a fully written reply block of 508 KB the header loop, bounded by 43691
  rounds of 8 bytes, and the terminator check after it stay inside the block, whatever the device
  wrote; the iterator gains one key per length read.
\<close>

theorem header_in_bounds:
  assumes "rsize data = unat MAX_BUFLEN" and "\<forall>i<rsize data. rbytes data i \<noteq> None"
    and "i < length keys"
  shows "\<exists>lens ks x. key_loop data MAX_CMD_NUM i 0 keys =
      Inr (lens, 8 * length lens, keys[i := keys ! i @ ks]) \<and>
    length ks = length lens \<and> length lens \<le> MAX_CMD_NUM \<and>
    rload32 data (8 * length lens) = Inr x"
proof -
  have sz: "rsize data = 520192" "MAX_CMD_NUM = 43691"
    using assms(1) by (simp_all add: MAX_BUFLEN_def MAX_CMD_NUM_def)
  obtain lens ks where l: "key_loop data MAX_CMD_NUM i 0 keys =
      Inr (lens, 0 + 8 * length lens, keys[i := keys ! i @ ks])"
    "length ks = length lens" "length lens \<le> MAX_CMD_NUM"
    using key_loop_total [OF assms(2) _ assms(3), of 0 MAX_CMD_NUM] sz by auto
  moreover obtain x where "rload32 data (8 * length lens) = Inr x"
    using rload_full [OF assms(2), of "8 * length lens" 4] l(3) sz by (auto dest: rload32_word)
  ultimately show ?thesis by auto
qed

definition image_region :: "bytes \<Rightarrow> region" where
  "image_region bs =
     \<lparr>rsize = 520192, rbytes = (\<lambda>i. Some (if i < length bs then bs ! i else 0))\<rparr>"

lemma image_region_load: "length bs \<le> 520192 \<Longrightarrow> rload (image_region bs) 0 (length bs) = Inr bs"
  by (simp add: rload_eq_Inr image_region_def)

theorem header_in_bounds_witness:
  "\<exists>lens ks. key_loop (image_region []) MAX_CMD_NUM 0 0 [[]] = Inr (lens, 8 * length lens, [ks])"
  using header_in_bounds [of "image_region []" 0 "[[]]"] by (auto simp: image_region_def MAX_BUFLEN_def)

text \<open>
  Claim C30 (roundtrip).  Parsing a block laid out as the comments describe gives back exactly its
  pairs: the iterator's key list gains the keys in order and its value list the values in order.
\<close>

theorem parse_block_roundtrip:
  assumes "scannable kvs" and "length (block_image kvs) \<le> 520192"
    and "i < length keys" and "i < length vals"
  shows "parse_block (image_region (block_image kvs)) i keys vals =
    Inr (keys[i := keys ! i @ map fst kvs], vals[i := vals ! i @ map snd kvs])"
  by (rule parse_block_image [OF image_region_load [OF assms(2)] assms(1,3,4)])

definition two_pairs :: "(bytes \<times> bytes) list" where
  "two_pairs = [([1, 0, 0, 0], [10]), ([2, 0, 0, 0], [20])]"

lemma two_pairs_scannable: "scannable two_pairs" "length (block_image two_pairs) = 12288"
  by (simp_all add: scannable_def two_pairs_def block_image_def header_def span_def)

theorem parse_block_roundtrip_witness:
  "parse_block (image_region (block_image two_pairs)) 0 [[]] [[]] =
     Inr ([[[1, 0, 0, 0], [2, 0, 0, 0]]], [[[10], [20]]])"
  using parse_block_roundtrip [of two_pairs 0 "[[]]" "[[]]"] two_pairs_scannable
  by (simp add: two_pairs_def)

text \<open>
  Claim C23 (functional).  A seek followed by \<open>NextScan\<close> calls hands out the keys of the block in
  order but the values in reverse order: the key at position \<open>j\<close> of \<open>n\<close> comes with the value of
  position \<open>n - 1 - j\<close>, so a key comes with its own value only in the middle of the block.
\<close>

theorem scan_pairs_values_reversed:
  assumes "serves_scan os NVME_CMD_KV_RANGE_SCAN_SEEK nxt kvs" and "scannable kvs" and "kvs \<noteq> []"
    and "mem_ok os" and "key = bytes_of ''start'' \<or> 3 \<le> length key" and "unat i < 10"
    and "arrays_sized s" and "scan_keys s ! unat i = []" and "scan_values s ! unat i = []"
  shows "\<exists>k v s1 rest s2. SeekScan os i key value s = Inr (1, k, v, s1) \<and>
    NextScans os i (length kvs - 1) s1 = Inr (rest, s2) \<and>
    (k, v) # rest = zip (map fst kvs) (rev (map snd kvs)) \<and>
    scan_keys s2 ! unat i = [] \<and> scan_values s2 ! unat i = [] \<and> brk_point_key s2 ! unat i = nxt"
proof -
  obtain s1 where s1: "SeekScan os i key value s = Inr (1, fst (hd kvs), snd (last kvs), s1)"
    "arrays_sized s1" "scan_keys s1 ! unat i = tl (map fst kvs)"
    "scan_values s1 ! unat i = butlast (map snd kvs)" "brk_point_key s1 ! unat i = nxt"
    using SeekScan_lists [OF assms] by blast
  obtain s2 where s2: "NextScans os i (length (butlast (map snd kvs))) s1 =
      Inr (zip (tl (map fst kvs)) (rev (butlast (map snd kvs))), s2)"
    "scan_values s2 ! unat i = []" "scan_keys s2 ! unat i = []" "brk_point_key s2 = brk_point_key s1"
    using NextScans_drain [OF s1(4,3) _ assms(6) s1(2), of os] by auto
  have "zip (map fst kvs) (rev (map snd kvs)) =
      (fst (hd kvs), snd (last kvs)) # zip (tl (map fst kvs)) (rev (butlast (map snd kvs)))"
    by (rule zip_rev_ends [OF assms(3)])
  then show ?thesis
    using s1(1,5) s2 by auto
qed

text \<open>A device whose scans find two pairs and nothing after them.\<close>

definition two_pairs_os :: "unit os" where
  "two_pairs_os = ok_os\<lparr>os_ioctl := (\<lambda>_ _ _ w.
     ((0, 0xFFFFFFFF, Some (image_region (block_image two_pairs))), w))\<rparr>"

lemma two_pairs_serves:
  "serves_scan two_pairs_os NVME_CMD_KV_RANGE_SCAN_SEEK 0xFFFFFFFF two_pairs" "mem_ok two_pairs_os"
  using image_region_load [of "block_image two_pairs"] two_pairs_scannable(2)
  by (simp_all add: serves_scan_def two_pairs_os_def mem_ok_def ok_os_def)

theorem scan_pairs_values_reversed_witness:
  "\<exists>s1 s2. SeekScan two_pairs_os 0 (bytes_of ''start'') [] (ilsm_new ()) = Inr (1, [1, 0, 0, 0], [20], s1) \<and>
     NextScans two_pairs_os 0 1 s1 = Inr ([([2, 0, 0, 0], [10])], s2)"
proof -
  have "scan_keys (ilsm_new ()) ! unat (0 :: u32) = []" "scan_values (ilsm_new ()) ! unat (0 :: u32) = []"
    by (simp_all add: ilsm_new_def MAX_ITERATOR_NUM_def)
  from scan_pairs_values_reversed [OF two_pairs_serves(1) two_pairs_scannable(1) _ two_pairs_serves(2)
      _ _ arrays_sized_new this, of "bytes_of ''start''" "[]"]
  show ?thesis
    by (auto simp: two_pairs_def)
qed

text \<open>
  Whenever the device rejects a bulk scan or finds no key for it, \<open>RangeScan\<close>
  copies its local \<open>next\<close>, which nothing has assigned: \<open>SeekScan\<close> never returns a missing key to its
  caller that way.
\<close>

theorem SeekScan_error_uninit:
  assumes "\<forall>fd cmd data w. fst (fst (os_ioctl os fd cmd data w)) < 0 \<or>
      fst (fst (os_ioctl os fd cmd data w)) = NO_SUCH_KEY"
    and "mem_ok os" and "key = bytes_of ''start'' \<or> 3 \<le> length key" and "unat i < 10"
    and "arrays_sized s"
  shows "SeekScan os i key value s = Inl Uninit_Read"
proof -
  obtain t1 s1 where c1: "read_clock os s = (t1, s1)"
    by fastforce
  have sz: "arrays_sized s1"
    using arrays_sized_same [OF same_buffers_scan [OF same_buffers_clock [OF c1]]] assms(5) by simp
  let ?s2 = "s1\<lparr>scan_cnt := (scan_cnt s1)[unat i := 1]\<rparr>"
  obtain ok s3 where m: "memalign os MAX_BUFLEN ?s2 = (ok, s3)"
    by fastforce
  have ok: ok
    using memalign_ok [OF assms(2) m] .
  obtain cdw10 where k: "(if key \<noteq> bytes_of ''start'' then bindO (c_str4 key) (\<lambda>k. Inr (le_word32 k))
      else Inr 0) = Inr cdw10"
    using assms(3) by (cases "key = bytes_of ''start''") (auto simp: c_str4_key4)
  obtain reply s4 where p: "nvme_passthru os (opcode_of NVME_CMD_KV_RANGE_SCAN_SEEK) 0 0 NSID 0 0
      cdw10 0 (0xFFFF AND reply_nlb) i 0 0 MAX_BUFLEN (Some (rzero (unat MAX_BUFLEN))) s3 = (reply, s4)"
    by fastforce
  have "quiet os (\<lambda>_ _. None)"
    by (simp add: quiet_def)
  from passthru_ioctl [OF this p] have "fst reply < 0 \<or> fst reply = NO_SUCH_KEY"
    using assms(1) by (metis fst_conv)
  then have "\<exists>r. bulky_reply (unat i) reply s4 = Inr (r, None, s4)"
    by (auto simp: bulky_reply_def Let_def split: prod.splits)
  moreover have "DoBulkyScan os (ucast (opcode_of NVME_CMD_KV_RANGE_SCAN_SEEK)) i key ?s2 =
      bulky_reply (unat i) reply s4"
    using m ok k p unfolding DoBulkyScan_def by (simp only: Let_def prod.case ucast_opcode bindO_Inr simp_thms if_False)
  ultimately have "RangeScan os (ucast (opcode_of NVME_CMD_KV_RANGE_SCAN_SEEK)) i key ?s2 = Inl Uninit_Read"
    using sz assms(4) unfolding RangeScan_def by (auto simp: arrays_sized_def simp del: opcode_of.simps)
  then show ?thesis
    using c1 sz assms(4)
    by (simp add: SeekScan_def SeekScan_inner_def set_at_def arrays_sized_def Let_def del: opcode_of.simps)
qed

theorem SeekScan_error_uninit_witness:
  "SeekScan failing_os 0 (bytes_of ''start'') [] (ilsm_new ()) = Inl Uninit_Read"
  by (rule SeekScan_error_uninit) (simp_all add: failing_os_def ok_os_def mem_ok_def)

end
