(* ===== verification/Bloom_Filter.thy ===== *)
theory Bloom_Filter
  imports KV_Prelude
begin

text \<open>
  Key hashing and the counting Bloom filter of \<open>db_impl_master.cc\<close> and \<open>db_master.h\<close>.
  \<open>MurmurHash3_x64_128\<close> comes from RocksDB and is the parameter \<open>murmur\<close>, taking the four bytes it
  is asked to hash to its two 64-bit halves.
\<close>

section \<open>Operations\<close>

type_synonym murmur = "bytes \<Rightarrow> u64 \<times> u64"

definition double_hash :: "murmur \<Rightarrow> bytes \<Rightarrow> int \<Rightarrow> u64 outcome" where
  "double_hash murmur key n =
     bindO (c_str4 key) (\<lambda>k. let (h0, h1) = murmur k in Inr (h0 + of_int n * h1))"

definition BLOOM_FILTER_SIZE :: nat where "BLOOM_FILTER_SIZE = 200000000"
definition HASH_FUNCTION :: nat where "HASH_FUNCTION = 8"

text \<open>
  The array of \<open>BLOOM_FILTER_SIZE\<close> counters.  The code indexes it with the full 64-bit hash, which
  is inside the array for fewer than one hash in \<open>9 * 10 ^ 10\<close>.
\<close>

record BloomFilter =
  bit_array :: "nat \<Rightarrow> u64"

definition bf_index :: "u64 \<Rightarrow> nat outcome" where
  "bf_index hash = (if unat hash < BLOOM_FILTER_SIZE then Inr (unat hash) else Inl Out_Of_Bounds)"

definition bloom_filter_init :: "BloomFilter \<Rightarrow> BloomFilter" where
  "bloom_filter_init f = f\<lparr>bit_array := (\<lambda>i. if i < BLOOM_FILTER_SIZE then 0 else bit_array f i)\<rparr>"

text \<open>The loops run over \<open>i = 0, ..., HASH_FUNCTION - 1\<close>; the list holds the values still to come.\<close>

fun bf_add_loop :: "murmur \<Rightarrow> bytes \<Rightarrow> nat list \<Rightarrow> BloomFilter \<Rightarrow> BloomFilter outcome" where
  "bf_add_loop murmur key [] f = Inr f"
| "bf_add_loop murmur key (i # is) f =
     bindO (double_hash murmur key (int i)) (\<lambda>hash.
     bindO (bf_index hash) (\<lambda>j.
       bf_add_loop murmur key is (f\<lparr>bit_array := (bit_array f)(j := bit_array f j + 1)\<rparr>)))"

definition bloom_filter_add :: "murmur \<Rightarrow> BloomFilter \<Rightarrow> bytes \<Rightarrow> BloomFilter outcome" where
  "bloom_filter_add murmur f key = bf_add_loop murmur key [0..<HASH_FUNCTION] f"

fun bf_check_loop :: "murmur \<Rightarrow> bytes \<Rightarrow> nat list \<Rightarrow> BloomFilter \<Rightarrow> int outcome" where
  "bf_check_loop murmur key [] f = Inr 0"
| "bf_check_loop murmur key (i # is) f =
     bindO (double_hash murmur key (int i)) (\<lambda>hash.
     bindO (bf_index hash) (\<lambda>j.
       if bit_array f j > 0 then Inr 1 else bf_check_loop murmur key is f))"

definition bloom_filter_check :: "murmur \<Rightarrow> BloomFilter \<Rightarrow> bytes \<Rightarrow> int outcome" where
  "bloom_filter_check murmur f key = bf_check_loop murmur key [0..<HASH_FUNCTION] f"

fun bf_delete_loop :: "murmur \<Rightarrow> bytes \<Rightarrow> nat list \<Rightarrow> BloomFilter \<Rightarrow> BloomFilter outcome" where
  "bf_delete_loop murmur key [] f = Inr f"
| "bf_delete_loop murmur key (i # is) f =
     bindO (double_hash murmur key (int i)) (\<lambda>hash.
     bindO (bf_index hash) (\<lambda>j.
       bf_delete_loop murmur key is
         (if bit_array f j > 0 then f\<lparr>bit_array := (bit_array f)(j := bit_array f j - 1)\<rparr> else f)))"

definition bloom_filter_delete :: "murmur \<Rightarrow> BloomFilter \<Rightarrow> bytes \<Rightarrow> BloomFilter outcome" where
  "bloom_filter_delete murmur f key = bf_delete_loop murmur key [0..<HASH_FUNCTION] f"

section \<open>Hashing\<close>

text \<open>Keys that agree on their first four bytes have the same hashes.\<close>

lemma double_hash_prefix:
  "4 \<le> length a \<Longrightarrow> 4 \<le> length b \<Longrightarrow> take 4 a = take 4 b \<Longrightarrow> double_hash murmur a n = double_hash murmur b n"
  by (simp add: double_hash_def c_str4_long)

lemma double_hash_total: "3 \<le> length key \<Longrightarrow> \<exists>h. double_hash murmur key n = Inr h"
  by (simp add: double_hash_def c_str4_def split_beta Let_def)

section \<open>The filter as counters\<close>

text \<open>
  When every hash of the key lies in the array, the loops are folds over the slots it selects.
\<close>

definition bump :: "(u64 \<Rightarrow> u64) \<Rightarrow> nat list \<Rightarrow> BloomFilter \<Rightarrow> BloomFilter" where
  "bump g js f = foldl (\<lambda>f j. f\<lparr>bit_array := (bit_array f)(j := g (bit_array f j))\<rparr>) f js"

definition slot_of :: "murmur \<Rightarrow> bytes \<Rightarrow> nat \<Rightarrow> nat" where
  "slot_of murmur key i = (case double_hash murmur key (int i) of Inr h \<Rightarrow> unat h | Inl _ \<Rightarrow> 0)"

definition slot_ok :: "murmur \<Rightarrow> bytes \<Rightarrow> nat \<Rightarrow> bool" where
  "slot_ok murmur key i \<longleftrightarrow> (\<exists>h. double_hash murmur key (int i) = Inr h \<and> unat h < BLOOM_FILTER_SIZE)"

lemma slot_ok_step:
  "slot_ok murmur key i \<Longrightarrow>
   bindO (double_hash murmur key (int i)) (\<lambda>hash. bindO (bf_index hash) f) = f (slot_of murmur key i)"
  by (auto simp: slot_ok_def slot_of_def bf_index_def)

definition dec :: "u64 \<Rightarrow> u64" where
  "dec c = (if c > 0 then c - 1 else c)"

lemma add_loop_bump:
  "\<forall>i\<in>set is. slot_ok murmur key i \<Longrightarrow>
   bf_add_loop murmur key is f = Inr (bump (\<lambda>c. c + 1) (map (slot_of murmur key) is) f)"
  by (induction "is" arbitrary: f) (simp_all add: slot_ok_step bump_def)

lemma delete_loop_bump:
  "\<forall>i\<in>set is. slot_ok murmur key i \<Longrightarrow>
   bf_delete_loop murmur key is f = Inr (bump dec (map (slot_of murmur key) is) f)"
proof (induction "is" arbitrary: f)
  case Nil
  then show ?case by (simp add: bump_def)
next
  case (Cons i "is")
  let ?j = "slot_of murmur key i"
  have "(if bit_array f ?j > 0 then f\<lparr>bit_array := (bit_array f)(?j := bit_array f ?j - 1)\<rparr> else f) =
      f\<lparr>bit_array := (bit_array f)(?j := dec (bit_array f ?j))\<rparr>"
    by (simp add: dec_def)
  with Cons show ?case
    by (simp add: slot_ok_step bump_def)
qed

lemma check_loop_any:
  "\<forall>i\<in>set is. slot_ok murmur key i \<Longrightarrow>
   bf_check_loop murmur key is f =
     Inr (if \<exists>i\<in>set is. bit_array f (slot_of murmur key i) > 0 then 1 else 0)"
  by (induction "is") (simp_all add: slot_ok_step)

lemma bump_count:
  "bit_array (bump (\<lambda>c. c + 1) js f) j = bit_array f j + of_nat (count_list js j)"
  by (induction js arbitrary: f) (simp_all add: bump_def)

lemma bump_dec_count:
  "count_list js j \<le> unat (bit_array f j) \<Longrightarrow>
   bit_array (bump dec js f) j = bit_array f j - of_nat (count_list js j)"
proof (induction js arbitrary: f)
  case Nil
  then show ?case by (simp add: bump_def)
next
  case (Cons k js)
  let ?f = "f\<lparr>bit_array := (bit_array f)(k := dec (bit_array f k))\<rparr>"
  show ?case
  proof (cases "k = j")
    case True
    then have pos: "0 < unat (bit_array f j)" "Suc (count_list js j) \<le> unat (bit_array f j)"
      using Cons.prems by auto
    then have "bit_array f j > 0"
      by (simp add: word_less_nat_alt)
    then have "count_list js j \<le> unat (bit_array ?f j)"
      using True pos(2) by (simp add: dec_def unat_minus_one)
    with Cons.IH [of ?f] True \<open>bit_array f j > 0\<close> show ?thesis
      by (simp add: bump_def dec_def)
  next
    case False
    with Cons.IH [of ?f] Cons.prems show ?thesis
      by (simp add: bump_def)
  qed
qed

lemma count_list_le: "count_list xs x \<le> length xs"
  by (induction xs) auto

text \<open>
  While every hash of the key falls inside the array and no counter is within
  eight of its maximum, adding a key makes the check report it and deleting it again restores every
  counter.
\<close>

theorem bloom_add_delete_roundtrip:
  assumes "\<forall>i<HASH_FUNCTION. slot_ok murmur key i"
    and "\<forall>j. unat (bit_array f j) < 18446744073709551608"
  shows "\<exists>f'. bloom_filter_add murmur f key = Inr f' \<and> bloom_filter_check murmur f' key = Inr 1 \<and>
    bloom_filter_delete murmur f' key = Inr f"
proof -
  let ?js = "map (slot_of murmur key) [0..<HASH_FUNCTION]"
  let ?f = "bump (\<lambda>c. c + 1) ?js f"
  have ok: "\<forall>i\<in>set [0..<HASH_FUNCTION]. slot_ok murmur key i"
    using assms(1) by simp
  have cnt: "count_list ?js j \<le> 8" for j
    using count_list_le [of ?js j] by (simp add: HASH_FUNCTION_def)
  have up: "unat (bit_array ?f j) = unat (bit_array f j) + count_list ?js j" for j
    using assms(2) [rule_format, of j] cnt [of j]
    by (simp add: bump_count unat_word_ariths unat_of_nat64)
  have "slot_of murmur key 0 \<in> set ?js"
    by (simp add: HASH_FUNCTION_def)
  then have "0 < count_list ?js (slot_of murmur key 0)"
    using count_list_0_iff by fastforce
  then have "bit_array ?f (slot_of murmur key 0) > 0"
    using up [of "slot_of murmur key 0"] by (simp add: word_less_nat_alt)
  then have check: "bloom_filter_check murmur ?f key = Inr 1"
    using check_loop_any [OF ok, of ?f] by (auto simp: bloom_filter_check_def HASH_FUNCTION_def)
  have "bit_array (bump dec ?js ?f) j = bit_array f j" for j
    using bump_dec_count [of ?js j ?f] up [of j] by (simp add: bump_count)
  then have "bump dec ?js ?f = f"
    by (cases f, cases "bump dec ?js ?f") (auto simp: fun_eq_iff)
  then show ?thesis
    using check add_loop_bump [OF ok, of f] delete_loop_bump [OF ok, of ?f]
    by (simp add: bloom_filter_add_def bloom_filter_delete_def)
qed

theorem bloom_add_delete_roundtrip_witness:
  "\<exists>f'. bloom_filter_add (\<lambda>_. (5, 1)) \<lparr>bit_array = (\<lambda>_. 0)\<rparr> (bytes_of ''key1'') = Inr f' \<and>
     bloom_filter_check (\<lambda>_. (5, 1)) f' (bytes_of ''key1'') = Inr 1"
proof -
  have "double_hash (\<lambda>_. (5, 1)) (bytes_of ''key1'') (int i) = Inr (of_nat (5 + i))" for i
    by (simp add: double_hash_def c_str4_def)
  then have "\<forall>i<HASH_FUNCTION. slot_ok (\<lambda>_. (5, 1)) (bytes_of ''key1'') i"
    by (auto simp: slot_ok_def BLOOM_FILTER_SIZE_def HASH_FUNCTION_def unat_of_nat64 simp del: of_nat_add)
  then show ?thesis
    using bloom_add_delete_roundtrip [of "\<lambda>_. (5, 1)" "bytes_of ''key1''" "\<lparr>bit_array = (\<lambda>_. 0)\<rparr>"]
    by auto
qed

text \<open>The hash is not reduced to the size of the array.\<close>

lemma bloom_unreduced_index:
  assumes "c_str4 key = Inr k" and "murmur k = (h0, h1)" and "BLOOM_FILTER_SIZE \<le> unat h0"
  shows "bloom_filter_add murmur f key = Inl Out_Of_Bounds"
    and "bloom_filter_check murmur f key = Inl Out_Of_Bounds"
  using assms
  by (simp_all add: bloom_filter_add_def bloom_filter_check_def HASH_FUNCTION_def double_hash_def
      bf_index_def upt_rec)

end
