(* ===== verification/Db_Master.thy ===== *)
theory Db_Master
  imports Hash_Map ILSM_Scan Bloom_Filter
begin

text \<open>
  The object that joins both stores, \<open>DB_MASTER\<close> of \<open>db_impl_master.cc\<close> and \<open>db_master.h\<close>: opening,
  the write and read paths, the stall monitor and destruction.  RocksDB (the Main-LSM) is not part of
  the repository and is the parameter \<open>rdb\<close>; the device driver (the Dev-LSM) is the model of
  \<open>iLSM.cc\<close>.  Each operation is one atomic step here; how the locks make that so is the subject of
  the theory of the locking protocol.  The vectors of operation times are written and never read by
  the code that is compiled, and are left out.
\<close>

section \<open>RocksDB and the options it takes\<close>

datatype Status = OK | NotFound | NotSupported | OtherError

record Options =
  level0_stop_writes_trigger :: int
  level0_file_num_compaction_trigger :: int
  write_buffer_size :: u64
  max_write_buffer_number :: int
  soft_pending_compaction_bytes_limit :: u64
  hard_pending_compaction_bytes_limit :: u64

text \<open>
  \<open>rdb_open\<close> gives the status and the database, or no database on failure; \<open>rdb_property\<close> is \<open>None\<close>
  when \<open>GetProperty\<close> returns false and leaves its output string alone.
\<close>

record ('w, 'm) rocksdb =
  rdb_open :: "Options \<Rightarrow> bytes \<Rightarrow> 'w \<Rightarrow> (Status \<times> 'm option) \<times> 'w"
  rdb_put :: "bytes \<Rightarrow> bytes \<Rightarrow> 'm \<Rightarrow> Status \<times> 'm"
  rdb_get :: "bytes \<Rightarrow> 'm \<Rightarrow> Status \<times> bytes"
  rdb_property :: "bytes \<Rightarrow> 'm \<Rightarrow> bytes option"
  rdb_name :: "'m \<Rightarrow> bytes"
  rdb_destroy :: "bytes \<Rightarrow> Options \<Rightarrow> 'w \<Rightarrow> Status \<times> 'w"

section \<open>Numbers in strings\<close>

definition is_space :: "u8 \<Rightarrow> bool" where
  "is_space c \<longleftrightarrow> c = 32 \<or> (9 \<le> c \<and> c \<le> 13)"

definition is_digit :: "u8 \<Rightarrow> bool" where
  "is_digit c \<longleftrightarrow> 48 \<le> c \<and> c \<le> 57"

definition digits_val :: "bytes \<Rightarrow> nat" where
  "digits_val ds = foldl (\<lambda>n c. 10 * n + unat (c - 48)) 0 ds"

text \<open>Sign and magnitude of the number at the start of a string, as \<open>strtol\<close> and \<open>strtoull\<close> read it.\<close>

definition scan_number :: "bytes \<Rightarrow> (bool \<times> nat) option" where
  "scan_number s =
     (let s = dropWhile is_space s;
          neg = (s \<noteq> [] \<and> hd s = 45);
          s = (if s \<noteq> [] \<and> (hd s = 45 \<or> hd s = 43) then tl s else s);
          ds = takeWhile is_digit s
      in if ds = [] then None else Some (neg, digits_val ds))"

definition int_range :: "int \<Rightarrow> bool" where
  "int_range i \<longleftrightarrow> - 2147483648 \<le> i \<and> i < 2147483648"

definition stoi :: "bytes \<Rightarrow> int outcome" where
  "stoi s =
     (case scan_number s of
        None \<Rightarrow> Inl Invalid_Argument
      | Some (neg, n) \<Rightarrow> let i = (if neg then - int n else int n)
                        in if int_range i then Inr i else Inl Out_Of_Range)"

definition stoull :: "bytes \<Rightarrow> u64 outcome" where
  "stoull s =
     (case scan_number s of
        None \<Rightarrow> Inl Invalid_Argument
      | Some (neg, n) \<Rightarrow> if n < 18446744073709551616 then Inr (if neg then - of_nat n else of_nat n)
                        else Inl Out_Of_Range)"

fun to_string :: "nat \<Rightarrow> bytes" where
  "to_string n = (if n < 10 then [48 + of_nat n] else to_string (n div 10) @ [48 + of_nat (n mod 10)])"

declare to_string.simps [simp del]

section \<open>The object\<close>

datatype Level = LEVEL_ZERO | LEVEL_LOW | LEVEL_MIDDLE | LEVEL_HIGH

text \<open>
  \<open>dbptr\<close> is element 0 of \<open>dbptr_array\<close>, the only one \<open>Open\<close> admits.  \<open>checker_set\<close> tells whether the
  file-level \<open>checker\<close> differs from -1, and \<open>rollback_threads\<close> counts the roll-back threads started.
\<close>

record ('w, 'm) master =
  ilsm_db :: "'w ilsm"
  dbptr :: "'m option"
  keyTracker :: "bytes hash_map"
  num_instances :: int
  kache_flag :: int
  rollback_flag :: int
  monitor_L0_status_arr :: Level
  rollback_status :: int
  L0_high :: int
  l0_stop_trigger :: int
  l0_compaction_trigger :: int
  set_memtalbe_size :: u64
  total_memtable_size :: u64
  soft_limit :: u64
  hard_limit :: u64
  ilsm_iter_id :: u32
  iter_location :: u32
  shouldExit :: bool
  rollback_should_exit :: bool
  checker_set :: bool
  rollback_threads :: nat

text \<open>The objects are globals, so the members the constructor does not mention start as zero.\<close>

definition master_new :: "'w \<Rightarrow> ('w, 'm) master" where
  "master_new w =
     \<lparr>ilsm_db = ilsm_new w, dbptr = None, keyTracker = hm_new, num_instances = 0, kache_flag = 0,
      rollback_flag = 0, monitor_L0_status_arr = LEVEL_ZERO, rollback_status = 0, L0_high = 0,
      l0_stop_trigger = 0, l0_compaction_trigger = 0, set_memtalbe_size = 0, total_memtable_size = 0,
      soft_limit = 0, hard_limit = 0, ilsm_iter_id = 0, iter_location = 0, shouldExit = False,
      rollback_should_exit = False, checker_set = False, rollback_threads = 0\<rparr>"

section \<open>Opening and destroying\<close>

text \<open>The loop over the instances, with \<open>num_instances = 1\<close>, opens one database.\<close>

definition open_instances ::
  "('w, 'm) rocksdb \<Rightarrow> Options \<Rightarrow> bytes \<Rightarrow> ('w, 'm) master \<Rightarrow> Status \<times> ('w, 'm) master" where
  "open_instances rdb options name s =
     (let ((st, db), w) = rdb_open rdb options (name @ to_string 0) (world (ilsm_db s))
      in (st, s\<lparr>dbptr := db, ilsm_db := (ilsm_db s)\<lparr>world := w\<rparr>\<rparr>))"

definition master_Open ::
  "('w, 'm) rocksdb \<Rightarrow> 'w os \<Rightarrow> Options \<Rightarrow> bytes \<Rightarrow> int \<Rightarrow> ('w, 'm) master \<Rightarrow> Status \<times> ('w, 'm) master" where
  "master_Open rdb os options name n_instances s =
     (if n_instances \<noteq> 1 then (NotSupported, s)
      else
        let s = s\<lparr>num_instances := n_instances, kache_flag := 0, rollback_flag := 0,
                  keyTracker := (keyTracker s)\<lparr>hm_count := 0\<rparr>\<rparr>;
            (ret_val, s) = open_instances rdb options name s;
            (_, d) = Open os (bytes_of ''/dev/nvme1n1'') (ilsm_db s);
            s = s\<lparr>ilsm_db := d,
                  l0_stop_trigger := level0_stop_writes_trigger options,
                  l0_compaction_trigger := level0_file_num_compaction_trigger options,
                  L0_high := 7,
                  set_memtalbe_size := write_buffer_size options,
                  total_memtable_size := write_buffer_size options * of_int (max_write_buffer_number options),
                  shouldExit := False,
                  monitor_L0_status_arr := LEVEL_LOW,
                  rollback_status := 0,
                  rollback_should_exit := False\<rparr>;
            s = (if \<not> checker_set s then s\<lparr>rollback_threads := rollback_threads s + 1\<rparr> else s);
            s = s\<lparr>soft_limit := soft_pending_compaction_bytes_limit options,
                  hard_limit := hard_pending_compaction_bytes_limit options,
                  checker_set := True\<rparr>
        in (ret_val, s))"

text \<open>
  \<open>GetName\<close> is a virtual call through the pointer, so it faults on a null one.  The loop runs over the
  instances; \<open>Open\<close> leaves either none or one.
\<close>

definition DestroyDB_Master ::
  "('w, 'm) rocksdb \<Rightarrow> Options \<Rightarrow> ('w, 'm) master \<Rightarrow> (Status \<times> ('w, 'm) master) outcome" where
  "DestroyDB_Master rdb options s =
     (let s = s\<lparr>shouldExit := True, rollback_should_exit := True\<rparr>
      in if num_instances s \<le> 0 then Inr (OK, s)
         else bindO (deref (dbptr s)) (\<lambda>db.
           let (st, w) = rdb_destroy rdb (rdb_name rdb db) options (world (ilsm_db s))
           in Inr (if st \<noteq> OK then st else OK,
                   s\<lparr>dbptr := None, ilsm_db := (ilsm_db s)\<lparr>world := w\<rparr>\<rparr>)))"

section \<open>Writing\<close>

definition main_put ::
  "('w, 'm) rocksdb \<Rightarrow> bytes \<Rightarrow> bytes \<Rightarrow> ('w, 'm) master \<Rightarrow> (Status \<times> ('w, 'm) master) outcome" where
  "main_put rdb key value s =
     bindO (deref (dbptr s)) (\<lambda>db.
       let (st, db) = rdb_put rdb key value db in Inr (st, s\<lparr>dbptr := Some db\<rparr>))"

text \<open>Forgetting one tracked occurrence of a key, which both the write path and the roll-back do.\<close>

definition untrack :: "u64 \<Rightarrow> ('w, 'm) master \<Rightarrow> ('w, 'm) master" where
  "untrack h s = s\<lparr>keyTracker := Delete (keyTracker s) h\<rparr>"

definition master_Put ::
  "('w, 'm) rocksdb \<Rightarrow> murmur \<Rightarrow> 'w os \<Rightarrow> bytes \<Rightarrow> bytes \<Rightarrow> ('w, 'm) master \<Rightarrow>
   (Status \<times> ('w, 'm) master) outcome" where
  "master_Put rdb murmur os key value s =
     (if monitor_L0_status_arr s \<noteq> LEVEL_HIGH
      then if kache_flag s = 0 then main_put rdb key value s
           else bindO (double_hash murmur key 1) (\<lambda>h.
             if Contains (keyTracker s) h then main_put rdb key value (untrack h s)
             else main_put rdb key value s)
      else
        let s = s\<lparr>kache_flag := 1\<rparr>
        in bindO (iLSM_Put os key value (ilsm_db s)) (\<lambda>(_, d).
           bindO (double_hash murmur key 1) (\<lambda>h.
             Inr (OK, s\<lparr>ilsm_db := d, keyTracker := Insert (keyTracker s) h key\<rparr>))))"

section \<open>Reading\<close>

text \<open>Status and output value; \<open>value\<close> is what the caller's string held before.\<close>

definition main_get ::
  "('w, 'm) rocksdb \<Rightarrow> bytes \<Rightarrow> bytes \<Rightarrow> ('w, 'm) master \<Rightarrow> (Status \<times> bytes \<times> ('w, 'm) master) outcome" where
  "main_get rdb key value s =
     bindO (deref (dbptr s)) (\<lambda>db.
       let (st, tmp_value) = rdb_get rdb key db
       in if st = OK then Inr (OK, tmp_value, s) else Inr (NotFound, value, s))"

definition dev_get ::
  "'w os \<Rightarrow> bytes \<Rightarrow> bytes \<Rightarrow> ('w, 'm) master \<Rightarrow> (Status \<times> bytes \<times> ('w, 'm) master) outcome" where
  "dev_get os key value s =
     bindO (iLSM_Get os key [] (ilsm_db s)) (\<lambda>(r, tmp_value, d).
       let s = s\<lparr>ilsm_db := d\<rparr>
       in if 0 \<le> r then Inr (OK, tmp_value, s) else Inr (NotFound, value, s))"

definition master_Get ::
  "('w, 'm) rocksdb \<Rightarrow> murmur \<Rightarrow> 'w os \<Rightarrow> bytes \<Rightarrow> bytes \<Rightarrow> ('w, 'm) master \<Rightarrow>
   (Status \<times> bytes \<times> ('w, 'm) master) outcome" where
  "master_Get rdb murmur os key value s =
     (if kache_flag s = 0 then main_get rdb key value s
      else if rollback_flag s = 1
      then bindO (double_hash murmur key 1) (\<lambda>h.
             if Contains (keyTracker s) h then dev_get os key value s else main_get rdb key value s)
      else bindO (double_hash murmur key 1) (\<lambda>h.
             if Contains (keyTracker s) h then dev_get os key value s else main_get rdb key value s))"

text \<open>
  \<open>GetPin\<close> reads the Main-LSM into the caller's slice and looks at its first character; indexing an
  empty string at 0 gives its terminator.
\<close>

definition GetPin ::
  "('w, 'm) rocksdb \<Rightarrow> bytes \<Rightarrow> bytes \<Rightarrow> ('w, 'm) master \<Rightarrow> (Status \<times> bytes) outcome" where
  "GetPin rdb key pinnable_val s =
     (if kache_flag s = 0
      then bindO (deref (dbptr s)) (\<lambda>db.
             let (st, v) = rdb_get rdb key db
             in if st = OK
                then Inr (if v \<noteq> [] \<and> hd v = of_char CHR ''a'' then OK else NotFound, v)
                else Inr (NotFound, pinnable_val))
      else Inr (NotFound, pinnable_val))"

section \<open>Monitoring\<close>

definition RESERVE :: u64 where "RESERVE = 2097152"

definition get_property :: "('w, 'm) rocksdb \<Rightarrow> string \<Rightarrow> 'm \<Rightarrow> bytes" where
  "get_property rdb name db = (case rdb_property rdb (bytes_of name) db of None \<Rightarrow> [] | Some v \<Rightarrow> v)"

text \<open>\<open>(int) x\<close> of an unsigned 64-bit value, and a signed sum that must not overflow.\<close>

definition to_int :: "u64 \<Rightarrow> int" where
  "to_int x = sint (ucast x :: u32)"

definition int_add :: "int \<Rightarrow> int \<Rightarrow> int outcome" where
  "int_add a b = (if int_range (a + b) then Inr (a + b) else Inl Signed_Overflow)"

definition stall_imminent :: "int \<Rightarrow> u64 \<Rightarrow> u64 \<Rightarrow> u64 \<Rightarrow> u64 \<Rightarrow> bool outcome" where
  "stall_imminent l0_num memtable_size set_size pending hard =
     (if 36 \<le> l0_num then Inr True
      else if set_size = 0 then Inl Div_By_Zero
      else bindO (int_add l0_num (to_int (memtable_size div set_size))) (\<lambda>n.
             Inr (36 \<le> n \<or> hard - RESERVE \<le> pending)))"

definition Monitor_Consumer ::
  "('w, 'm) rocksdb \<Rightarrow> ('w, 'm) master \<Rightarrow> ('w, 'm) master outcome" where
  "Monitor_Consumer rdb s =
     bindO (deref (dbptr s)) (\<lambda>db.
     bindO (stoi (get_property rdb ''rocksdb.num-files-at-level0'' db)) (\<lambda>l0_num_tmp.
     bindO (stoull (get_property rdb ''rocksdb.size-all-mem-tables'' db)) (\<lambda>memtable_size.
     bindO (stoull (get_property rdb ''rocksdb.estimate-pending-compaction-bytes'' db)) (\<lambda>pending.
     bindO (stall_imminent l0_num_tmp memtable_size (set_memtalbe_size s) pending (hard_limit s)) (\<lambda>high.
       let level_tmp =
             (if high then LEVEL_HIGH
              else if L0_high s \<le> l0_num_tmp \<or> (soft_limit s + hard_limit s) div 2 \<le> pending
              then LEVEL_MIDDLE
              else LEVEL_LOW);
           level_tmp = (if l0_num_tmp = 0 then LEVEL_ZERO else level_tmp)
       in Inr (s\<lparr>monitor_L0_status_arr := level_tmp, rollback_status := l0_num_tmp\<rparr>))))))"

section \<open>Printed numbers read back\<close>

lemma digit_byte:
  assumes "d < 10"
  shows "is_digit (48 + of_nat d)" and "unat ((48 + of_nat d :: u8) - 48) = d"
    and "\<not> is_space (48 + of_nat d)" and "(48 + of_nat d :: u8) \<noteq> 45" and "(48 + of_nat d :: u8) \<noteq> 43"
proof -
  have u: "unat (48 + of_nat d :: u8) = 48 + d" "unat (of_nat d :: u8) = d"
    using assms by (simp_all add: unat_word_ariths unat_of_nat)
  show "is_digit (48 + of_nat d)" "unat ((48 + of_nat d :: u8) - 48) = d"
    using assms u by (simp_all add: is_digit_def word_le_nat_alt)
  show "\<not> is_space (48 + of_nat d)" "(48 + of_nat d :: u8) \<noteq> 45" "(48 + of_nat d :: u8) \<noteq> 43"
    using u by (auto simp: is_space_def word_le_nat_alt word_unat_eq_iff)
qed

lemma to_string_digits: "\<forall>c\<in>set (to_string n). \<exists>d<10. c = 48 + of_nat d"
proof (induction n rule: to_string.induct)
  case (1 n)
  show ?case
  proof (cases "n < 10")
    case True
    then show ?thesis
      by (auto simp: to_string.simps [of n])
  next
    case False
    have "n mod 10 < 10"
      by simp
    with False 1 show ?thesis
      by (subst to_string.simps) fastforce
  qed
qed

lemma to_string_nonempty [simp]: "to_string n \<noteq> []"
  by (simp add: to_string.simps [of n])

lemma digits_val_to_string: "digits_val (to_string n) = n"
proof (induction n rule: to_string.induct)
  case (1 n)
  show ?case
  proof (cases "n < 10")
    case True
    then show ?thesis
      using digit_byte(2) [OF True] by (simp add: to_string.simps [of n] digits_val_def)
  next
    case False
    have "unat ((48 + of_nat (n mod 10) :: u8) - 48) = n mod 10"
      by (rule digit_byte(2)) simp
    with False 1 show ?thesis
      by (simp add: to_string.simps [of n] digits_val_def)
  qed
qed

lemma scan_number_to_string: "scan_number (to_string n) = Some (False, n)"
proof -
  obtain d where d: "d < 10" "hd (to_string n) = 48 + of_nat d"
    using to_string_digits [of n] hd_in_set [OF to_string_nonempty] by blast
  have dw: "dropWhile is_space (to_string n) = to_string n"
    using d digit_byte(3) [OF d(1)] by (cases "to_string n") auto
  have "\<forall>c\<in>set (to_string n). is_digit c"
    using to_string_digits [of n] digit_byte(1) by auto
  then have tw: "takeWhile is_digit (to_string n) = to_string n"
    by (simp only: takeWhile_eq_all_conv)
  have sign: "hd (to_string n) \<noteq> 45" "hd (to_string n) \<noteq> 43"
    unfolding d(2) by (rule digit_byte(4) [OF d(1)], rule digit_byte(5) [OF d(1)])
  show ?thesis
    unfolding scan_number_def Let_def dw by (simp add: sign tw digits_val_to_string)
qed

lemma stoi_to_string: "n < 2147483648 \<Longrightarrow> stoi (to_string n) = Inr (int n)"
  by (simp add: stoi_def scan_number_to_string int_range_def)

lemma stoull_to_string: "n < 18446744073709551616 \<Longrightarrow> stoull (to_string n) = Inr (of_nat n)"
  by (simp add: stoull_def scan_number_to_string)

section \<open>Reads after writes\<close>

text \<open>What RocksDB documents of \<open>Put\<close> and \<open>Get\<close>: a successful write is what later reads see.\<close>

definition main_laws :: "('w, 'm) rocksdb \<Rightarrow> bool" where
  "main_laws rdb \<longleftrightarrow>
     (\<forall>k v db. fst (rdb_put rdb k v db) = OK \<longrightarrow>
        (\<forall>k'. rdb_get rdb k' (snd (rdb_put rdb k v db)) = (if k' = k then (OK, v) else rdb_get rdb k' db)))"

lemma main_put_ok:
  assumes "dbptr s = Some db" and "fst (rdb_put rdb key v db) = OK"
  shows "main_put rdb key v s = Inr (OK, s\<lparr>dbptr := Some (snd (rdb_put rdb key v db))\<rparr>)"
  using assms by (simp add: main_put_def split_beta)

lemma main_get_after_put:
  assumes "main_laws rdb" and "fst (rdb_put rdb key v db) = OK"
    and "dbptr s' = Some (snd (rdb_put rdb key v db))"
  shows "main_get rdb key x s' = Inr (OK, v, s')"
  using assms by (simp add: main_get_def main_laws_def)


text \<open>A Main-LSM that is a list of pairs, newest first, and properties that never report a stall.\<close>

definition list_rdb :: "(unit, (bytes \<times> bytes) list) rocksdb" where
  "list_rdb =
     \<lparr>rdb_open = (\<lambda>_ _ w. ((OK, Some []), w)),
      rdb_put = (\<lambda>k v db. (OK, (k, v) # db)),
      rdb_get = (\<lambda>k db. case map_of db k of None \<Rightarrow> (NotFound, []) | Some v \<Rightarrow> (OK, v)),
      rdb_property = (\<lambda>_ _. Some (to_string 1)),
      rdb_name = (\<lambda>_. []),
      rdb_destroy = (\<lambda>_ _ w. (OK, w))\<rparr>"

lemma list_rdb_laws: "main_laws list_rdb"
  by (simp add: main_laws_def list_rdb_def)

definition some_options :: Options where
  "some_options =
     \<lparr>level0_stop_writes_trigger = 36, level0_file_num_compaction_trigger = 4,
      write_buffer_size = 67108864, max_write_buffer_number = 2,
      soft_pending_compaction_bytes_limit = 68719476736,
      hard_pending_compaction_bytes_limit = 274877906944\<rparr>"

definition started :: "(unit, (bytes \<times> bytes) list) master" where
  "started = snd (master_Open list_rdb ok_os some_options (bytes_of ''/tmp/db'') 1 (master_new ()))"

lemma started_simps:
  "dbptr started = Some []" "kache_flag started = 0" "rollback_flag started = 0"
  "monitor_L0_status_arr started = LEVEL_LOW" "hm_table (keyTracker started) = hm_table hm_new"
  "hm_count (keyTracker started) = 0" "set_memtalbe_size started = 67108864"
  "hard_limit started = 274877906944" "soft_limit started = 68719476736" "L0_high started = 7"
  by (simp_all add: started_def master_Open_def open_instances_def list_rdb_def master_new_def
      Let_def split_beta some_options_def)


lemma untrack_get:
  assumes "hm_wf (keyTracker s)"
  shows "hm_mult (keyTracker (untrack h s)) h = hm_mult (keyTracker s) h - 1"
    and "hm_wf (keyTracker (untrack h s))"
    and "Contains (keyTracker (untrack h s)) h \<longleftrightarrow> 2 \<le> hm_mult (keyTracker s) h"
  using assms by (auto simp: untrack_def tracker.bag_specs)

lemma untrack_absent: "\<not> Contains (keyTracker s) h \<Longrightarrow> untrack h s = s"
  by (simp add: untrack_def Delete_absent)

text \<open>Off the stall path with data on the device, a put forgets the key and writes to the Main-LSM.\<close>

lemma master_Put_pending:
  assumes "monitor_L0_status_arr s \<noteq> LEVEL_HIGH" and "kache_flag s \<noteq> 0"
    and "double_hash murmur key 1 = Inr h"
  shows "master_Put rdb murmur os key v s = main_put rdb key v (untrack h s)"
  using assms by (simp add: master_Put_def untrack_absent)



text \<open>
  Claim C6 (error).  A \<open>Put\<close> redirected to the Dev-LSM that stays in the host buffer reports success
  and switches the key's reads to the device; the next \<open>Get\<close> of the key then answers with what the
  device held before, or not found, even when the Main-LSM has the key.
\<close>

theorem redirected_Put_invisible:
  assumes "serves_get os dev" and "quiet os dev" and "mem_ok os" and "3 \<le> length key"
    and "monitor_L0_status_arr s = LEVEL_HIGH" and "hm_wf (keyTracker s)"
    and "buf_abs (buffering_info (ilsm_db s)) kvs" and "length kvs < 127"
    and "used_pages (buffering_info (ilsm_db s)) * 4096 + length v \<le> 341 * 4096"
  shows "\<exists>s1 s2. master_Put rdb murmur os key v s = Inr (OK, s1) \<and> kache_flag s1 = 1 \<and>
    master_Get rdb murmur os key x s1 =
      Inr (case dev (world (ilsm_db s)) (key4 key) of None \<Rightarrow> (NotFound, x, s2) | Some y \<Rightarrow> (OK, y, s2))"
proof -
  obtain h where h: "double_hash murmur key 1 = Inr h"
    using double_hash_total [OF assms(4)] by blast
  obtain d1 where d1: "iLSM_Put os key v (ilsm_db s) = Inr (0, d1)"
    using iLSM_Put_ok [OF assms(7,3,4,9)] by blast
  have dev: "dev (world d1) = dev (world (ilsm_db s))"
    using iLSM_Put_dev [OF assms(2,7,3,4,9,8) d1] .
  let ?s1 = "s\<lparr>kache_flag := 1, ilsm_db := d1, keyTracker := Insert (keyTracker s) h key\<rparr>"
  have put: "master_Put rdb murmur os key v s = Inr (OK, ?s1)"
    using assms(5) d1 h by (simp add: master_Put_def)
  have "Contains (keyTracker ?s1) h"
    using tracker.contains_insert [OF assms(6)] by simp
  then have get: "master_Get rdb murmur os key x ?s1 = dev_get os key x ?s1"
    using h by (simp add: master_Get_def)
  obtain d2 where "iLSM_Get os key [] d1 =
      Inr (case dev (world d1) (key4 key) of None \<Rightarrow> (-2, [], d2) | Some y \<Rightarrow> (int (length y), y, d2))"
    using iLSM_Get_lookup [OF assms(1-4), of "[]" d1] by blast
  then have "dev_get os key x ?s1 =
      Inr (case dev (world (ilsm_db s)) (key4 key) of
             None \<Rightarrow> (NotFound, x, ?s1\<lparr>ilsm_db := d2\<rparr>) | Some y \<Rightarrow> (OK, y, ?s1\<lparr>ilsm_db := d2\<rparr>))"
    using dev by (simp add: dev_get_def split: option.splits)
  with put get show ?thesis
    by (intro exI [of _ ?s1] exI [of _ "?s1\<lparr>ilsm_db := d2\<rparr>"]) simp
qed

theorem redirected_Put_invisible_witness:
  "\<exists>s1 s2. master_Put list_rdb (\<lambda>_. (0, 0)) one_pair_os (bytes_of ''new1'') [5]
       ((snd (master_Open list_rdb one_pair_os some_options (bytes_of ''/tmp/db'') 1 (master_new ())))
          \<lparr>monitor_L0_status_arr := LEVEL_HIGH\<rparr>) = Inr (OK, s1) \<and>
     master_Get list_rdb (\<lambda>_. (0, 0)) one_pair_os (bytes_of ''new1'') [] s1 = Inr (NotFound, [], s2)"
proof -
  let ?s = "(snd (master_Open list_rdb one_pair_os some_options (bytes_of ''/tmp/db'') 1 (master_new ())))
    \<lparr>monitor_L0_status_arr := LEVEL_HIGH\<rparr>"
  have b: "buf_abs (buffering_info (ilsm_db ?s)) []" "used_pages (buffering_info (ilsm_db ?s)) = 0"
    "keyTracker ?s = hm_new"
    by (simp_all add: master_Open_def open_instances_def list_rdb_def master_new_def Open_def
        one_pair_os_def ok_os_def ilsm_new_def buf_abs_def used_pages_def Let_def hm_new_def)
  have "key4 (bytes_of ''new1'') \<noteq> [107, 101, 121, 49]"
    by (simp add: key4_def bytes_of_def of_char_def)
  then show ?thesis
    using redirected_Put_invisible [OF one_pair_serves, of "bytes_of ''new1''" ?s "[]" "[5]" list_rdb
        "\<lambda>_. (0, 0)" "[]"] b hm_new_wf
    by (auto simp: one_pair_def)
qed

section \<open>GetPin\<close>

text \<open>
  \<open>GetPin\<close> finds a key just written to the Main-LSM exactly when its value
  begins with the letter a: it tests for a prefix the write path no longer adds.  Once the Dev-LSM
  holds data it finds nothing at all.
\<close>

theorem GetPin_after_Put:
  assumes "main_laws rdb" and "monitor_L0_status_arr s \<noteq> LEVEL_HIGH" and "kache_flag s = 0"
    and "dbptr s = Some db" and "fst (rdb_put rdb key v db) = OK"
  shows "\<exists>s'. master_Put rdb murmur os key v s = Inr (OK, s') \<and>
    GetPin rdb key p s' = Inr (if v \<noteq> [] \<and> hd v = of_char CHR ''a'' then OK else NotFound, v) \<and>
    GetPin rdb key p (s'\<lparr>kache_flag := 1\<rparr>) = Inr (NotFound, p)"
proof -
  let ?s' = "s\<lparr>dbptr := Some (snd (rdb_put rdb key v db))\<rparr>"
  have "master_Put rdb murmur os key v s = Inr (OK, ?s')"
    using assms(2,3) main_put_ok [OF assms(4,5)] by (simp add: master_Put_def)
  moreover have "rdb_get rdb key (snd (rdb_put rdb key v db)) = (OK, v)"
    using assms(1,5) by (simp add: main_laws_def)
  ultimately show ?thesis
    using assms(3) by (intro exI [of _ ?s']) (simp add: GetPin_def)
qed

theorem GetPin_after_Put_witness:
  "\<exists>s'. master_Put list_rdb (\<lambda>_. (0, 0)) ok_os (bytes_of ''key1'') (bytes_of ''v'') started = Inr (OK, s') \<and>
     GetPin list_rdb (bytes_of ''key1'') [] s' = Inr (NotFound, bytes_of ''v'')"
proof -
  have "fst (rdb_put list_rdb (bytes_of ''key1'') (bytes_of ''v'') []) = OK"
    by (simp add: list_rdb_def)
  moreover have "hd (bytes_of ''v'') \<noteq> of_char CHR ''a''"
    by (simp add: bytes_of_def of_char_def)
  ultimately show ?thesis
    using GetPin_after_Put [OF list_rdb_laws, of started "[]" "bytes_of ''key1''" "bytes_of ''v''"
        "\<lambda>_. (0, 0)" ok_os "[]"] started_simps(1,2,4) by auto
qed

section \<open>The monitor's verdict\<close>

text \<open>The three figures the monitor reads, when RocksDB reports them as decimal numbers.\<close>

definition reports :: "('w, 'm) rocksdb \<Rightarrow> 'm \<Rightarrow> int \<Rightarrow> nat \<Rightarrow> nat \<Rightarrow> bool" where
  "reports rdb db l0 mem pending \<longleftrightarrow>
     stoi (get_property rdb ''rocksdb.num-files-at-level0'' db) = Inr l0 \<and>
     stoull (get_property rdb ''rocksdb.size-all-mem-tables'' db) = Inr (of_nat mem) \<and>
     stoull (get_property rdb ''rocksdb.estimate-pending-compaction-bytes'' db) = Inr (of_nat pending) \<and>
     mem < 18446744073709551616 \<and> pending < 18446744073709551616"

definition verdict :: "int \<Rightarrow> nat \<Rightarrow> nat \<Rightarrow> nat \<Rightarrow> nat \<Rightarrow> int \<Rightarrow> Level" where
  "verdict l0 memtables pending soft hard l0_high =
     (if l0 = 0 then LEVEL_ZERO
      else if 36 \<le> l0 \<or> 36 \<le> l0 + int memtables \<or> hard \<le> pending + 2097152 then LEVEL_HIGH
      else if l0_high \<le> l0 \<or> (soft + hard) div 2 \<le> pending then LEVEL_MIDDLE
      else LEVEL_LOW)"

lemma to_int_small: "n < 2147483648 \<Longrightarrow> to_int (of_nat n) = int n"
proof -
  assume n: "n < 2147483648"
  have "(ucast (of_nat n :: u64) :: u32) = of_nat n"
    using n by (simp add: unsigned_of_nat take_bit_nat_eq_self)
  moreover have "unat (of_nat n :: u32) = n"
    using n by (simp add: unat_of_nat32)
  ultimately show "to_int (of_nat n) = int n"
    using n by (simp add: to_int_def sint_of_small)
qed

lemma stall_imminent_nat:
  assumes "0 \<le> l0" and "l0 < 2147483648" and "0 < buf" and "buf < 18446744073709551616"
    and "mem < 18446744073709551616" and "mem div buf < 2147483600"
    and "pending < 18446744073709551616" and "2097152 \<le> hard" and "hard < 18446744073709551616"
  shows "stall_imminent l0 (of_nat mem) (of_nat buf) (of_nat pending) (of_nat hard) =
    Inr (36 \<le> l0 \<or> 36 \<le> l0 + int (mem div buf) \<or> hard \<le> pending + 2097152)"
proof -
  have div: "(of_nat mem :: u64) div of_nat buf = of_nat (mem div buf)"
    using assms by (simp add: word_arith_nat_div unat_of_nat64)
  have nz: "(of_nat buf :: u64) \<noteq> 0"
    using assms by (simp add: word_unat_eq_iff unat_of_nat64)
  have eq: "(of_nat hard - RESERVE :: u64) = of_nat (hard - 2097152)"
    using assms(8) by (simp add: RESERVE_def of_nat_diff)
  have "unat (of_nat hard - RESERVE :: u64) = hard - 2097152"
    unfolding eq using assms(9) by (intro unat_of_nat64) simp
  then have le: "(of_nat hard - RESERVE :: u64) \<le> of_nat pending \<longleftrightarrow> hard \<le> pending + 2097152"
    using assms(7) by (auto simp: word_le_nat_alt unat_of_nat64)
  show ?thesis
  proof (cases "36 \<le> l0")
    case False
    have t: "to_int (of_nat (mem div buf)) = int (mem div buf)"
      using assms(6) by (intro to_int_small) simp
    have "int (mem div buf) < 2147483600"
      using assms(6) by linarith
    then have "int_add l0 (int (mem div buf)) = Inr (l0 + int (mem div buf))"
      using False assms(1) by (simp add: int_add_def int_range_def)
    with False nz div t le show ?thesis
      by (simp add: stall_imminent_def)
  qed (simp add: stall_imminent_def)
qed

lemma Monitor_verdict:
  assumes "dbptr s = Some db" and "reports rdb db l0 mem pending" and "0 \<le> l0" and "l0 < 2147483648"
    and "0 < unat (set_memtalbe_size s)" and "mem div unat (set_memtalbe_size s) < 2147483600"
    and "2097152 \<le> unat (hard_limit s)"
    and "unat (soft_limit s) + unat (hard_limit s) < 18446744073709551616"
  shows "Monitor_Consumer rdb s =
    Inr (s\<lparr>monitor_L0_status_arr := verdict l0 (mem div unat (set_memtalbe_size s)) pending
             (unat (soft_limit s)) (unat (hard_limit s)) (L0_high s),
           rollback_status := l0\<rparr>)"
proof -
  let ?set = "unat (set_memtalbe_size s)" and ?hard = "unat (hard_limit s)" and ?soft = "unat (soft_limit s)"
  have b: "mem < 18446744073709551616" "pending < 18446744073709551616"
    using assms(2) by (auto simp: reports_def)
  have u: "?set < 18446744073709551616" "?hard < 18446744073709551616"
    by (rule unat_u64_less)+
  have high: "stall_imminent l0 (of_nat mem) (set_memtalbe_size s) (of_nat pending) (hard_limit s) =
      Inr (36 \<le> l0 \<or> 36 \<le> l0 + int (mem div ?set) \<or> ?hard \<le> pending + 2097152)"
    using stall_imminent_nat [OF assms(3,4,5) u(1) b(1) assms(6) b(2) assms(7) u(2)] by simp
  have sum: "unat (soft_limit s + hard_limit s) = ?soft + ?hard"
    using assms(8) by (simp add: unat_word_ariths)
  then have mid: "(soft_limit s + hard_limit s) div 2 \<le> of_nat pending \<longleftrightarrow> (?soft + ?hard) div 2 \<le> pending"
    using b(2) by (simp add: word_le_nat_alt unat_div unat_of_nat64)
  show ?thesis
    using assms(1,2) high mid
    by (simp add: Monitor_Consumer_def reports_def verdict_def Let_def)
qed

text \<open>
  Claim C29 (functional).  With sane figures (a nonzero memtable size, a hard limit of at least 2 MB,
  no overflow of the limits' sum) the monitor sets the level by the plain thresholds: high at 36 files
  counting memtables or within 2 MB of the hard limit, middle at \<open>L0_high\<close> files or half way between
  the limits, and zero whenever level 0 is empty, also when the other figures call for high.
\<close>

theorem Monitor_level:
  assumes "dbptr s = Some db" and "reports rdb db l0 mem pending" and "0 \<le> l0" and "l0 < 2147483648"
    and "0 < unat (set_memtalbe_size s)" and "mem div unat (set_memtalbe_size s) < 2147483600"
    and "2097152 \<le> unat (hard_limit s)"
    and "unat (soft_limit s) + unat (hard_limit s) < 18446744073709551616"
  shows "Monitor_Consumer rdb s =
    Inr (s\<lparr>monitor_L0_status_arr := verdict l0 (mem div unat (set_memtalbe_size s)) pending
             (unat (soft_limit s)) (unat (hard_limit s)) (L0_high s),
           rollback_status := l0\<rparr>)"
  by (rule Monitor_verdict [OF assms])

theorem Monitor_level_witness:
  "Monitor_Consumer list_rdb started = Inr (started\<lparr>monitor_L0_status_arr := LEVEL_LOW, rollback_status := 1\<rparr>)"
proof -
  have "reports list_rdb [] 1 1 1"
    by (simp add: reports_def get_property_def list_rdb_def stoi_to_string stoull_to_string)
  then show ?thesis
    using Monitor_level [of started "[]" list_rdb 1 1 1] started_simps(1,7-10)
    by (simp add: verdict_def)
qed

text \<open>
  When RocksDB does not report a figure, the monitor throws: the empty string it
  parses is no number, and the exception ends the roll-back thread.
\<close>

theorem Monitor_missing_property:
  assumes "dbptr s = Some db"
    and "rdb_property rdb (bytes_of ''rocksdb.num-files-at-level0'') db = None"
  shows "Monitor_Consumer rdb s = Inl Invalid_Argument"
  using assms by (simp add: Monitor_Consumer_def get_property_def stoi_def scan_number_def)

theorem Monitor_missing_property_witness:
  "Monitor_Consumer (list_rdb\<lparr>rdb_property := (\<lambda>_ _. None)\<rparr>) started = Inl Invalid_Argument"
  by (rule Monitor_missing_property [OF started_simps(1)]) simp

section \<open>Opening\<close>

text \<open>
  \<open>Open\<close> refuses any number of instances but one and then changes nothing.
  Otherwise it resets the flags and the tracker's counter, but keeps the tracker's entries, and starts
  a roll-back thread only the first time: after a destruction, which tells that thread to end, a second
  \<open>Open\<close> runs without one.
\<close>

theorem master_Open_state:
  "(n \<noteq> 1 \<longrightarrow> master_Open rdb os opts name n s = (NotSupported, s)) \<and>
   (n = 1 \<longrightarrow> (\<exists>s'. master_Open rdb os opts name n s =
        (fst (fst (rdb_open rdb opts (name @ to_string 0) (world (ilsm_db s)))), s') \<and>
      kache_flag s' = 0 \<and> rollback_flag s' = 0 \<and> monitor_L0_status_arr s' = LEVEL_LOW \<and>
      hm_count (keyTracker s') = 0 \<and> hm_table (keyTracker s') = hm_table (keyTracker s) \<and>
      rollback_threads s' = (if checker_set s then rollback_threads s else rollback_threads s + 1) \<and>
      checker_set s' \<and> \<not> rollback_should_exit s'))"
  by (simp add: master_Open_def open_instances_def Let_def split_beta)

theorem master_Open_state_witness:
  "fst (master_Open list_rdb ok_os some_options (bytes_of ''/tmp/db'') 2 (master_new ())) = NotSupported \<and>
   rollback_threads (snd (master_Open list_rdb ok_os some_options (bytes_of ''/tmp/db'') 1 started)) =
     rollback_threads started"
proof -
  have "checker_set started"
    by (simp add: started_def master_Open_def open_instances_def list_rdb_def Let_def split_beta)
  then show ?thesis
    using master_Open_state [of 2 list_rdb ok_os some_options "bytes_of ''/tmp/db''" "master_new ()"]
      master_Open_state [of 1 list_rdb ok_os some_options "bytes_of ''/tmp/db''" started] by auto
qed

end
