(* ===== verification/Rollback.thy ===== *)
theory Rollback
  imports Db_Master
begin

text \<open>
  The roll-back thread, \<open>Rollback_Consumer\<close> of \<open>db_impl_master.cc\<close>: it watches the Main-LSM and, once
  level 0 has drained, scans the Dev-LSM, writes every pair that is still tracked to the Main-LSM and
  resets the device.
\<close>

section \<open>The thread\<close>

text \<open>The local variables that live across iterations.\<close>

record rb_local =
  rb_key :: bytes
  rb_value :: bytes
  rb_flag :: int
  rb_iter :: "u32 option"

definition rb_start :: rb_local where
  "rb_start = \<lparr>rb_key = [], rb_value = [], rb_flag = -2, rb_iter = None\<rparr>"

text \<open>Writing a scanned pair to the Main-LSM if its key is still tracked; the status is ignored.\<close>

definition restore ::
  "('w, 'm) rocksdb \<Rightarrow> murmur \<Rightarrow> bytes \<Rightarrow> bytes \<Rightarrow> ('w, 'm) master \<Rightarrow> ('w, 'm) master outcome" where
  "restore rdb murmur key value s =
     bindO (double_hash murmur key 1) (\<lambda>h.
       if Contains (keyTracker s) h
       then bindO (main_put rdb key value (untrack h s)) (\<lambda>(_, s). Inr s)
       else Inr s)"

text \<open>One round of the inner loop; the boolean tells whether it ends with \<open>break\<close>.\<close>

definition rollback_seek ::
  "('w, 'm) rocksdb \<Rightarrow> murmur \<Rightarrow> 'w os \<Rightarrow> rb_local \<Rightarrow> ('w, 'm) master \<Rightarrow>
   (bool \<times> rb_local \<times> ('w, 'm) master) outcome" where
  "rollback_seek rdb murmur os l s =
     bindO (CreateIter os 0 (ilsm_db s)) (\<lambda>(r, iter_id, d).
       let l = (if r < 0 then l else l\<lparr>rb_iter := Some iter_id\<rparr>)
       in bindO (initialised (rb_iter l)) (\<lambda>iter_id.
          bindO (SeekScan os iter_id (bytes_of ''start'') (rb_value l) d) (\<lambda>(flag, key, tmp_value, d).
            let l = l\<lparr>rb_flag := flag, rb_key := key, rb_value := tmp_value\<rparr>
            in bindO (restore rdb murmur key tmp_value (s\<lparr>ilsm_db := d\<rparr>)) (\<lambda>s. Inr (False, l, s)))))"

definition rollback_next ::
  "('w, 'm) rocksdb \<Rightarrow> murmur \<Rightarrow> 'w os \<Rightarrow> rb_local \<Rightarrow> ('w, 'm) master \<Rightarrow>
   (bool \<times> rb_local \<times> ('w, 'm) master) outcome" where
  "rollback_next rdb murmur os l s =
     bindO (initialised (rb_iter l)) (\<lambda>iter_id.
     bindO (NextScan os iter_id (rb_key l) (rb_value l) (ilsm_db s)) (\<lambda>(flag, key, tmp_value, d).
       let l = l\<lparr>rb_flag := flag, rb_key := key, rb_value := tmp_value\<rparr>;
           s = s\<lparr>ilsm_db := d\<rparr>
       in if flag = -3
          then (let (_, d) = Reset os (ilsm_db s)
                in Inr (True, l\<lparr>rb_flag := -2\<rparr>,
                        s\<lparr>ilsm_db := d, keyTracker := Clear (keyTracker s), kache_flag := 0,
                          rollback_flag := 0\<rparr>))
          else bindO (restore rdb murmur key tmp_value s) (\<lambda>s. Inr (False, l, s))))"

definition rollback_round ::
  "('w, 'm) rocksdb \<Rightarrow> murmur \<Rightarrow> 'w os \<Rightarrow> rb_local \<Rightarrow> ('w, 'm) master \<Rightarrow>
   (bool \<times> rb_local \<times> ('w, 'm) master) outcome" where
  "rollback_round rdb murmur os l s =
     (if rb_flag l < 0 then rollback_seek rdb murmur os l s else rollback_next rdb murmur os l s)"

fun rollback_loop ::
  "('w, 'm) rocksdb \<Rightarrow> murmur \<Rightarrow> 'w os \<Rightarrow> nat \<Rightarrow> rb_local \<Rightarrow> ('w, 'm) master \<Rightarrow>
   (rb_local \<times> ('w, 'm) master) outcome" where
  "rollback_loop rdb murmur os 0 l s = Inl Out_Of_Fuel"
| "rollback_loop rdb murmur os (Suc fuel) l s =
     bindO (rollback_round rdb murmur os l s) (\<lambda>(brk, l, s).
       if brk then Inr (l, s)
       else bindO (Monitor_Consumer rdb s) (\<lambda>s. rollback_loop rdb murmur os fuel l s))"

text \<open>
  The outer loop.  Other threads set \<open>rollback_should_exit\<close>; the list holds the values its two loads of
  each iteration see, and the thread is still running when it is used up.
\<close>

fun Rollback_Consumer ::
  "('w, 'm) rocksdb \<Rightarrow> murmur \<Rightarrow> 'w os \<Rightarrow> nat \<Rightarrow> (bool \<times> bool) list \<Rightarrow> rb_local \<Rightarrow> ('w, 'm) master \<Rightarrow>
   ('w, 'm) master outcome" where
  "Rollback_Consumer rdb murmur os fuel [] l s = Inl Out_Of_Fuel"
| "Rollback_Consumer rdb murmur os fuel ((exit1, exit2) # loads) l s =
     (if exit1 then Inr s
      else bindO (Monitor_Consumer rdb s) (\<lambda>s.
        if exit2 then Inr s
        else if rollback_status s \<le> 26 \<and> kache_flag s = 1
        then bindO (rollback_loop rdb murmur os fuel l (s\<lparr>rollback_flag := 1\<rparr>)) (\<lambda>(l, s).
               Rollback_Consumer rdb murmur os fuel loads l s)
        else Rollback_Consumer rdb murmur os fuel loads l s))"

section \<open>Restoring one pair\<close>

definition hash_of :: "murmur \<Rightarrow> bytes \<Rightarrow> u64" where
  "hash_of murmur key = (let (h0, h1) = murmur (key4 key) in h0 + h1)"

lemma double_hash_of: "3 \<le> length key \<Longrightarrow> double_hash murmur key 1 = Inr (hash_of murmur key)"
  by (simp add: double_hash_def hash_of_def c_str4_key4 split_beta Let_def)

text \<open>What restoring pairs does to the tracker and the Main-LSM.\<close>

definition replay1 ::
  "('w, 'm) rocksdb \<Rightarrow> murmur \<Rightarrow> bytes \<times> bytes \<Rightarrow> bytes hash_map \<times> 'm \<Rightarrow> bytes hash_map \<times> 'm" where
  "replay1 rdb murmur kv td =
     (let (k, v) = kv; (t, db) = td; h = hash_of murmur k
      in if Contains t h then (Delete t h, snd (rdb_put rdb k v db)) else (t, db))"

definition replay ::
  "('w, 'm) rocksdb \<Rightarrow> murmur \<Rightarrow> (bytes \<times> bytes) list \<Rightarrow> bytes hash_map \<times> 'm \<Rightarrow> bytes hash_map \<times> 'm" where
  "replay rdb murmur kvs td = fold (replay1 rdb murmur) kvs td"

lemma replay_simps [simp]:
  "replay rdb murmur [] td = td"
  "replay rdb murmur (kv # kvs) td = replay rdb murmur kvs (replay1 rdb murmur kv td)"
  by (simp_all add: replay_def)

lemma restore_replay1:
  assumes "3 \<le> length k" and "dbptr s = Some db"
  shows "restore rdb murmur k v s =
    Inr (s\<lparr>keyTracker := fst (replay1 rdb murmur (k, v) (keyTracker s, db)),
           dbptr := Some (snd (replay1 rdb murmur (k, v) (keyTracker s, db)))\<rparr>)"
  using assms
  by (simp add: restore_def double_hash_of main_put_def untrack_def replay1_def Let_def split_beta)

section \<open>A monitor that keeps working\<close>

definition healthy :: "('w, 'm) rocksdb \<Rightarrow> ('w, 'm) master \<Rightarrow> bool" where
  "healthy rdb s \<longleftrightarrow>
     dbptr s \<noteq> None \<and> 0 < unat (set_memtalbe_size s) \<and> 2097152 \<le> unat (hard_limit s) \<and>
     unat (soft_limit s) + unat (hard_limit s) < 18446744073709551616 \<and>
     (\<forall>db. \<exists>l0 mem pending. reports rdb db l0 mem pending \<and> 0 \<le> l0 \<and> l0 < 2147483648 \<and>
        mem div unat (set_memtalbe_size s) < 2147483600)"

lemma healthy_monitor:
  assumes "healthy rdb s"
  shows "\<exists>lv st. Monitor_Consumer rdb s = Inr (s\<lparr>monitor_L0_status_arr := lv, rollback_status := st\<rparr>)"
proof -
  obtain db where db: "dbptr s = Some db"
    using assms by (auto simp: healthy_def)
  obtain l0 mem pending where "reports rdb db l0 mem pending" "0 \<le> l0" "l0 < 2147483648"
    "mem div unat (set_memtalbe_size s) < 2147483600"
    using assms unfolding healthy_def by blast
  with assms db show ?thesis
    using Monitor_verdict [of s db rdb l0 mem pending] by (auto simp: healthy_def)
qed

lemma healthy_update [simp]:
  "healthy rdb (s\<lparr>ilsm_db := d\<rparr>) = healthy rdb s"
  "healthy rdb (s\<lparr>keyTracker := t\<rparr>) = healthy rdb s"
  "healthy rdb (s\<lparr>monitor_L0_status_arr := lv\<rparr>) = healthy rdb s"
  "healthy rdb (s\<lparr>rollback_status := st\<rparr>) = healthy rdb s"
  "healthy rdb (s\<lparr>rollback_flag := f\<rparr>) = healthy rdb s"
  "healthy rdb (s\<lparr>kache_flag := f\<rparr>) = healthy rdb s"
  by (simp_all add: healthy_def)

lemma healthy_dbptr: "healthy rdb s \<Longrightarrow> healthy rdb (s\<lparr>dbptr := Some db\<rparr>)"
  by (simp add: healthy_def)

section \<open>The end of a scan\<close>

lemma NextScan_end:
  assumes "scan_values d ! unat i = []" and "brk_point_key d ! unat i = 0xFFFFFFFF"
    and "unat i < 10" and "arrays_sized d"
  shows "\<exists>d'. NextScan os i key value d = Inr (-3, key, value, d') \<and> same_buffers d d'"
proof -
  obtain t1 d1 where c1: "read_clock os d = (t1, d1)"
    by fastforce
  have s1: "same_buffers d d1"
    by (rule same_buffers_clock [OF c1])
  then have "arrays_sized d1" "scan_values d1 = scan_values d" "brk_point_key d1 = brk_point_key d"
    using assms(4) arrays_sized_same [OF same_buffers_scan [OF s1]]
    by (simp_all add: same_buffers_def same_scan_def)
  then have inner: "NextScan_inner os i key value d1 = Inr (-3, key, value, d1)"
    using assms(1-3) by (simp add: NextScan_inner_def Let_def arrays_sized_def)
  obtain t2 d2 where c2: "read_clock os d1 = (t2, d2)"
    by fastforce
  have "NextScan os i key value d = Inr (-3, key, value, finishOp Op_Next (t2 - t1) d2)"
    using c1 inner c2 by (simp add: NextScan_def)
  moreover have "same_buffers d (finishOp Op_Next (t2 - t1) d2)"
    using same_buffers_trans [OF s1 same_buffers_trans [OF same_buffers_clock [OF c2] same_buffers_finishOp]] .
  ultimately show ?thesis by blast
qed

text \<open>
  The state of the inner loop between two rounds: iterator \<open>i\<close> still has the keys \<open>ks\<close> and the
  values \<open>vs\<close> to hand out and the device has nothing after them.
\<close>

definition draining ::
  "('w, 'm) rocksdb \<Rightarrow> u32 \<Rightarrow> bytes list \<Rightarrow> bytes list \<Rightarrow> 'm \<Rightarrow> rb_local \<Rightarrow> ('w, 'm) master \<Rightarrow> bool" where
  "draining rdb i ks vs db l s \<longleftrightarrow>
     healthy rdb s \<and> dbptr s = Some db \<and> rb_iter l = Some i \<and> 0 \<le> rb_flag l \<and> unat i < 10 \<and>
     arrays_sized (ilsm_db s) \<and> scan_keys (ilsm_db s) ! unat i = ks \<and>
     scan_values (ilsm_db s) ! unat i = vs \<and> length ks = length vs \<and>
     (\<forall>k\<in>set ks. length k = 4) \<and> brk_point_key (ilsm_db s) ! unat i = 0xFFFFFFFF"

definition rolled_back :: "bytes hash_map \<Rightarrow> 'm \<Rightarrow> rb_local \<Rightarrow> ('w, 'm) master \<Rightarrow> bool" where
  "rolled_back t db l s \<longleftrightarrow>
     dbptr s = Some db \<and> keyTracker s = Clear t \<and> kache_flag s = 0 \<and> rollback_flag s = 0 \<and>
     rb_flag l = -2"

lemma rollback_next_pair:
  assumes "draining rdb i (k # ks) (vs @ [v]) db l s"
  shows "\<exists>l' s'. rollback_next rdb murmur os l s = Inr (False, l', s') \<and>
    draining rdb i ks vs (snd (replay1 rdb murmur (k, v) (keyTracker s, db))) l' s' \<and>
    keyTracker s' = fst (replay1 rdb murmur (k, v) (keyTracker s, db))"
proof -
  let ?td = "replay1 rdb murmur (k, v) (keyTracker s, db)"
  obtain d where d: "NextScan os i (rb_key l) (rb_value l) (ilsm_db s) = Inr (1, k, v, d)"
    "arrays_sized d" "scan_values d = (scan_values (ilsm_db s))[unat i := vs]"
    "scan_keys d = (scan_keys (ilsm_db s))[unat i := ks]" "brk_point_key d = brk_point_key (ilsm_db s)"
    using NextScan_buffered [of "ilsm_db s" i vs v k ks os "rb_key l" "rb_value l"] assms
    unfolding draining_def by auto
  let ?s1 = "s\<lparr>ilsm_db := d\<rparr>"
  let ?s' = "?s1\<lparr>keyTracker := fst ?td, dbptr := Some (snd ?td)\<rparr>"
  have "restore rdb murmur k v ?s1 = Inr ?s'"
    using restore_replay1 [of k ?s1 db rdb murmur v] assms by (simp add: draining_def)
  then have "rollback_next rdb murmur os l s =
      Inr (False, l\<lparr>rb_flag := 1, rb_key := k, rb_value := v\<rparr>, ?s')"
    using d(1) assms by (simp add: rollback_next_def draining_def)
  moreover have "draining rdb i ks vs (snd ?td) (l\<lparr>rb_flag := 1, rb_key := k, rb_value := v\<rparr>) ?s'"
    using assms d by (auto simp: draining_def arrays_sized_def healthy_dbptr)
  ultimately show ?thesis
    by (intro exI [of _ "l\<lparr>rb_flag := 1, rb_key := k, rb_value := v\<rparr>"] exI [of _ ?s']) simp
qed

lemma rollback_next_end:
  assumes "draining rdb i [] [] db l s"
  shows "\<exists>l' s'. rollback_next rdb murmur os l s = Inr (True, l', s') \<and> rolled_back (keyTracker s) db l' s'"
proof -
  obtain d where "NextScan os i (rb_key l) (rb_value l) (ilsm_db s) = Inr (-3, rb_key l, rb_value l, d)"
    using NextScan_end [of "ilsm_db s" i os "rb_key l" "rb_value l"] assms by (auto simp: draining_def)
  moreover obtain r d' where "Reset os d = (r, d')"
    by fastforce
  ultimately show ?thesis
    using assms by (simp add: rollback_next_def draining_def rolled_back_def)
qed

lemma draining_monitor:
  assumes "draining rdb i ks vs db l s"
  shows "\<exists>s'. Monitor_Consumer rdb s = Inr s' \<and> draining rdb i ks vs db l s' \<and> keyTracker s' = keyTracker s"
proof -
  obtain lv st where "Monitor_Consumer rdb s = Inr (s\<lparr>monitor_L0_status_arr := lv, rollback_status := st\<rparr>)"
    using healthy_monitor [of rdb s] assms unfolding draining_def by blast
  then show ?thesis
    using assms by (simp add: draining_def)
qed

lemma rollback_drain:
  assumes "draining rdb i ks vs db l s" and "length vs < fuel"
  shows "\<exists>l' s'. rollback_loop rdb murmur os fuel l s = Inr (l', s') \<and>
    rolled_back (fst (replay rdb murmur (zip ks (rev vs)) (keyTracker s, db)))
      (snd (replay rdb murmur (zip ks (rev vs)) (keyTracker s, db))) l' s'"
  using assms
proof (induction vs arbitrary: ks db l s fuel rule: rev_induct)
  case Nil
  then obtain f where f: "fuel = Suc f"
    by (cases fuel) auto
  have "draining rdb i [] [] db l s"
    using Nil.prems(1) by (simp add: draining_def)
  from rollback_next_end [OF this, of murmur os] Nil.prems(1) f show ?case
    by (auto simp: rollback_round_def draining_def)
next
  case (snoc v vs)
  obtain k ks' where ks: "ks = k # ks'"
    using snoc.prems(1) by (cases ks) (auto simp: draining_def)
  obtain f where f: "fuel = Suc f" "length vs < f"
    using snoc.prems(2) by (cases fuel) auto
  let ?td = "replay1 rdb murmur (k, v) (keyTracker s, db)"
  obtain l1 s1 where r: "rollback_next rdb murmur os l s = Inr (False, l1, s1)"
    "draining rdb i ks' vs (snd ?td) l1 s1" "keyTracker s1 = fst ?td"
    using rollback_next_pair [OF snoc.prems(1) [unfolded ks], of murmur os] by blast
  obtain s2 where m: "Monitor_Consumer rdb s1 = Inr s2" "draining rdb i ks' vs (snd ?td) l1 s2"
    "keyTracker s2 = fst ?td"
    using draining_monitor [OF r(2)] r(3) by auto
  have "0 \<le> rb_flag l"
    using snoc.prems(1) by (simp add: draining_def)
  then have "rollback_loop rdb murmur os fuel l s = rollback_loop rdb murmur os f l1 s2"
    using f r(1) m(1) by (simp add: rollback_round_def)
  then show ?case
    using snoc.IH [OF m(2) f(2)] m(3) by (simp add: ks)
qed

section \<open>Starting a scan\<close>

text \<open>The device hands out iterator \<open>i\<close>.\<close>

definition serves_iter :: "'w os \<Rightarrow> u32 \<Rightarrow> bool" where
  "serves_iter os i \<longleftrightarrow>
     (\<forall>fd cmd data w. cmd_opcode cmd = opcode_of NVME_CMD_KV_ITER_CREATE_ITER \<longrightarrow>
        (\<exists>data'. fst (os_ioctl os fd cmd data w) = (0, i, data')))"

lemma passthru_iter:
  assumes "serves_iter os i"
    and "nvme_passthru os (opcode_of NVME_CMD_KV_ITER_CREATE_ITER) fl rs ns c2 c3 c10 c11 c12 c13 c14 c15
      dl data s = (reply, s')"
  shows "\<exists>data'. reply = (0, Some i, data')"
proof -
  have "quiet os (\<lambda>_ _. None)"
    by (simp add: quiet_def)
  from passthru_ioctl [OF this assms(2)] obtain w cmd err res data' where io:
    "cmd_opcode cmd = opcode_of NVME_CMD_KV_ITER_CREATE_ITER"
    "fst (os_ioctl os (ilsm_fd s) cmd data w) = (err, res, data')" "fst reply = err"
    "err = 0 \<longrightarrow> opcode_of NVME_CMD_KV_ITER_CREATE_ITER < opcode_of NVME_CMD_KV_LAST \<longrightarrow>
      fst (snd reply) = Some res"
    by blast
  have "\<exists>data'. fst (os_ioctl os (ilsm_fd s) cmd data w) = (0, i, data')"
    using assms(1) io(1) unfolding serves_iter_def by blast
  then have "err = 0" "res = i"
    using io(2) by auto
  then show ?thesis
    using io(3,4) by (simp add: prod_eq_iff word_less_alt)
qed

lemma CreateIter_ok:
  assumes "serves_iter os i" and "buf_abs (buffering_info d) kvs"
  shows "\<exists>d'. CreateIter os x d = Inr (0, i, d') \<and> same_scan d d' \<and> buf_abs (buffering_info d') []"
proof -
  obtain t1 d1 where c1: "read_clock os d = (t1, d1)"
    by fastforce
  have s1: "same_scan d d1" "buffering_info d1 = buffering_info d"
    using same_buffers_clock [OF c1] by (auto simp: same_buffers_def)
  have "\<exists>d2. (if buffering_cnt (buffering_info d1) \<noteq> 0
      then bindO (Flush os d1) (\<lambda>(_, s). Inr s) else Inr d1) = Inr d2 \<and> same_scan d1 d2"
  proof (cases "buffering_cnt (buffering_info d1) = 0")
    case False
    then have "buf_holds (buffering_info d1) kvs" "kvs \<noteq> []"
      using assms(2) s1(2) by (auto simp: buf_abs_def buf_holds_def split: if_splits)
    from Flush_ok [OF this, of os] False show ?thesis by auto
  qed simp
  then obtain d2 where d2: "(if buffering_cnt (buffering_info d1) \<noteq> 0
      then bindO (Flush os d1) (\<lambda>(_, s). Inr s) else Inr d1) = Inr d2" "same_scan d1 d2"
    by blast
  obtain reply d3 where p: "nvme_passthru os (opcode_of NVME_CMD_KV_ITER_CREATE_ITER) 0 0 NSID
      0 0 0 0 0 0 0 0 0 None d2 = (reply, d3)"
    by fastforce
  obtain data where reply: "reply = (0, Some i, data)"
    using passthru_iter [OF assms(1) p] by blast
  have inner: "CreateIter_inner os x d1 = Inr (0, i, d3)"
    unfolding CreateIter_inner_def d2(1) using p reply by (simp add: NO_SUCH_KEY_def del: opcode_of.simps)
  obtain t2 d4 where c2: "read_clock os d3 = (t2, d4)"
    by fastforce
  have "same_scan d2 (finishOp Op_CreateIter (t2 - t1) d4)"
    using same_buffers_scan [OF same_buffers_trans [OF same_buffers_passthru [OF p]
        same_buffers_trans [OF same_buffers_clock [OF c2] same_buffers_finishOp]]] .
  then have "same_scan d (finishOp Op_CreateIter (t2 - t1) d4)"
    using s1(1) d2(2) by (blast intro: same_scan_trans)
  moreover have "CreateIter os x d = Inr (0, i, finishOp Op_CreateIter (t2 - t1) d4)"
    using c1 inner c2 by (simp add: CreateIter_def)
  moreover have "buf_abs (buffering_info (finishOp Op_CreateIter (t2 - t1) d4)) []"
    using CreateIter_inner_empties [OF _ inner, of kvs] assms(2) s1(2)
      same_buffers_info [OF same_buffers_clock [OF c2]] by simp
  ultimately show ?thesis by blast
qed

text \<open>What the thread finds when it starts: a device with the pairs \<open>kvs\<close> and empty scan lists.\<close>

definition ready ::
  "('w, 'm) rocksdb \<Rightarrow> 'w os \<Rightarrow> u32 \<Rightarrow> 'm \<Rightarrow> ('w, 'm) master \<Rightarrow> bool" where
  "ready rdb os i db s \<longleftrightarrow>
     serves_iter os i \<and> mem_ok os \<and> unat i < 10 \<and> healthy rdb s \<and> dbptr s = Some db \<and>
     arrays_sized (ilsm_db s) \<and> scan_keys (ilsm_db s) ! unat i = [] \<and>
     scan_values (ilsm_db s) ! unat i = [] \<and> (\<exists>kvs. buf_abs (buffering_info (ilsm_db s)) kvs)"

lemma rollback_seek_pairs:
  assumes "ready rdb os i db s" and "serves_scan os NVME_CMD_KV_RANGE_SCAN_SEEK 0xFFFFFFFF kvs"
    and "scannable kvs" and "kvs \<noteq> []"
  defines "kv \<equiv> (fst (hd kvs), snd (last kvs))"
  shows "\<exists>l' s'. rollback_seek rdb murmur os l s = Inr (False, l', s') \<and>
    draining rdb i (tl (map fst kvs)) (butlast (map snd kvs))
      (snd (replay1 rdb murmur kv (keyTracker s, db))) l' s' \<and>
    keyTracker s' = fst (replay1 rdb murmur kv (keyTracker s, db))"
proof -
  let ?td = "replay1 rdb murmur kv (keyTracker s, db)"
  obtain old where "buf_abs (buffering_info (ilsm_db s)) old"
    using assms(1) by (auto simp: ready_def)
  then obtain d1 where d1: "CreateIter os 0 (ilsm_db s) = Inr (0, i, d1)" "same_scan (ilsm_db s) d1"
    using CreateIter_ok [of os i "ilsm_db s" old 0] assms(1) by (auto simp: ready_def)
  have sz: "arrays_sized d1" "scan_keys d1 ! unat i = []" "scan_values d1 ! unat i = []"
    using d1(2) assms(1) arrays_sized_same [OF d1(2)] by (simp_all add: ready_def same_scan_def)
  obtain d2 where d2: "SeekScan os i (bytes_of ''start'') (rb_value l) d1 =
      Inr (1, fst (hd kvs), snd (last kvs), d2)" "arrays_sized d2"
    "scan_keys d2 ! unat i = tl (map fst kvs)" "scan_values d2 ! unat i = butlast (map snd kvs)"
    "brk_point_key d2 ! unat i = 0xFFFFFFFF"
    using SeekScan_lists [OF assms(2-4) _ _ _ sz] assms(1) by (auto simp: ready_def)
  let ?l = "l\<lparr>rb_iter := Some i, rb_flag := 1, rb_key := fst (hd kvs), rb_value := snd (last kvs)\<rparr>"
  let ?s' = "s\<lparr>ilsm_db := d2, keyTracker := fst ?td, dbptr := Some (snd ?td)\<rparr>"
  have keys: "\<forall>k\<in>set (map fst kvs). length k = 4"
    using assms(3) by (auto simp: scannable_def)
  then have "length (fst (hd kvs)) = 4"
    using assms(4) by simp
  then have "restore rdb murmur (fst (hd kvs)) (snd (last kvs)) (s\<lparr>ilsm_db := d2\<rparr>) = Inr ?s'"
    using restore_replay1 [of "fst (hd kvs)" "s\<lparr>ilsm_db := d2\<rparr>" db rdb murmur "snd (last kvs)"] assms(1)
    by (simp add: ready_def kv_def)
  then have "rollback_seek rdb murmur os l s = Inr (False, ?l, ?s')"
    using d1(1) d2(1) by (simp add: rollback_seek_def)
  moreover have "\<forall>k\<in>set (tl (map fst kvs)). length k = 4"
    using keys by (auto dest: list.set_sel(2) [rotated] simp: map_tl [symmetric] assms(4))
  then have "draining rdb i (tl (map fst kvs)) (butlast (map snd kvs)) (snd ?td) ?l ?s'"
    using assms(1) d2 by (auto simp: draining_def ready_def healthy_dbptr)
  ultimately show ?thesis
    by (intro exI [of _ ?l] exI [of _ ?s']) simp
qed

section \<open>Properties\<close>

lemma replay_wf: "hm_wf t \<Longrightarrow> hm_wf (fst (replay rdb murmur kvs (t, db)))"
proof (induction kvs arbitrary: t db)
  case Nil
  then show ?case by simp
next
  case (Cons kv kvs)
  obtain t' db' where r: "replay1 rdb murmur kv (t, db) = (t', db')"
    by fastforce
  then have "hm_wf t'"
    using Cons.prems by (auto simp: replay1_def Let_def Delete_wf split: prod.splits if_splits)
  with Cons.IH r show ?case by simp
qed

lemma rollback_pairs:
  assumes "ready rdb os i db s" and "serves_scan os NVME_CMD_KV_RANGE_SCAN_SEEK 0xFFFFFFFF kvs"
    and "scannable kvs" and "kvs \<noteq> []" and "rb_flag l < 0" and "length kvs < fuel"
  defines "pairs \<equiv> zip (map fst kvs) (rev (map snd kvs))"
  shows "\<exists>l' s'. rollback_loop rdb murmur os fuel l s = Inr (l', s') \<and>
    rolled_back (fst (replay rdb murmur pairs (keyTracker s, db)))
      (snd (replay rdb murmur pairs (keyTracker s, db))) l' s'"
proof -
  let ?kv = "(fst (hd kvs), snd (last kvs))"
  let ?td = "replay1 rdb murmur ?kv (keyTracker s, db)"
  let ?rest = "zip (tl (map fst kvs)) (rev (butlast (map snd kvs)))"
  obtain f where f: "fuel = Suc f" "length kvs \<le> f"
    using assms(6) by (cases fuel) auto
  obtain l1 s1 where r: "rollback_seek rdb murmur os l s = Inr (False, l1, s1)"
    "draining rdb i (tl (map fst kvs)) (butlast (map snd kvs)) (snd ?td) l1 s1"
    "keyTracker s1 = fst ?td"
    using rollback_seek_pairs [OF assms(1-4)] by blast
  obtain s2 where m: "Monitor_Consumer rdb s1 = Inr s2"
    "draining rdb i (tl (map fst kvs)) (butlast (map snd kvs)) (snd ?td) l1 s2" "keyTracker s2 = fst ?td"
    using draining_monitor [OF r(2)] r(3) by auto
  have loop: "rollback_loop rdb murmur os fuel l s = rollback_loop rdb murmur os f l1 s2"
    using f(1) r(1) m(1) assms(5) by (simp add: rollback_round_def)
  have "length (butlast (map snd kvs)) < f"
    using f(2) assms(4) by (cases kvs) auto
  from rollback_drain [OF m(2) this, of murmur os] m(3) loop obtain l' s' where
    "rollback_loop rdb murmur os fuel l s = Inr (l', s')"
    "rolled_back (fst (replay rdb murmur ?rest ?td)) (snd (replay rdb murmur ?rest ?td)) l' s'"
    by auto
  moreover have "pairs = ?kv # ?rest"
    unfolding pairs_def by (rule zip_rev_ends [OF assms(4)])
  ultimately show ?thesis by auto
qed


text \<open>A device with two pairs that hands out iterator 0, and a master about to roll back.\<close>

definition rollback_os :: "unit os" where
  "rollback_os = two_pairs_os\<lparr>os_ioctl := (\<lambda>fd cmd data w.
     if cmd_opcode cmd = opcode_of NVME_CMD_KV_ITER_CREATE_ITER then ((0, 0, None), w)
     else os_ioctl two_pairs_os fd cmd data w)\<rparr>"

definition stalled :: "bytes hash_map \<Rightarrow> (unit, (bytes \<times> bytes) list) master" where
  "stalled t = started\<lparr>kache_flag := 1, keyTracker := t\<rparr>"

lemma list_rdb_reports: "reports list_rdb db 1 1 1"
  by (simp add: reports_def get_property_def list_rdb_def stoi_to_string stoull_to_string)

lemma healthy_started: "healthy list_rdb started"
  unfolding healthy_def
proof (intro conjI allI exI)
  show "reports list_rdb db 1 1 1" for db
    by (rule list_rdb_reports)
qed (simp_all add: started_simps)

lemma started_ilsm:
  "arrays_sized (ilsm_db started)" "scan_keys (ilsm_db started) ! 0 = []"
  "scan_values (ilsm_db started) ! 0 = []" "buf_abs (buffering_info (ilsm_db started)) []"
  by (simp_all add: started_def master_Open_def open_instances_def list_rdb_def master_new_def Open_def
      ok_os_def ilsm_new_def buf_abs_def arrays_sized_def MAX_ITERATOR_NUM_def Let_def)

lemma stalled_ready:
  assumes "serves_iter os 0" and "mem_ok os"
  shows "ready list_rdb os 0 [] (stalled t)"
  using assms started_ilsm healthy_started started_simps(1) by (auto simp: ready_def stalled_def)




lemma rollback_seek_empty:
  assumes "ready rdb os i db s" and "serves_scan os NVME_CMD_KV_RANGE_SCAN_SEEK nxt []"
  shows "\<exists>l' s' db'. rollback_seek rdb murmur os l s = Inr (False, l', s') \<and> rb_flag l' < 0 \<and>
    ready rdb os i db' s'"
proof -
  obtain old where "buf_abs (buffering_info (ilsm_db s)) old"
    using assms(1) by (auto simp: ready_def)
  then obtain d1 where d1: "CreateIter os 0 (ilsm_db s) = Inr (0, i, d1)" "same_scan (ilsm_db s) d1"
    "buf_abs (buffering_info d1) []"
    using CreateIter_ok [of os i "ilsm_db s" old 0] assms(1) by (auto simp: ready_def)
  have sz: "arrays_sized d1" "scan_keys d1 ! unat i = []" "scan_values d1 ! unat i = []"
    using d1(2) assms(1) arrays_sized_same [OF d1(2)] by (simp_all add: ready_def same_scan_def)
  obtain d2 where d2: "SeekScan os i (bytes_of ''start'') (rb_value l) d1 =
      Inr (-2, bytes_of ''start'', rb_value l, d2)" "arrays_sized d2"
    "scan_keys d2 ! unat i = []" "scan_values d2 ! unat i = []" "buffering_info d2 = buffering_info d1"
    using SeekScan_empty [OF assms(2) _ _ _ sz] assms(1) by (auto simp: ready_def)
  let ?l = "l\<lparr>rb_iter := Some i, rb_flag := -2, rb_key := bytes_of ''start'', rb_value := rb_value l\<rparr>"
  let ?td = "replay1 rdb murmur (bytes_of ''start'', rb_value l) (keyTracker s, db)"
  let ?s' = "s\<lparr>ilsm_db := d2, keyTracker := fst ?td, dbptr := Some (snd ?td)\<rparr>"
  have "restore rdb murmur (bytes_of ''start'') (rb_value l) (s\<lparr>ilsm_db := d2\<rparr>) = Inr ?s'"
    using restore_replay1 [of "bytes_of ''start''" "s\<lparr>ilsm_db := d2\<rparr>" db rdb murmur "rb_value l"] assms(1)
    by (simp add: ready_def)
  then have "rollback_seek rdb murmur os l s = Inr (False, ?l, ?s')"
    using d1(1) d2(1) by (simp add: rollback_seek_def)
  moreover have "ready rdb os i (snd ?td) ?s'"
    using assms(1) d1(3) d2 by (auto simp: ready_def healthy_dbptr)
  moreover have "rb_flag ?l < 0"
    by simp
  ultimately show ?thesis by blast
qed

text \<open>
  Claim C27 (liveness).  If the device's scan finds nothing, as after a flush whose error was ignored,
  the roll-back never ends: it seeks again in every round, whatever the number of rounds, while it
  holds the lock that every redirected \<open>Put\<close> needs.
\<close>

theorem rollback_livelock:
  assumes "ready rdb os i db s" and "serves_scan os NVME_CMD_KV_RANGE_SCAN_SEEK nxt []"
    and "rb_flag l < 0"
  shows "rollback_loop rdb murmur os fuel l s = Inl Out_Of_Fuel"
  using assms(1,3)
proof (induction fuel arbitrary: l s db)
  case 0
  then show ?case by simp
next
  case (Suc fuel)
  obtain l1 s1 db1 where r: "rollback_seek rdb murmur os l s = Inr (False, l1, s1)" "rb_flag l1 < 0"
    "ready rdb os i db1 s1"
    using rollback_seek_empty [OF Suc.prems(1) assms(2)] by blast
  then obtain lv st where m:
    "Monitor_Consumer rdb s1 = Inr (s1\<lparr>monitor_L0_status_arr := lv, rollback_status := st\<rparr>)"
    using healthy_monitor [of rdb s1] by (auto simp: ready_def)
  have "ready rdb os i db1 (s1\<lparr>monitor_L0_status_arr := lv, rollback_status := st\<rparr>)"
    using r(3) by (simp add: ready_def)
  with Suc.IH r(2) have "rollback_loop rdb murmur os fuel l1
      (s1\<lparr>monitor_L0_status_arr := lv, rollback_status := st\<rparr>) = Inl Out_Of_Fuel"
    by blast
  then show ?case
    using r(1) m Suc.prems(2) by (simp add: rollback_round_def)
qed

definition empty_os :: "unit os" where
  "empty_os = ok_os\<lparr>os_ioctl := (\<lambda>_ _ _ w. ((0, 0, Some (image_region (block_image []))), w))\<rparr>"

theorem rollback_livelock_witness:
  "\<forall>fuel. rollback_loop list_rdb (\<lambda>_. (0, 0)) empty_os fuel rb_start (stalled hm_new) = Inl Out_Of_Fuel"
proof
  fix fuel
  have "length (block_image []) = 4096"
    by (simp add: block_image_def header_def)
  then have serves: "serves_iter empty_os 0" "mem_ok empty_os"
    "serves_scan empty_os NVME_CMD_KV_RANGE_SCAN_SEEK 0 []"
    using image_region_load [of "block_image []"]
    by (simp_all add: serves_iter_def empty_os_def mem_ok_def serves_scan_def ok_os_def)
  show "rollback_loop list_rdb (\<lambda>_. (0, 0)) empty_os fuel rb_start (stalled hm_new) = Inl Out_Of_Fuel"
    by (rule rollback_livelock [OF stalled_ready [OF serves(1,2)] serves(3)]) (simp add: rb_start_def)
qed

end
