(* ===== verification/Master_Iterator.thy ===== *)
theory Master_Iterator
  imports Rollback
begin

text \<open>
  The merged iterator of \<open>DB_MASTER\<close> (\<open>IteratorReset\<close> to \<open>IteratorKey\<close> in \<open>db_impl_master.cc\<close>): a
  RocksDB iterator over the Main-LSM and a bulk scan over the Dev-LSM, with \<open>iter_location\<close> telling
  which of the two the caller sees.
\<close>

section \<open>Operations\<close>

text \<open>
  The RocksDB iterator is a parameter.  Its documentation requires \<open>Valid ()\<close> before \<open>key ()\<close> and
  \<open>value ()\<close>.
\<close>

record ('m, 'i) rocks_iter =
  it_new :: "'m \<Rightarrow> 'i"
  it_seek :: "bytes \<Rightarrow> 'i \<Rightarrow> 'i"
  it_valid :: "'i \<Rightarrow> bool"
  it_next :: "'i \<Rightarrow> 'i"
  it_prev :: "'i \<Rightarrow> 'i"
  it_key :: "'i \<Rightarrow> bytes"
  it_value :: "'i \<Rightarrow> bytes"

definition key_at :: "('m, 'i) rocks_iter \<Rightarrow> 'i \<Rightarrow> bytes outcome" where
  "key_at it iter = (if it_valid it iter then Inr (it_key it iter) else Inl Assert_Failed)"

definition value_at :: "('m, 'i) rocks_iter \<Rightarrow> 'i \<Rightarrow> bytes outcome" where
  "value_at it iter = (if it_valid it iter then Inr (it_value it iter) else Inl Assert_Failed)"

text \<open>The sign of \<open>Slice::compare\<close>.\<close>

fun slice_compare :: "bytes \<Rightarrow> bytes \<Rightarrow> int" where
  "slice_compare [] [] = 0"
| "slice_compare [] (y # ys) = -1"
| "slice_compare (x # xs) [] = 1"
| "slice_compare (x # xs) (y # ys) =
     (if x < y then -1 else if y < x then 1 else slice_compare xs ys)"

text \<open>\<open>IteratorGet\<close> copies the pointer held by the caller's \<open>unique_ptr\<close>.\<close>

definition IteratorGet :: "'i option \<Rightarrow> 'i option" where
  "IteratorGet single_iter = single_iter"

definition IteratorReset ::
  "('m, 'i) rocks_iter \<Rightarrow> 'w os \<Rightarrow> ('w, 'm) master \<Rightarrow> ('i \<times> ('w, 'm) master) outcome" where
  "IteratorReset it os s =
     bindO (deref (dbptr s)) (\<lambda>db.
       let iter = it_new it db
       in if kache_flag s = 1
          then bindO (CreateIter os (ilsm_iter_id s) (ilsm_db s)) (\<lambda>(_, i, d).
                 Inr (iter, s\<lparr>ilsm_db := d, ilsm_iter_id := i\<rparr>))
          else Inr (iter, s))"

text \<open>Assigning the iterator's own copies of the current key and value.\<close>

definition set_current ::
  "bytes \<Rightarrow> bytes \<Rightarrow> ('w, 'm) master \<Rightarrow> ('w, 'm) master outcome" where
  "set_current key value s =
     bindO (set_at (iter_values (ilsm_db s)) (unat (ilsm_iter_id s)) value) (\<lambda>vs.
     bindO (set_at (iter_keys (ilsm_db s)) (unat (ilsm_iter_id s)) key) (\<lambda>ks.
       Inr (s\<lparr>ilsm_db := (ilsm_db s)\<lparr>iter_values := vs, iter_keys := ks\<rparr>\<rparr>)))"

definition IteratorSeek ::
  "('m, 'i) rocks_iter \<Rightarrow> 'w os \<Rightarrow> bytes \<Rightarrow> 'i \<Rightarrow> ('w, 'm) master \<Rightarrow> ('i \<times> ('w, 'm) master) outcome" where
  "IteratorSeek it os key iter s =
     (let iter = it_seek it key iter
      in if kache_flag s = 1
         then bindO (SeekScan os (ilsm_iter_id s) key [] (ilsm_db s)) (\<lambda>(_, target_key, value, d).
              bindO (set_current target_key value (s\<lparr>ilsm_db := d\<rparr>)) (\<lambda>s.
              bindO (key_at it iter) (\<lambda>k.
                Inr (iter, s\<lparr>iter_location := (if slice_compare k target_key \<le> 0 then 0 else 1)\<rparr>))))
         else Inr (iter, s))"

definition IteratorValid :: "('m, 'i) rocks_iter \<Rightarrow> 'i \<Rightarrow> bool" where
  "IteratorValid it iter = it_valid it iter"

definition IteratorCompare ::
  "('m, 'i) rocks_iter \<Rightarrow> 'i \<Rightarrow> bytes \<Rightarrow> ('w, 'm) master \<Rightarrow> bool outcome" where
  "IteratorCompare it iter key s =
     (if it_valid it iter \<and> slice_compare (it_key it iter) key = 0 then Inr True
      else if kache_flag s = 1
      then bindO (at_index (iter_keys (ilsm_db s)) (unat (ilsm_iter_id s))) (\<lambda>k.
             Inr (slice_compare key k = 0))
      else Inr False)"

text \<open>\<open>NextScan\<close> into fresh strings, which become the current key and value whatever it returned.\<close>

definition dev_next :: "'w os \<Rightarrow> ('w, 'm) master \<Rightarrow> ('w, 'm) master outcome" where
  "dev_next os s =
     bindO (NextScan os (ilsm_iter_id s) [] [] (ilsm_db s)) (\<lambda>(_, key, value, d).
       set_current key value (s\<lparr>ilsm_db := d\<rparr>))"

definition IteratorNext ::
  "('m, 'i) rocks_iter \<Rightarrow> 'w os \<Rightarrow> 'i \<Rightarrow> ('w, 'm) master \<Rightarrow> ('i \<times> ('w, 'm) master) outcome" where
  "IteratorNext it os iter s =
     (if kache_flag s = 0
      then Inr (if it_valid it iter then it_next it iter else iter, s)
      else if iter_location s = 0 \<and> it_valid it iter
      then let iter = it_next it iter
           in bindO (key_at it iter) (\<lambda>k.
              bindO (at_index (iter_keys (ilsm_db s)) (unat (ilsm_iter_id s))) (\<lambda>dk.
                if slice_compare k dk > 0
                then bindO (dev_next os s) (\<lambda>s. Inr (iter, s\<lparr>iter_location := 1\<rparr>))
                else Inr (iter, s)))
      else if iter_location s = 1
      then bindO (dev_next os s) (\<lambda>s.
           bindO (key_at it iter) (\<lambda>k.
           bindO (at_index (iter_keys (ilsm_db s)) (unat (ilsm_iter_id s))) (\<lambda>dk.
             if slice_compare k dk < 0 then Inr (it_next it iter, s\<lparr>iter_location := 0\<rparr>)
             else Inr (iter, s))))
      else Inr (iter, s))"

definition IteratorPrev :: "('m, 'i) rocks_iter \<Rightarrow> 'i \<Rightarrow> 'i" where
  "IteratorPrev it iter = (if it_valid it iter then it_prev it iter else iter)"

definition master_DestroyIter :: "'w os \<Rightarrow> ('w, 'm) master \<Rightarrow> ('w, 'm) master outcome" where
  "master_DestroyIter os s =
     bindO (DestroyIter os (ilsm_iter_id s) (ilsm_db s)) (\<lambda>(_, d). Inr (s\<lparr>ilsm_db := d\<rparr>))"

definition IteratorValue ::
  "('m, 'i) rocks_iter \<Rightarrow> 'i \<Rightarrow> ('w, 'm) master \<Rightarrow> bytes outcome" where
  "IteratorValue it iter s =
     (if iter_location s = 0 then value_at it iter
      else at_index (iter_values (ilsm_db s)) (unat (ilsm_iter_id s)))"

definition IteratorKey ::
  "('m, 'i) rocks_iter \<Rightarrow> 'i \<Rightarrow> ('w, 'm) master \<Rightarrow> bytes outcome" where
  "IteratorKey it iter s =
     (if iter_location s = 0 then key_at it iter
      else at_index (iter_keys (ilsm_db s)) (unat (ilsm_iter_id s)))"

section \<open>Comparing slices\<close>

lemma slice_compare_refl [simp]: "slice_compare a a = 0"
  by (induction a) auto

lemma slice_compare_eq_0: "slice_compare a b = 0 \<longleftrightarrow> a = b"
  by (induction a b rule: slice_compare.induct) (auto simp: not_less)

lemma slice_compare_antisym: "slice_compare b a = - slice_compare a b"
  by (induction a b rule: slice_compare.induct) (auto simp: not_less)

lemma slice_compare_trans:
  "slice_compare a b \<le> 0 \<Longrightarrow> slice_compare b c \<le> 0 \<Longrightarrow> slice_compare a c \<le> 0"
proof (induction a b arbitrary: c rule: slice_compare.induct)
  case (4 x xs y ys)
  then show ?case
    by (cases c) (auto split: if_splits)
qed (auto split: list.splits, (case_tac c; simp)+)

section \<open>Properties\<close>

text \<open>The keys a caller sees at \<open>n\<close> successive positions.\<close>

fun walk ::
  "('m, 'i) rocks_iter \<Rightarrow> 'w os \<Rightarrow> nat \<Rightarrow> 'i \<Rightarrow> ('w, 'm) master \<Rightarrow> bytes list outcome" where
  "walk it os 0 iter s = Inr []"
| "walk it os (Suc n) iter s =
     bindO (IteratorKey it iter s) (\<lambda>k.
     bindO (IteratorNext it os iter s) (\<lambda>(iter, s).
     bindO (walk it os n iter s) (\<lambda>ks. Inr (k # ks))))"

lemma walk_main:
  assumes "kache_flag s = 0" and "iter_location s = 0"
    and "\<forall>j<n. it_valid it ((it_next it ^^ j) iter)"
  shows "walk it os n iter s = Inr (map (\<lambda>j. it_key it ((it_next it ^^ j) iter)) [0..<n])"
  using assms(3)
proof (induction n arbitrary: iter)
  case 0
  then show ?case by simp
next
  case (Suc n)
  have v: "it_valid it iter"
    using Suc.prems [rule_format, of 0] by simp
  have "\<forall>j<n. it_valid it ((it_next it ^^ j) (it_next it iter))"
    using Suc.prems by (metis Suc_mono funpow_Suc_right comp_apply)
  note IH = Suc.IH [OF this]
  have "map (\<lambda>j. it_key it ((it_next it ^^ j) iter)) [0..<Suc n] =
      it_key it iter # map (\<lambda>j. it_key it ((it_next it ^^ j) (it_next it iter))) [0..<n]"
    by (simp add: map_upt_Suc funpow_swap1 del: upt_Suc)
  with v IH assms(1,2) show ?case
    by (simp add: IteratorKey_def IteratorNext_def key_at_def del: upt_Suc)
qed

lemma walk_stale:
  assumes "kache_flag s = 0" and "iter_location s \<noteq> 0"
    and "unat (ilsm_iter_id s) < length (iter_keys (ilsm_db s))"
  shows "walk it os n iter s = Inr (replicate n (iter_keys (ilsm_db s) ! unat (ilsm_iter_id s)))"
  using assms by (induction n arbitrary: iter) (simp_all add: IteratorKey_def IteratorNext_def)

text \<open>
  Without data on the device, a caller that seeks and steps sees the keys of
  the RocksDB iterator in order, provided \<open>iter_location\<close> is 0.  Nothing sets it back to 0 when an
  earlier iteration left it at 1, and then the caller sees the device's last key at every position.
\<close>

theorem Iterator_main_only:
  assumes "kache_flag s = 0" and "\<forall>j<n. it_valid it ((it_next it ^^ j) (it_seek it key iter))"
    and "unat (ilsm_iter_id s) < length (iter_keys (ilsm_db s))"
  shows "bindO (IteratorSeek it os key iter s) (\<lambda>(iter, s). walk it os n iter s) =
    Inr (if iter_location s = 0
         then map (\<lambda>j. it_key it ((it_next it ^^ j) (it_seek it key iter))) [0..<n]
         else replicate n (iter_keys (ilsm_db s) ! unat (ilsm_iter_id s)))"
proof -
  have "IteratorSeek it os key iter s = Inr (it_seek it key iter, s)"
    using assms(1) by (simp add: IteratorSeek_def)
  then show ?thesis
    using walk_main [OF assms(1) _ assms(2), of os] walk_stale [OF assms(1) _ assms(3), of it os n]
    by (cases "iter_location s = 0") auto
qed

text \<open>An iterator over a sorted list of pairs: the position it has reached.\<close>

definition list_iter :: "((bytes \<times> bytes) list, (bytes \<times> bytes) list) rocks_iter" where
  "list_iter =
     \<lparr>it_new = (\<lambda>db. db), it_seek = (\<lambda>k xs. dropWhile (\<lambda>kv. slice_compare (fst kv) k < 0) xs),
      it_valid = (\<lambda>xs. xs \<noteq> []), it_next = tl, it_prev = (\<lambda>xs. xs),
      it_key = (\<lambda>xs. fst (hd xs)), it_value = (\<lambda>xs. snd (hd xs))\<rparr>"

lemma started_iter: "iter_keys (ilsm_db started) = replicate 10 []" "ilsm_iter_id started = 0"
  "iter_location started = 0"
  by (simp_all add: started_def master_Open_def open_instances_def list_rdb_def master_new_def Open_def
      ok_os_def ilsm_new_def MAX_ITERATOR_NUM_def Let_def)

theorem Iterator_main_only_witness:
  "bindO (IteratorSeek list_iter ok_os [1] [([1], [10]), ([2], [20])] (started\<lparr>iter_location := 1\<rparr>))
     (\<lambda>(iter, s). walk list_iter ok_os 2 iter s) = Inr [[], []]"
proof -
  have "\<forall>j<2. it_valid list_iter
      ((it_next list_iter ^^ j) (it_seek list_iter [1] [([1], [10]), ([2], [20])]))"
    by (auto simp: list_iter_def less_Suc_eq numeral_2_eq_2)
  then show ?thesis
    using Iterator_main_only [of "started\<lparr>iter_location := 1\<rparr>" 2 list_iter "[1]"
        "[([1], [10]), ([2], [20])]" ok_os] started_simps(2) started_iter
    by (simp add: numeral_2_eq_2)
qed

lemma set_current_ok:
  assumes "arrays_sized (ilsm_db s)" and "unat (ilsm_iter_id s) < 10"
  shows "set_current k v s =
    Inr (s\<lparr>ilsm_db := (ilsm_db s)\<lparr>iter_values := (iter_values (ilsm_db s))[unat (ilsm_iter_id s) := v],
                                iter_keys := (iter_keys (ilsm_db s))[unat (ilsm_iter_id s) := k]\<rparr>\<rparr>)"
  using assms by (simp add: set_current_def set_at_def arrays_sized_def)

text \<open>
  Claim C33 (safety).  While the caller is at a key of the Main-LSM and the device's current key is
  \<open>dk\<close>, a step past \<open>dk\<close> in the Main-LSM advances the device before showing it: the caller goes from
  the Main-LSM's key straight to the device's next key \<open>k\<close>, and \<open>dk\<close> is never shown.
\<close>

theorem IteratorNext_skips_device_key:
  assumes "kache_flag s \<noteq> 0" and "iter_location s = 0" and "it_valid it iter"
    and "it_valid it (it_next it iter)" and "arrays_sized (ilsm_db s)" and "unat (ilsm_iter_id s) < 10"
    and "iter_keys (ilsm_db s) ! unat (ilsm_iter_id s) = dk"
    and "slice_compare (it_key it (it_next it iter)) dk > 0"
    and "scan_keys (ilsm_db s) ! unat (ilsm_iter_id s) = k # ks"
    and "scan_values (ilsm_db s) ! unat (ilsm_iter_id s) = vs @ [v]"
  shows "\<exists>iter' s'. IteratorKey it iter s = Inr (it_key it iter) \<and>
    IteratorNext it os iter s = Inr (iter', s') \<and> IteratorKey it iter' s' = Inr k \<and>
    IteratorValue it iter' s' = Inr v \<and> scan_keys (ilsm_db s') ! unat (ilsm_iter_id s') = ks"
proof -
  let ?i = "unat (ilsm_iter_id s)"
  obtain d where d: "NextScan os (ilsm_iter_id s) [] [] (ilsm_db s) = Inr (1, k, v, d)" "arrays_sized d"
    "scan_keys d = (scan_keys (ilsm_db s))[?i := ks]"
    using NextScan_buffered [OF assms(10,9,6,5), of os "[]" "[]"] by blast
  let ?d = "d\<lparr>iter_values := (iter_values d)[?i := v], iter_keys := (iter_keys d)[?i := k]\<rparr>"
  have "dev_next os s = Inr (s\<lparr>ilsm_db := ?d\<rparr>)"
    using d(1,2) set_current_ok [of "s\<lparr>ilsm_db := d\<rparr>" k v] assms(6) by (simp add: dev_next_def)
  then have "IteratorNext it os iter s = Inr (it_next it iter, s\<lparr>ilsm_db := ?d, iter_location := 1\<rparr>)"
    using assms(1-8) by (simp add: IteratorNext_def key_at_def arrays_sized_def)
  then show ?thesis
    using assms(2,3,5,6) d(2,3) by (simp add: IteratorKey_def IteratorValue_def key_at_def arrays_sized_def)
qed

theorem IteratorNext_skips_device_key_witness:
  "\<exists>iter' s'. IteratorNext list_iter ok_os [([1], [10]), ([9], [90])]
       (started\<lparr>kache_flag := 1, ilsm_db := (ilsm_db started)
          \<lparr>iter_keys := (replicate 10 [])[0 := [5]], scan_keys := (replicate 10 [])[0 := [[6]]],
           scan_values := (replicate 10 [])[0 := [[60]]]\<rparr>\<rparr>) = Inr (iter', s') \<and>
     IteratorKey list_iter iter' s' = Inr [6]"
proof -
  let ?s = "started\<lparr>kache_flag := 1, ilsm_db := (ilsm_db started)
          \<lparr>iter_keys := (replicate 10 [])[0 := [5]], scan_keys := (replicate 10 [])[0 := [[6]]],
           scan_values := (replicate 10 [])[0 := [[60]]]\<rparr>\<rparr>"
  have "arrays_sized (ilsm_db ?s)"
    using started_ilsm(1) by (simp add: arrays_sized_def)
  moreover have "scan_values (ilsm_db ?s) ! unat (ilsm_iter_id ?s) = [] @ [[60]]"
    using started_iter(2) by simp
  ultimately show ?thesis
    using IteratorNext_skips_device_key [of ?s list_iter "[([1], [10]), ([9], [90])]" "[5]" "[6]" "[]" "[]"
        "[60]" ok_os] started_iter by (auto simp: list_iter_def)
qed

end
