(* ===== verification/Master_System.thy ===== *)
theory Master_System
  imports Master_Iterator
begin

text \<open>
  \<open>DB_MASTER\<close> as a transition system: the public operations, the monitor and the rounds of the
  roll-back thread, in any order, from a freshly opened object; and the invariant that ties the key
  tracker to \<open>kache_flag\<close>.
\<close>

inductive master_step ::
  "('w, 'm) rocksdb \<Rightarrow> ('m, 'i) rocks_iter \<Rightarrow> murmur \<Rightarrow> 'w os \<Rightarrow> ('w, 'm) master \<Rightarrow> ('w, 'm) master \<Rightarrow> bool"
  for rdb it murmur os where
  ms_put: "master_Put rdb murmur os key v s = Inr (st, s') \<Longrightarrow> master_step rdb it murmur os s s'"
| ms_get: "master_Get rdb murmur os key x s = Inr (st, y, s') \<Longrightarrow> master_step rdb it murmur os s s'"
| ms_monitor: "Monitor_Consumer rdb s = Inr s' \<Longrightarrow> master_step rdb it murmur os s s'"
| ms_rollback_start: "master_step rdb it murmur os s (s\<lparr>rollback_flag := 1\<rparr>)"
| ms_rollback: "rollback_round rdb murmur os l s = Inr (brk, l', s') \<Longrightarrow> master_step rdb it murmur os s s'"
| ms_reset: "IteratorReset it os s = Inr (iter, s') \<Longrightarrow> master_step rdb it murmur os s s'"
| ms_seek: "IteratorSeek it os key iter s = Inr (iter', s') \<Longrightarrow> master_step rdb it murmur os s s'"
| ms_next: "IteratorNext it os iter s = Inr (iter', s') \<Longrightarrow> master_step rdb it murmur os s s'"
| ms_destroy: "master_DestroyIter os s = Inr s' \<Longrightarrow> master_step rdb it murmur os s s'"

inductive_cases master_stepE: "master_step rdb it murmur os s s'"

definition master_init :: "('w, 'm) rocksdb \<Rightarrow> 'w os \<Rightarrow> ('w, 'm) master \<Rightarrow> bool" where
  "master_init rdb os s \<longleftrightarrow> (\<exists>opts name w. s = snd (master_Open rdb os opts name 1 (master_new w)))"

text \<open>The part of the state the invariant is about.\<close>

definition tracked_inv :: "bytes hash_map \<Rightarrow> int \<Rightarrow> bool" where
  "tracked_inv t flag \<longleftrightarrow> hm_wf t \<and> (flag = 0 \<or> flag = 1) \<and> (flag = 0 \<longrightarrow> hm_mult t = (\<lambda>_. 0))"

definition master_inv :: "('w, 'm) master \<Rightarrow> bool" where
  "master_inv s \<longleftrightarrow> tracked_inv (keyTracker s) (kache_flag s)"

lemma master_inv_frame [simp]:
  "master_inv (s\<lparr>rollback_flag := f\<rparr>) = master_inv s"
  "master_inv (s\<lparr>ilsm_db := d\<rparr>) = master_inv s"
  "master_inv (s\<lparr>ilsm_db := d, ilsm_iter_id := i\<rparr>) = master_inv s"
  "master_inv (s\<lparr>iter_location := loc\<rparr>) = master_inv s"
  by (simp_all add: master_inv_def)

lemma tracked_inv_delete: "tracked_inv t f \<Longrightarrow> tracked_inv (Delete t h) f"
  by (auto simp: tracked_inv_def tracker.bag_specs)

lemma tracked_inv_insert: "tracked_inv t f \<Longrightarrow> tracked_inv (Insert t h k) 1"
  by (simp add: tracked_inv_def tracker.bag_specs)

lemma tracked_inv_clear: "tracked_inv t f \<Longrightarrow> tracked_inv (Clear t) 0"
  by (simp add: tracked_inv_def tracker.bag_specs)

lemma main_put_frame:
  "main_put rdb k v s = Inr (st, s') \<Longrightarrow> keyTracker s' = keyTracker s \<and> kache_flag s' = kache_flag s"
  by (auto simp: main_put_def bindO_eq_Inr split_beta)

lemma main_put_inv: "main_put rdb k v s = Inr (st, s') \<Longrightarrow> master_inv s \<Longrightarrow> master_inv s'"
  by (auto simp: master_inv_def dest!: main_put_frame)

lemma untrack_inv: "master_inv s \<Longrightarrow> master_inv (untrack h s)"
  by (simp add: master_inv_def untrack_def tracked_inv_delete)

lemma restore_inv: "restore rdb murmur k v s = Inr s' \<Longrightarrow> master_inv s \<Longrightarrow> master_inv s'"
  by (auto simp: restore_def bindO_eq_Inr split_beta split: if_splits
      intro: main_put_inv untrack_inv)

lemma master_Put_inv: "master_Put rdb murmur os k v s = Inr (st, s') \<Longrightarrow> master_inv s \<Longrightarrow> master_inv s'"
  by (auto simp: master_Put_def bindO_eq_Inr Let_def split_beta split: if_splits
      intro: main_put_inv untrack_inv) (auto simp: master_inv_def intro: tracked_inv_insert)

lemma main_get_same: "main_get rdb k x s = Inr (st, y, s') \<Longrightarrow> s' = s"
  by (auto simp: main_get_def bindO_eq_Inr split_beta Let_def split: if_splits)

lemma dev_get_inv: "dev_get os k x s = Inr (st, y, s') \<Longrightarrow> master_inv s \<Longrightarrow> master_inv s'"
  by (auto simp: dev_get_def bindO_eq_Inr split_beta Let_def split: if_splits)

lemma master_Get_inv: "master_Get rdb murmur os k x s = Inr (st, y, s') \<Longrightarrow> master_inv s \<Longrightarrow> master_inv s'"
  by (auto simp: master_Get_def bindO_eq_Inr split: if_splits intro: dev_get_inv dest: main_get_same)

lemma Monitor_inv: "Monitor_Consumer rdb s = Inr s' \<Longrightarrow> master_inv s \<Longrightarrow> master_inv s'"
  by (auto simp: Monitor_Consumer_def bindO_eq_Inr master_inv_def Let_def)

lemma rollback_seek_inv:
  "rollback_seek rdb murmur os l s = Inr (brk, l', s') \<Longrightarrow> master_inv s \<Longrightarrow> master_inv s'"
  by (auto simp: rollback_seek_def bindO_eq_Inr Let_def split_beta intro: restore_inv)

lemma rollback_next_inv:
  "rollback_next rdb murmur os l s = Inr (brk, l', s') \<Longrightarrow> master_inv s \<Longrightarrow> master_inv s'"
  by (auto simp: rollback_next_def bindO_eq_Inr Let_def split_beta split: if_splits
      intro: restore_inv) (auto simp: master_inv_def intro: tracked_inv_clear)

lemma set_current_inv: "set_current k v s = Inr s' \<Longrightarrow> master_inv s \<Longrightarrow> master_inv s'"
  by (auto simp: set_current_def bindO_eq_Inr)

lemma dev_next_inv: "dev_next os s = Inr s' \<Longrightarrow> master_inv s \<Longrightarrow> master_inv s'"
  by (auto simp: dev_next_def bindO_eq_Inr split_beta intro: set_current_inv)

lemma IteratorReset_inv: "IteratorReset it os s = Inr (iter, s') \<Longrightarrow> master_inv s \<Longrightarrow> master_inv s'"
  by (auto simp: IteratorReset_def bindO_eq_Inr split_beta Let_def split: if_splits)

lemma IteratorSeek_inv: "IteratorSeek it os key i s = Inr (iter, s') \<Longrightarrow> master_inv s \<Longrightarrow> master_inv s'"
  by (cases "kache_flag s = 1")
     (auto simp: IteratorSeek_def bindO_eq_Inr split_beta Let_def dest!: set_current_inv)

lemma IteratorNext_inv: "IteratorNext it os i s = Inr (iter, s') \<Longrightarrow> master_inv s \<Longrightarrow> master_inv s'"
  by (auto simp: IteratorNext_def bindO_eq_Inr split_beta Let_def split: if_splits
      intro: dev_next_inv)

lemma DestroyIter_inv: "master_DestroyIter os s = Inr s' \<Longrightarrow> master_inv s \<Longrightarrow> master_inv s'"
  by (auto simp: master_DestroyIter_def bindO_eq_Inr split_beta)

lemmas operations_inv = master_Put_inv master_Get_inv Monitor_inv rollback_seek_inv rollback_next_inv
  IteratorReset_inv IteratorSeek_inv IteratorNext_inv DestroyIter_inv

lemma master_init_inv: "master_init rdb os s \<Longrightarrow> master_inv s"
proof -
  assume "master_init rdb os s"
  then have "keyTracker s = hm_new" "kache_flag s = 0"
    by (auto simp: master_init_def master_Open_def open_instances_def master_new_def Let_def hm_new_def
        split: prod.splits)
  then show ?thesis
    using hm_new_wf by (simp add: master_inv_def tracked_inv_def) (simp add: fun_eq_iff hm_mult_def
        hm_entries_def hm_new_def)
qed

interpretation master: inductive_invariant "master_init rdb os" "master_step rdb it murmur os" master_inv
proof
  show "master_init rdb os s \<Longrightarrow> master_inv s" for s
    by (rule master_init_inv)
  show "master_inv s \<Longrightarrow> master_step rdb it murmur os s t \<Longrightarrow> master_inv t" for s t
    by (erule master_stepE)
       (auto intro: operations_inv simp: rollback_round_def split: if_splits)
qed



end
