(* ===== verification/Locking.thy ===== *)
theory Locking
  imports Db_Master
begin

text \<open>
  The locking protocol of \<open>DB_MASTER\<close>: the mutex \<open>reset_mtx\<close> and the shared mutex \<open>rollback_mtx\<close>, and
  every way in which \<open>Put\<close>, \<open>Get\<close> and \<open>Rollback_Consumer\<close> take and release them, as a step relation on
  the program counters of the threads.  Thread 0 is the roll-back thread, the others are clients.  The
  flags and the monitor level that select the path are part of the state.  What the monitor measures and
  what the device answers is decided outside the program, so any outcome is a step.
\<close>

section \<open>Threads and locks\<close>

text \<open>Where a thread stands; a name ending in \<open>Want\<close> is a thread blocked in a \<open>lock\<close> call.\<close>

datatype pc =
    Idle
  | Put_Main
  | Put_Want_Reset
  | Put_Want_Rollback
  | Put_Tracked
  | Put_Unlock
  | Redirect_Want
  | Redirect_Flag
  | Redirect_Write
  | Get_Main
  | Get_Want
  | Get_Shared
  | Get_Free
  | Roll_Want_Reset
  | Roll_Flag
  | Roll_Scan
  | Roll_Want
  | Roll_Restore
  | Roll_Monitor
  | Roll_Done

record conc =
  pcs :: "nat \<Rightarrow> pc"
  reset_mtx :: "nat option"
  rollback_mtx :: "nat option"
  rollback_shared :: "nat set"
  c_kache_flag :: int
  c_rollback_flag :: int
  c_level :: Level

definition conc_start :: "conc \<Rightarrow> bool" where
  "conc_start c \<longleftrightarrow>
     c = \<lparr>pcs = \<lambda>_. Idle, reset_mtx = None, rollback_mtx = None, rollback_shared = {},
          c_kache_flag = 0, c_rollback_flag = 0, c_level = LEVEL_LOW\<rparr>"

definition goto :: "nat \<Rightarrow> pc \<Rightarrow> conc \<Rightarrow> conc" where
  "goto t p c = c\<lparr>pcs := (pcs c)(t := p)\<rparr>"

lemma goto_simps [simp]:
  "pcs (goto t p c) = (pcs c)(t := p)"
  "reset_mtx (goto t p c) = reset_mtx c"
  "rollback_mtx (goto t p c) = rollback_mtx c"
  "rollback_shared (goto t p c) = rollback_shared c"
  "c_kache_flag (goto t p c) = c_kache_flag c"
  "c_rollback_flag (goto t p c) = c_rollback_flag c"
  "c_level (goto t p c) = c_level c"
  by (simp_all add: goto_def)

section \<open>The steps\<close>

text \<open>\<open>Put\<close>: the direct path, the path while the Dev-LSM holds data, and the redirected path.\<close>

inductive put_step :: "nat \<Rightarrow> conc \<Rightarrow> conc \<Rightarrow> bool" where
  put_main: "pcs c t = Idle \<Longrightarrow> c_level c \<noteq> LEVEL_HIGH \<Longrightarrow> c_kache_flag c = 0 \<Longrightarrow>
    put_step t c (goto t Put_Main c)"
| put_main_done: "pcs c t = Put_Main \<Longrightarrow> put_step t c (goto t Idle c)"
| put_tracked: "pcs c t = Idle \<Longrightarrow> c_level c \<noteq> LEVEL_HIGH \<Longrightarrow> c_kache_flag c \<noteq> 0 \<Longrightarrow>
    put_step t c (goto t Put_Want_Reset c)"
| put_lock_reset: "pcs c t = Put_Want_Reset \<Longrightarrow> reset_mtx c = None \<Longrightarrow>
    put_step t c (goto t Put_Want_Rollback (c\<lparr>reset_mtx := Some t\<rparr>))"
| put_lock_rollback: "pcs c t = Put_Want_Rollback \<Longrightarrow> rollback_mtx c = None \<Longrightarrow> rollback_shared c = {} \<Longrightarrow>
    put_step t c (goto t Put_Tracked (c\<lparr>rollback_mtx := Some t\<rparr>))"
| put_unlock_rollback: "pcs c t = Put_Tracked \<Longrightarrow>
    put_step t c (goto t Put_Unlock (c\<lparr>rollback_mtx := None\<rparr>))"
| put_unlock_reset: "pcs c t = Put_Unlock \<Longrightarrow> put_step t c (goto t Idle (c\<lparr>reset_mtx := None\<rparr>))"
| redirect: "pcs c t = Idle \<Longrightarrow> c_level c = LEVEL_HIGH \<Longrightarrow> put_step t c (goto t Redirect_Want c)"
| redirect_lock: "pcs c t = Redirect_Want \<Longrightarrow> reset_mtx c = None \<Longrightarrow>
    put_step t c (goto t Redirect_Flag (c\<lparr>reset_mtx := Some t\<rparr>))"
| redirect_flag: "pcs c t = Redirect_Flag \<Longrightarrow>
    put_step t c (goto t Redirect_Write (c\<lparr>c_kache_flag := 1\<rparr>))"
| redirect_unlock: "pcs c t = Redirect_Write \<Longrightarrow>
    put_step t c (goto t Idle (c\<lparr>reset_mtx := None\<rparr>))"

text \<open>\<open>Get\<close>: no lock while the Dev-LSM is empty or the roll-back has not begun, a shared one during it.\<close>

inductive get_step :: "nat \<Rightarrow> conc \<Rightarrow> conc \<Rightarrow> bool" where
  get_main: "pcs c t = Idle \<Longrightarrow> c_kache_flag c = 0 \<Longrightarrow> get_step t c (goto t Get_Main c)"
| get_main_done: "pcs c t = Get_Main \<Longrightarrow> get_step t c (goto t Idle c)"
| get_shared: "pcs c t = Idle \<Longrightarrow> c_kache_flag c \<noteq> 0 \<Longrightarrow> c_rollback_flag c = 1 \<Longrightarrow>
    get_step t c (goto t Get_Want c)"
| get_lock_shared: "pcs c t = Get_Want \<Longrightarrow> rollback_mtx c = None \<Longrightarrow>
    get_step t c (goto t Get_Shared (c\<lparr>rollback_shared := insert t (rollback_shared c)\<rparr>))"
| get_unlock_shared: "pcs c t = Get_Shared \<Longrightarrow>
    get_step t c (goto t Idle (c\<lparr>rollback_shared := rollback_shared c - {t}\<rparr>))"
| get_free: "pcs c t = Idle \<Longrightarrow> c_kache_flag c \<noteq> 0 \<Longrightarrow> c_rollback_flag c \<noteq> 1 \<Longrightarrow>
    get_step t c (goto t Get_Free c)"
| get_free_done: "pcs c t = Get_Free \<Longrightarrow> get_step t c (goto t Idle c)"

text \<open>
  \<open>Rollback_Consumer\<close>: the monitor sets any level between rounds; a round either writes back one pair or,
  when the scan is exhausted, resets the device and clears both flags.
\<close>

inductive roll_step :: "conc \<Rightarrow> conc \<Rightarrow> bool" where
  roll_poll: "pcs c 0 = Idle \<Longrightarrow> roll_step c (c\<lparr>c_level := l\<rparr>)"
| roll_begin: "pcs c 0 = Idle \<Longrightarrow> c_kache_flag c = 1 \<Longrightarrow> roll_step c (goto 0 Roll_Want_Reset c)"
| roll_lock_reset: "pcs c 0 = Roll_Want_Reset \<Longrightarrow> reset_mtx c = None \<Longrightarrow>
    roll_step c (goto 0 Roll_Flag (c\<lparr>reset_mtx := Some 0\<rparr>))"
| roll_flag: "pcs c 0 = Roll_Flag \<Longrightarrow> roll_step c (goto 0 Roll_Scan (c\<lparr>c_rollback_flag := 1\<rparr>))"
| roll_scan: "pcs c 0 = Roll_Scan \<Longrightarrow> roll_step c (goto 0 Roll_Want c)"
| roll_lock: "pcs c 0 = Roll_Want \<Longrightarrow> rollback_mtx c = None \<Longrightarrow> rollback_shared c = {} \<Longrightarrow>
    roll_step c (goto 0 Roll_Restore (c\<lparr>rollback_mtx := Some 0\<rparr>))"
| roll_restored: "pcs c 0 = Roll_Restore \<Longrightarrow>
    roll_step c (goto 0 Roll_Monitor (c\<lparr>rollback_mtx := None\<rparr>))"
| roll_monitor: "pcs c 0 = Roll_Monitor \<Longrightarrow> roll_step c (goto 0 Roll_Scan (c\<lparr>c_level := l\<rparr>))"
| roll_exhausted: "pcs c 0 = Roll_Restore \<Longrightarrow>
    roll_step c (goto 0 Roll_Done (c\<lparr>c_kache_flag := 0, c_rollback_flag := 0, rollback_mtx := None\<rparr>))"
| roll_unlock: "pcs c 0 = Roll_Done \<Longrightarrow> roll_step c (goto 0 Idle (c\<lparr>reset_mtx := None\<rparr>))"

inductive conc_step :: "conc \<Rightarrow> conc \<Rightarrow> bool" where
  client_put: "0 < t \<Longrightarrow> put_step t c c' \<Longrightarrow> conc_step c c'"
| client_get: "0 < t \<Longrightarrow> get_step t c c' \<Longrightarrow> conc_step c c'"
| roll: "roll_step c c' \<Longrightarrow> conc_step c c'"

inductive_cases put_stepE: "put_step t c c'"
inductive_cases get_stepE: "get_step t c c'"
inductive_cases roll_stepE: "roll_step c c'"
inductive_cases conc_stepE: "conc_step c c'"

section \<open>Who holds what\<close>

definition holds_reset :: "pc \<Rightarrow> bool" where
  "holds_reset p \<longleftrightarrow> p \<in> {Put_Want_Rollback, Put_Tracked, Put_Unlock, Redirect_Flag, Redirect_Write,
     Roll_Flag, Roll_Scan, Roll_Want, Roll_Restore, Roll_Monitor, Roll_Done}"

definition holds_rollback :: "pc \<Rightarrow> bool" where
  "holds_rollback p \<longleftrightarrow> p \<in> {Put_Tracked, Roll_Restore}"

definition rolling :: "pc \<Rightarrow> bool" where
  "rolling p \<longleftrightarrow> p \<in> {Roll_Scan, Roll_Want, Roll_Restore, Roll_Monitor}"

text \<open>Sections that change the tracker, and sections that look at it.\<close>

definition writes_tracker :: "pc \<Rightarrow> bool" where
  "writes_tracker p \<longleftrightarrow> p \<in> {Put_Tracked, Redirect_Write, Roll_Restore}"

definition reads_tracker :: "pc \<Rightarrow> bool" where
  "reads_tracker p \<longleftrightarrow> p \<in> {Get_Shared, Get_Free}"

text \<open>A mutex is owned by exactly the thread whose position lies in the sections \<open>h\<close>.\<close>

definition owned :: "(pc \<Rightarrow> bool) \<Rightarrow> nat option \<Rightarrow> (nat \<Rightarrow> pc) \<Rightarrow> bool" where
  "owned h m ps \<longleftrightarrow> (\<forall>t. m = Some t \<longleftrightarrow> h (ps t))"

lemma owned_keep: "owned h m ps \<Longrightarrow> h p = h (ps t) \<Longrightarrow> owned h m (ps(t := p))"
  by (auto simp: owned_def)

lemma owned_acquire: "owned h m ps \<Longrightarrow> m = None \<Longrightarrow> h p \<Longrightarrow> owned h (Some t) (ps(t := p))"
  by (auto simp: owned_def)

lemma owned_release: "owned h m ps \<Longrightarrow> h (ps t) \<Longrightarrow> \<not> h p \<Longrightarrow> owned h None (ps(t := p))"
  by (auto simp: owned_def) (metis option.inject)

lemma owned_unique: "owned h m ps \<Longrightarrow> h (ps t) \<Longrightarrow> h (ps u) \<Longrightarrow> t = u"
  by (metis owned_def option.inject)

definition lock_inv :: "conc \<Rightarrow> bool" where
  "lock_inv c \<longleftrightarrow>
     owned holds_reset (reset_mtx c) (pcs c) \<and>
     owned holds_rollback (rollback_mtx c) (pcs c) \<and>
     (\<forall>t. t \<in> rollback_shared c \<longleftrightarrow> pcs c t = Get_Shared) \<and>
     (rollback_mtx c = None \<or> rollback_shared c = {})"

definition flag_inv :: "conc \<Rightarrow> bool" where
  "flag_inv c \<longleftrightarrow>
     (\<forall>t>0. pcs c t \<notin> {Roll_Want_Reset, Roll_Flag, Roll_Done} \<and> \<not> rolling (pcs c t)) \<and>
     pcs c 0 \<in> {Idle, Roll_Want_Reset, Roll_Flag, Roll_Scan, Roll_Want, Roll_Restore, Roll_Monitor, Roll_Done} \<and>
     c_rollback_flag c = (if rolling (pcs c 0) then 1 else 0) \<and>
     (c_kache_flag c = 0 \<or> c_kache_flag c = 1) \<and>
     (pcs c 0 \<in> {Roll_Want_Reset, Roll_Flag} \<or> rolling (pcs c 0) \<longrightarrow> c_kache_flag c = 1)"

lemmas pc_class_defs = holds_reset_def holds_rollback_def rolling_def

lemma put_step_inv:
  assumes "put_step t c c'" and "0 < t" and "lock_inv c" and "flag_inv c"
  shows "lock_inv c'" and "flag_inv c'"
proof -
  show "lock_inv c'"
    using assms(1,3) unfolding lock_inv_def
    by (cases rule: put_step.cases)
       (auto simp: holds_reset_def holds_rollback_def intro: owned_keep owned_acquire owned_release)
  show "flag_inv c'"
    using assms(1,2,4) unfolding flag_inv_def
    by (cases rule: put_step.cases) (auto simp: rolling_def split: if_splits)
qed

lemma get_step_inv:
  assumes "get_step t c c'" and "0 < t" and "lock_inv c" and "flag_inv c"
  shows "lock_inv c'" and "flag_inv c'"
proof -
  show "lock_inv c'"
    using assms(1,3) unfolding lock_inv_def
    by (cases rule: get_step.cases)
       (auto simp: holds_reset_def holds_rollback_def intro: owned_keep owned_acquire owned_release)
  show "flag_inv c'"
    using assms(1,2,4) unfolding flag_inv_def
    by (cases rule: get_step.cases) (auto simp: rolling_def split: if_splits)
qed

lemma roll_step_inv:
  assumes "roll_step c c'" and "lock_inv c" and "flag_inv c"
  shows "lock_inv c'" and "flag_inv c'"
proof -
  show "lock_inv c'"
    using assms(1,2) unfolding lock_inv_def
    by (cases rule: roll_step.cases)
       (auto simp: holds_reset_def holds_rollback_def intro: owned_keep owned_acquire owned_release)
  show "flag_inv c'"
    using assms(1,3) unfolding flag_inv_def
    by (cases rule: roll_step.cases) (auto simp: rolling_def split: if_splits)
qed

interpretation locks: inductive_invariant conc_start conc_step "\<lambda>c. lock_inv c \<and> flag_inv c"
proof
  show "conc_start c \<Longrightarrow> lock_inv c \<and> flag_inv c" for c
    by (simp add: conc_start_def lock_inv_def flag_inv_def owned_def pc_class_defs)
  show "lock_inv c \<and> flag_inv c \<Longrightarrow> conc_step c c' \<Longrightarrow> lock_inv c' \<and> flag_inv c'" for c c'
    by (elim conc_stepE) (use put_step_inv get_step_inv roll_step_inv in blast)+
qed

section \<open>What the locks guarantee\<close>

text \<open>
  Claim C7 (safety).  In every reachable state at most one thread is in a section that changes the key
  tracker, no reader holding the shared lock overlaps a tracked \<open>Put\<close> or a write-back, and from the
  moment the roll-back raises its flag until it has cleared both flags no other thread is inside a
  redirected or tracked \<open>Put\<close>: nothing can be added to the Dev-LSM between the end of the scan and the
  reset that erases it.
\<close>

theorem locking_exclusion:
  assumes "reach conc_start conc_step c" and "t \<noteq> u"
  shows "\<not> (writes_tracker (pcs c t) \<and> writes_tracker (pcs c u)) \<and>
    \<not> (pcs c t = Get_Shared \<and> pcs c u \<in> {Put_Tracked, Roll_Restore}) \<and>
    (c_rollback_flag c = 1 \<and> 0 < t \<longrightarrow>
       pcs c t \<notin> {Put_Want_Rollback, Put_Tracked, Put_Unlock, Redirect_Flag, Redirect_Write})"
proof -
  have inv: "lock_inv c" "flag_inv c"
    using locks.reach_inv [OF assms(1)] by auto
  then have o: "owned holds_reset (reset_mtx c) (pcs c)" "owned holds_rollback (rollback_mtx c) (pcs c)"
    by (auto simp: lock_inv_def)
  have "\<not> (holds_reset (pcs c t) \<and> holds_reset (pcs c u))"
    using owned_unique [OF o(1)] assms(2) by blast
  moreover have "\<not> (0 < t \<and> holds_reset (pcs c t) \<and> holds_reset (pcs c 0))"
    using owned_unique [OF o(1), of t 0] by blast
  moreover have "c_rollback_flag c = 1 \<longrightarrow> holds_reset (pcs c 0)"
    using inv(2) by (auto simp: flag_inv_def rolling_def holds_reset_def split: if_splits)
  moreover have "holds_rollback (pcs c u) \<longrightarrow> rollback_mtx c = Some u"
    using o(2) by (auto simp: owned_def)
  ultimately show ?thesis
    using inv(1) by (auto simp: writes_tracker_def holds_reset_def holds_rollback_def lock_inv_def)
qed

text \<open>A run used below: a redirected \<open>Put\<close> of thread 1 and a \<open>Get\<close> of thread 2.\<close>

definition stalled_start :: conc where
  "stalled_start = \<lparr>pcs = \<lambda>_. Idle, reset_mtx = None, rollback_mtx = None, rollback_shared = {},
     c_kache_flag = 0, c_rollback_flag = 0, c_level = LEVEL_HIGH\<rparr>"

lemma reach_stalled: "reach conc_start conc_step stalled_start"
proof (rule reach_step [OF reach_init])
  show "conc_start (stalled_start\<lparr>c_level := LEVEL_LOW\<rparr>)"
    by (simp add: conc_start_def stalled_start_def)
  show "conc_step (stalled_start\<lparr>c_level := LEVEL_LOW\<rparr>) stalled_start"
    using roll_poll [of "stalled_start\<lparr>c_level := LEVEL_LOW\<rparr>" LEVEL_HIGH]
    by (intro conc_step.roll) (simp add: stalled_start_def)
qed

lemma reach_redirect:
  assumes "reach conc_start conc_step c" and "pcs c t = Idle" and "c_level c = LEVEL_HIGH" and "reset_mtx c = None"
    and "0 < t"
  shows "reach conc_start conc_step (goto t Redirect_Write (c\<lparr>reset_mtx := Some t, c_kache_flag := 1\<rparr>))"
proof -
  let ?c1 = "goto t Redirect_Want c" and ?c2 = "goto t Redirect_Flag (c\<lparr>reset_mtx := Some t\<rparr>)"
  have "conc_step c ?c1"
    using assms by (intro client_put [of t] redirect)
  moreover have "conc_step ?c1 (goto t Redirect_Flag (?c1\<lparr>reset_mtx := Some t\<rparr>))"
    using assms by (intro client_put [of t] redirect_lock) auto
  moreover have "goto t Redirect_Flag (?c1\<lparr>reset_mtx := Some t\<rparr>) = ?c2"
    by (simp add: goto_def)
  moreover have "conc_step ?c2 (goto t Redirect_Write (?c2\<lparr>c_kache_flag := 1\<rparr>))"
    using assms by (intro client_put [of t] redirect_flag) auto
  moreover have "goto t Redirect_Write (?c2\<lparr>c_kache_flag := 1\<rparr>) =
      goto t Redirect_Write (c\<lparr>reset_mtx := Some t, c_kache_flag := 1\<rparr>)"
    by (simp add: goto_def)
  ultimately show ?thesis
    using assms(1) by (metis reach_step)
qed

theorem locking_exclusion_witness:
  "\<not> writes_tracker (pcs (goto 1 Redirect_Write (stalled_start\<lparr>reset_mtx := Some 1, c_kache_flag := 1\<rparr>)) 2)"
proof -
  have "reach conc_start conc_step (goto 1 Redirect_Write (stalled_start\<lparr>reset_mtx := Some 1, c_kache_flag := 1\<rparr>))"
    by (rule reach_redirect [OF reach_stalled]) (simp_all add: stalled_start_def)
  from locking_exclusion [OF this, of 1 2] show ?thesis
    by (simp add: writes_tracker_def)
qed

text \<open>A thread inside an operation can go on unless a lock it asks for is taken.\<close>

definition free_to_go :: "conc \<Rightarrow> nat \<Rightarrow> bool" where
  "free_to_go c t \<longleftrightarrow> pcs c t \<noteq> Idle \<and>
     (pcs c t \<in> {Put_Want_Reset, Redirect_Want, Roll_Want_Reset} \<longrightarrow> reset_mtx c = None) \<and>
     (pcs c t \<in> {Put_Want_Rollback, Roll_Want} \<longrightarrow> rollback_mtx c = None \<and> rollback_shared c = {}) \<and>
     (pcs c t = Get_Want \<longrightarrow> rollback_mtx c = None)"

lemma roll_moves:
  assumes "free_to_go c 0" and "flag_inv c"
  shows "\<exists>c'. roll_step c c' \<and> pcs c' 0 \<noteq> pcs c 0"
proof -
  have "pcs c 0 \<in> {Roll_Want_Reset, Roll_Flag, Roll_Scan, Roll_Want, Roll_Restore, Roll_Monitor, Roll_Done}"
    using assms by (auto simp: free_to_go_def flag_inv_def)
  then show ?thesis
    using assms(1)
    by (elim insertE) (auto simp: free_to_go_def roll_step.simps [of c] conj_disj_distribR ex_disj_distrib)
qed

lemma client_moves:
  assumes "free_to_go c t" and "flag_inv c" and "0 < t"
  shows "\<exists>c'. (put_step t c c' \<or> get_step t c c') \<and> pcs c' t \<noteq> pcs c t"
proof -
  have "pcs c t \<notin> {Roll_Want_Reset, Roll_Flag, Roll_Done}" "\<not> rolling (pcs c t)"
    using assms(2,3) by (auto simp: flag_inv_def)
  then show ?thesis
    using assms(1)
    by (cases "pcs c t") (simp_all add: free_to_go_def rolling_def put_step.simps [of t c] get_step.simps [of t c]
        ex_disj_distrib)
qed

lemma free_moves:
  assumes "free_to_go c t" and "flag_inv c"
  shows "\<exists>c'. conc_step c c' \<and> pcs c' t \<noteq> pcs c t"
proof (cases "t = 0")
  case True
  then show ?thesis
    using roll_moves assms by (meson roll)
next
  case False
  then show ?thesis
    using client_moves [OF assms] by (meson client_put client_get gr0I)
qed

lemma some_free:
  assumes "lock_inv c" and "pcs c t \<noteq> Idle"
  shows "\<exists>u. free_to_go c u"
proof -
  have o: "owned holds_reset (reset_mtx c) (pcs c)" "owned holds_rollback (rollback_mtx c) (pcs c)"
    and sh: "\<forall>t. t \<in> rollback_shared c \<longleftrightarrow> pcs c t = Get_Shared"
    using assms(1) by (auto simp: lock_inv_def)
  show ?thesis
  proof (cases "rollback_shared c = {}")
    case False
    then obtain r where "pcs c r = Get_Shared"
      using sh by blast
    then have "free_to_go c r"
      by (simp add: free_to_go_def)
    then show ?thesis ..
  next
    case True
    show ?thesis
    proof (cases "reset_mtx c")
      case None
      then have "rollback_mtx c = None"
        using o by (cases "rollback_mtx c") (auto simp: owned_def holds_reset_def holds_rollback_def)
      with None True assms(2) have "free_to_go c t"
        by (simp add: free_to_go_def)
      then show ?thesis ..
    next
      case (Some u)
      then have u: "holds_reset (pcs c u)"
        using o(1) by (auto simp: owned_def)
      have "pcs c u \<in> {Put_Want_Rollback, Roll_Want} \<longrightarrow> rollback_mtx c = None"
      proof (cases "rollback_mtx c")
        case (Some a)
        then have "holds_rollback (pcs c a)"
          using o(2) by (auto simp: owned_def)
        moreover from this have "a = u"
          using owned_unique [OF o(1) _ u] by (auto simp: holds_reset_def holds_rollback_def)
        ultimately show ?thesis
          by (auto simp: holds_rollback_def)
      qed simp
      with u True have "free_to_go c u"
        by (auto simp: free_to_go_def holds_reset_def)
      then show ?thesis ..
    qed
  qed
qed

text \<open>
  Claim C8 (liveness).  The protocol cannot deadlock: whenever some thread is inside an operation, some
  thread inside an operation can take its next step.
\<close>

theorem locking_no_deadlock:
  assumes "reach conc_start conc_step c" and "pcs c t \<noteq> Idle"
  shows "\<exists>u c'. pcs c u \<noteq> Idle \<and> conc_step c c' \<and> pcs c' u \<noteq> pcs c u"
proof -
  have inv: "lock_inv c" "flag_inv c"
    using locks.reach_inv [OF assms(1)] by auto
  obtain u where "free_to_go c u"
    using some_free [OF inv(1) assms(2)] ..
  then show ?thesis
    using free_moves [OF _ inv(2)] by (auto simp: free_to_go_def)
qed

theorem locking_no_deadlock_witness:
  "\<exists>u c'. conc_step (goto 1 Redirect_Write (stalled_start\<lparr>reset_mtx := Some 1, c_kache_flag := 1\<rparr>)) c' \<and>
     pcs c' u \<noteq> pcs (goto 1 Redirect_Write (stalled_start\<lparr>reset_mtx := Some 1, c_kache_flag := 1\<rparr>)) u"
proof -
  have "reach conc_start conc_step (goto 1 Redirect_Write (stalled_start\<lparr>reset_mtx := Some 1, c_kache_flag := 1\<rparr>))"
    by (rule reach_redirect [OF reach_stalled]) (simp_all add: stalled_start_def)
  then obtain u c' where
    "conc_step (goto 1 Redirect_Write (stalled_start\<lparr>reset_mtx := Some 1, c_kache_flag := 1\<rparr>)) c'"
    "pcs c' u \<noteq> pcs (goto 1 Redirect_Write (stalled_start\<lparr>reset_mtx := Some 1, c_kache_flag := 1\<rparr>)) u"
    using locking_no_deadlock [of "goto 1 Redirect_Write (stalled_start\<lparr>reset_mtx := Some 1, c_kache_flag := 1\<rparr>)" 1]
    by auto
  then show ?thesis by blast
qed

text \<open>
  The readers are not protected against redirected writes: a state is reachable in
  which one thread is in the section that inserts into the tracker and the device's buffers while
  another is in the lock-free section of \<open>Get\<close> that looks at both.
\<close>

theorem locking_reader_race:
  "\<exists>c. reach conc_start conc_step c \<and> writes_tracker (pcs c 1) \<and> pcs c 2 = Get_Free"
proof -
  let ?c = "goto 1 Redirect_Write (stalled_start\<lparr>reset_mtx := Some 1, c_kache_flag := 1\<rparr>)"
  have "reach conc_start conc_step ?c"
    by (rule reach_redirect [OF reach_stalled]) (simp_all add: stalled_start_def)
  moreover have "conc_step ?c (goto 2 Get_Free ?c)"
    by (intro client_get [of 2] get_free) (simp_all add: stalled_start_def)
  ultimately have "reach conc_start conc_step (goto 2 Get_Free ?c)"
    by (rule reach_step)
  then show ?thesis
    by (intro exI [of _ "goto 2 Get_Free ?c"]) (simp add: writes_tracker_def)
qed

end
