(* ===== verification/Bench_Keys.thy ===== *)
theory Bench_Keys
  imports Master_Iterator "HOL-Library.Signed_Division"
begin

text \<open>
  The keys of the benchmark (\<open>db_bench_tool.cc\<close>): how a number becomes the bytes of a key, and in which
  order the numbers are drawn.  The key buffer is a region, so a write beside it is seen.  RocksDB's
  random generator and shuffle are parameters.
\<close>

section \<open>Numbers as keys\<close>

record key_cfg =
  existing_keys :: "bytes list"
  key_size :: int
  prefix_size :: int
  keys_per_prefix :: int
  use_existing_keys :: bool
  seek_missing_prefix :: bool

definition AllocateKey :: "key_cfg \<Rightarrow> region" where
  "AllocateKey K = ralloc (nat (key_size K))"

text \<open>The bytes \<open>(w >> ((b - i - 1) << 3)) & 0xFF\<close> for \<open>i\<close> from 0 to \<open>b - 1\<close>.\<close>

definition be_bytes :: "nat \<Rightarrow> u64 \<Rightarrow> bytes" where
  "be_bytes b w = map (\<lambda>i. ucast (drop_bit ((b - i - 1) * 8) w)) [0..<b]"

text \<open>Storing at a pointer offset that signed arithmetic produced.\<close>

definition store_at :: "region \<Rightarrow> int \<Rightarrow> bytes \<Rightarrow> region outcome" where
  "store_at r off bs =
     (if bs = [] then Inr r else if off < 0 then Inl Out_Of_Bounds else rstore r (nat off) bs)"

definition write_prefix :: "key_cfg \<Rightarrow> u64 \<Rightarrow> int \<Rightarrow> region \<Rightarrow> (int \<times> region) outcome" where
  "write_prefix K v num_keys buf =
     (if 0 < keys_per_prefix K
      then let num_prefix = num_keys sdiv keys_per_prefix K
           in if (of_int num_prefix :: u64) = 0 then Inl Div_By_Zero
              else let prefix = v mod of_int num_prefix;
                       bytes_to_fill = min (prefix_size K) 8
                   in bindO (store_at buf 0 (be_bytes (nat bytes_to_fill) prefix)) (\<lambda>buf.
                      bindO (if 8 < prefix_size K
                             then store_at buf 8 (replicate (nat (prefix_size K - 8)) (of_char CHR ''0''))
                             else Inr buf) (\<lambda>buf.
                        Inr (prefix_size K, buf)))
      else Inr (0, buf))"

definition write_number :: "key_cfg \<Rightarrow> u64 \<Rightarrow> int \<Rightarrow> region \<Rightarrow> region outcome" where
  "write_number K v p buf =
     (let bytes_to_fill = min (key_size K - p) 8
      in bindO (store_at buf p (be_bytes (nat bytes_to_fill) v)) (\<lambda>buf.
           let p = p + bytes_to_fill
           in if p < key_size K
              then store_at buf p (replicate (nat (key_size K - p)) (of_char CHR ''0''))
              else Inr buf))"

text \<open>The key the slice shows afterwards, and the buffer.\<close>

definition GenerateKeyFromInt :: "key_cfg \<Rightarrow> u64 \<Rightarrow> int \<Rightarrow> region \<Rightarrow> (bytes \<times> region) outcome" where
  "GenerateKeyFromInt K v num_keys buf =
     (if existing_keys K \<noteq> []
      then bindO (guardO (use_existing_keys K \<and> int (length (existing_keys K)) = num_keys \<and> uint v < num_keys) Assert_Failed)
             (\<lambda>_. bindO (at_index (existing_keys K) (unat v)) (\<lambda>key. Inr (key, buf)))
      else bindO (write_prefix K v num_keys buf) (\<lambda>(p, buf).
           bindO (write_number K v p buf) (\<lambda>buf.
           bindO (rload buf 0 (nat (key_size K))) (\<lambda>key. Inr (key, buf)))))"

text \<open>
  The seek variant overwrites byte 8 through the slice's pointer: the byte of the buffer, or of the
  stored key when existing keys are used.
\<close>

definition GenerateKeyFromIntForSeek ::
  "key_cfg \<Rightarrow> u64 \<Rightarrow> int \<Rightarrow> region \<Rightarrow> (bytes \<times> region \<times> key_cfg) outcome" where
  "GenerateKeyFromIntForSeek K v num_keys buf =
     bindO (GenerateKeyFromInt K v num_keys buf) (\<lambda>(key, buf).
       if seek_missing_prefix K
       then bindO (guardO (8 < prefix_size K) Assert_Failed) (\<lambda>_.
            if \<not> 8 < length key then Inl Out_Of_Bounds
            else let key = key[8 := of_char CHR ''1'']
                 in if existing_keys K \<noteq> [] then Inr (key, buf, K\<lparr>existing_keys := (existing_keys K)[unat v := key]\<rparr>)
                    else bindO (rstore buf 8 [of_char CHR ''1'']) (\<lambda>buf. Inr (key, buf, K)))
       else Inr (key, buf, K))"

definition GetPathForMultiple :: "bytes \<Rightarrow> nat \<Rightarrow> bytes" where
  "GetPathForMultiple base_name n =
     (if base_name \<noteq> [] \<and> last base_name \<noteq> of_char CHR ''/'' then base_name @ [of_char CHR ''/'']
      else base_name) @ to_string n"

section \<open>Which numbers are drawn\<close>

datatype WriteMode = RANDOM | SEQUENTIAL | UNIQUE_RANDOM

text \<open>RocksDB's \<open>Random64\<close>: a generator from a seed, and the next number.\<close>

record 'g random64 =
  r64_seed :: "u64 \<Rightarrow> 'g"
  r64_next :: "'g \<Rightarrow> u64 \<times> 'g"

record KeyGenerator =
  kg_mode :: WriteMode
  kg_num :: u64
  kg_next :: u64
  kg_values :: "u64 list"

definition KeyGenerator_new :: "(u32 \<Rightarrow> u64 list \<Rightarrow> u64 list) \<Rightarrow> u64 \<Rightarrow> WriteMode \<Rightarrow> u64 \<Rightarrow> KeyGenerator" where
  "KeyGenerator_new RandomShuffle seed_base mode num =
     \<lparr>kg_mode = mode, kg_num = num, kg_next = 0,
      kg_values = (if mode = UNIQUE_RANDOM then RandomShuffle (ucast seed_base) (map of_nat [0..<unat num]) else [])\<rparr>"

text \<open>The generator shares the thread's \<open>Random64\<close>, which is passed along.\<close>

definition Next :: "'g random64 \<Rightarrow> KeyGenerator \<Rightarrow> 'g \<Rightarrow> (u64 \<times> KeyGenerator \<times> 'g) outcome" where
  "Next R G rand =
     (case kg_mode G of
        SEQUENTIAL \<Rightarrow> Inr (kg_next G, G\<lparr>kg_next := kg_next G + 1\<rparr>, rand)
      | RANDOM \<Rightarrow> (let (x, rand) = r64_next R rand
                   in if kg_num G = 0 then Inl Div_By_Zero else Inr (x mod kg_num G, G, rand))
      | UNIQUE_RANDOM \<Rightarrow>
          bindO (guardO (kg_next G < kg_num G) Assert_Failed) (\<lambda>_.
          bindO (at_index (kg_values G) (unat (kg_next G))) (\<lambda>v. Inr (v, G\<lparr>kg_next := kg_next G + 1\<rparr>, rand))))"

definition Fetch :: "KeyGenerator \<Rightarrow> u64 \<Rightarrow> u64 outcome" where
  "Fetch G i =
     bindO (guardO (kg_mode G = UNIQUE_RANDOM \<and> unat i < length (kg_values G)) Assert_Failed) (\<lambda>_.
       at_index (kg_values G) (unat i))"

section \<open>Layout of a key\<close>

lemma length_be_bytes [simp]: "length (be_bytes b w) = b"
  by (simp add: be_bytes_def)

lemma be_bytes_0 [simp]: "be_bytes 0 w = []"
  by (simp add: be_bytes_def)

lemma be_bytes_Suc: "be_bytes (Suc b) w = ucast (drop_bit (b * 8) w) # be_bytes b w"
  by (simp add: be_bytes_def upt_conv_Cons map_Suc_upt [symmetric] comp_def del: upt_Suc)

lemma be_byte: "unat (ucast (drop_bit (b * 8) w) :: u8) = (unat (w :: u64) div 256 ^ b) mod 256"
proof -
  have "(2 :: nat) ^ (b * 8) = 256 ^ b"
    by (simp add: power_mult mult.commute [of b])
  moreover have "unat (drop_bit (b * 8) w) = unat w div 2 ^ (b * 8)"
    by (simp add: unsigned_drop_bit_eq drop_bit_eq_div [where 'a = nat] take_bit_nat_eq_self unat_u64_less)
  ultimately show ?thesis
    by (simp add: unsigned_ucast_eq take_bit_eq_mod)
qed

definition sgn_cmp :: "nat \<Rightarrow> nat \<Rightarrow> int" where
  "sgn_cmp x y = (if x < y then -1 else if y < x then 1 else 0)"

lemma slice_compare_suffix: "length xs = length ys \<Longrightarrow> slice_compare (xs @ zs) (ys @ zs) = slice_compare xs ys"
proof (induction xs ys rule: list_induct2)
  case Nil
  show ?case
    by (induction zs) auto
qed simp

text \<open>Comparing numbers by their high parts first.\<close>

lemma mod_power_Suc: "x mod 256 ^ Suc b = 256 ^ b * ((x div 256 ^ b) mod 256) + x mod (256 ^ b :: nat)"
  by (metis add.commute mod_mult2_eq mult.commute power_Suc2 mod_mult2_eq)

lemma sgn_cmp_high:
  assumes "r < B" and "r' < B"
  shows "sgn_cmp (B * q + r) (B * q' + r') = (if q < q' then -1 else if q' < q then 1 else sgn_cmp r r')"
proof -
  have less: "B * q + r < B * q' + r'" if "q < q'" "r < B" for q q' r r' :: nat
  proof -
    have "B * q + B \<le> B * q'"
      using that(1) by (metis Suc_leI mult_Suc_right mult_le_mono2 add.commute)
    then show ?thesis
      using that(2) by linarith
  qed
  consider "q < q'" | "q = q'" | "q' < q"
    by linarith
  then show ?thesis
  proof cases
    case 1
    then show ?thesis
      using less [OF 1 assms(1), of r'] by (simp add: sgn_cmp_def)
  next
    case 2
    then show ?thesis
      by (simp add: sgn_cmp_def)
  next
    case 3
    then show ?thesis
      using less [OF 3 assms(2), of r] by (simp add: sgn_cmp_def)
  qed
qed

lemma slice_compare_be_bytes:
  "slice_compare (be_bytes b v) (be_bytes b w) = sgn_cmp (unat v mod 256 ^ b) (unat w mod 256 ^ b)"
proof (induction b)
  case 0
  then show ?case by (simp add: sgn_cmp_def)
next
  case (Suc b)
  have "(ucast (drop_bit (b * 8) v) :: u8) < ucast (drop_bit (b * 8) w) \<longleftrightarrow>
      (unat v div 256 ^ b) mod 256 < (unat w div 256 ^ b) mod 256" for v w :: u64
    by (simp only: word_less_nat_alt be_byte)
  then show ?case
    by (simp add: be_bytes_Suc Suc.IH mod_power_Suc sgn_cmp_high del: power_Suc)
qed

lemma be_bytes_eq_iff: "be_bytes b v = be_bytes b w \<longleftrightarrow> unat v mod 256 ^ b = unat w mod 256 ^ b"
proof
  assume "be_bytes b v = be_bytes b w"
  then have "sgn_cmp (unat v mod 256 ^ b) (unat w mod 256 ^ b) = sgn_cmp (unat v mod 256 ^ b) (unat v mod 256 ^ b)"
    by (simp flip: slice_compare_be_bytes)
  then show "unat v mod 256 ^ b = unat w mod 256 ^ b"
    by (simp add: sgn_cmp_def split: if_splits)
next
  show "unat v mod 256 ^ b = unat w mod 256 ^ b \<Longrightarrow> be_bytes b v = be_bytes b w"
  proof (induction b)
    case (Suc b)
    have d: "(256 :: nat) ^ b dvd 256 ^ Suc b"
      by simp
    have low: "unat v mod 256 ^ b = unat w mod 256 ^ b"
      using Suc.prems mod_mod_cancel [OF d, of "unat v"] mod_mod_cancel [OF d, of "unat w"] by argo
    then have "(unat v div 256 ^ b) mod 256 = (unat w div 256 ^ b) mod 256"
      using Suc.prems unfolding mod_power_Suc by simp
    then have "(ucast (drop_bit (b * 8) v) :: u8) = ucast (drop_bit (b * 8) w)"
      by (simp only: word_unat_eq_iff be_byte)
    then show ?case
      using Suc.IH [OF low] by (simp add: be_bytes_Suc)
  qed simp
qed

lemma take_be_bytes:
  assumes "n \<le> b" and "b \<le> 8"
  shows "take n (be_bytes b w) = be_bytes n (drop_bit ((b - n) * 8) w)"
proof (rule nth_equalityI)
  show "length (take n (be_bytes b w)) = length (be_bytes n (drop_bit ((b - n) * 8) w))"
    using assms(1) by simp
  fix i assume "i < length (take n (be_bytes b w))"
  then have i: "i < n"
    using assms(1) by simp
  then have "(b - i - 1) * 8 = (n - i - 1) * 8 + (b - n) * 8"
    using assms(1) by (simp add: algebra_simps)
  then show "take n (be_bytes b w) ! i = be_bytes n (drop_bit ((b - n) * 8) w) ! i"
    using i assms(1) by (simp add: be_bytes_def)
qed

text \<open>Configurations the constructor of the benchmark accepts, and the layout they give.\<close>

definition valid_cfg :: "key_cfg \<Rightarrow> bool" where
  "valid_cfg K \<longleftrightarrow> existing_keys K = [] \<and> 0 \<le> prefix_size K \<and> prefix_size K \<le> key_size K"

definition key_prefix :: "key_cfg \<Rightarrow> u64 \<Rightarrow> int \<Rightarrow> bytes" where
  "key_prefix K v num_keys =
     (if 0 < keys_per_prefix K
      then be_bytes (nat (min (prefix_size K) 8)) (v mod of_int (num_keys sdiv keys_per_prefix K)) @
           replicate (nat (prefix_size K) - 8) (of_char CHR ''0'')
      else [])"

definition key_bytes :: "key_cfg \<Rightarrow> u64 \<Rightarrow> int \<Rightarrow> bytes" where
  "key_bytes K v num_keys =
     (let rest = nat (key_size K) - length (key_prefix K v num_keys)
      in key_prefix K v num_keys @ be_bytes (min rest 8) v @ replicate (rest - 8) (of_char CHR ''0''))"

lemma store_at_nat: "store_at r (int n) bs = (if bs = [] then Inr r else rstore r n bs)"
  by (simp add: store_at_def)

lemma rstore_nil: "n \<le> rsize r \<Longrightarrow> rstore r n [] = Inr r"
  by (auto simp: rstore_def intro!: region.equality ext)

lemma store_at_rstore: "n \<le> rsize r \<Longrightarrow> store_at r (int n) bs = rstore r n bs"
  by (simp add: store_at_nat rstore_nil)

lemma length_key_prefix:
  "valid_cfg K \<Longrightarrow> length (key_prefix K v num_keys) = (if 0 < keys_per_prefix K then nat (prefix_size K) else 0)"
  by (auto simp: key_prefix_def valid_cfg_def)

lemma length_key_bytes: "valid_cfg K \<Longrightarrow> length (key_bytes K v num_keys) = nat (key_size K)"
  by (auto simp: key_bytes_def Let_def length_key_prefix valid_cfg_def)

lemma write_prefix_layout:
  assumes "valid_cfg K" and "rsize buf = nat (key_size K)"
    and "0 < keys_per_prefix K \<longrightarrow> (of_int (num_keys sdiv keys_per_prefix K) :: u64) \<noteq> 0"
  shows "write_prefix K v num_keys buf =
    bindO (rstore buf 0 (key_prefix K v num_keys)) (\<lambda>buf. Inr (int (length (key_prefix K v num_keys)), buf))"
proof (cases "0 < keys_per_prefix K")
  case True
  let ?p = "v mod of_int (num_keys sdiv keys_per_prefix K)"
  let ?a = "be_bytes (nat (min (prefix_size K) 8)) ?p"
  let ?b = "replicate (nat (prefix_size K) - 8) (of_char CHR ''0'' :: u8)"
  have a: "store_at buf 0 ?a = rstore buf 0 ?a"
    using store_at_rstore [of 0 buf ?a] by simp
  have b: "(if 8 < prefix_size K then store_at buf' 8 (replicate (nat (prefix_size K - 8)) (of_char CHR ''0''))
      else Inr buf') = rstore buf' (length ?a) ?b" if "rstore buf 0 ?a = Inr buf'" for buf'
  proof -
    have sz: "length ?a \<le> rsize buf'"
      using that by (auto simp: rstore_eq_Inr)
    show ?thesis
    proof (cases "8 < prefix_size K")
      case True
      then show ?thesis
        using sz store_at_rstore [of 8 buf' ?b] by (simp add: nat_diff_distrib)
    next
      case False
      then show ?thesis
        using sz by (simp add: rstore_nil)
    qed
  qed
  have step: "bindO (rstore buf 0 ?a) (\<lambda>buf. bindO (if 8 < prefix_size K
      then store_at buf 8 (replicate (nat (prefix_size K - 8)) (of_char CHR ''0'')) else Inr buf) f) =
    bindO (rstore buf 0 (?a @ ?b)) f" for f :: "region \<Rightarrow> (int \<times> region) outcome"
    using b by (cases "rstore buf 0 ?a") (simp_all add: rstore_append)
  have p: "key_prefix K v num_keys = ?a @ ?b" "int (length (?a @ ?b)) = prefix_size K"
    using True assms(1) by (auto simp: valid_cfg_def key_prefix_def)
  have "write_prefix K v num_keys buf = bindO (rstore buf 0 ?a) (\<lambda>buf. bindO (if 8 < prefix_size K
      then store_at buf 8 (replicate (nat (prefix_size K - 8)) (of_char CHR ''0'')) else Inr buf)
      (\<lambda>buf. Inr (prefix_size K, buf)))"
    unfolding write_prefix_def a [symmetric] using True assms(3) by (simp add: Let_def)
  then show ?thesis
    unfolding step p .
next
  case False
  then show ?thesis
    by (simp add: write_prefix_def key_prefix_def rstore_nil)
qed

lemma write_number_layout:
  assumes "int n \<le> key_size K" and "rsize buf = nat (key_size K)"
  shows "write_number K v (int n) buf =
    rstore buf n (be_bytes (min (nat (key_size K) - n) 8) v @ replicate (nat (key_size K) - n - 8) (of_char CHR ''0''))"
proof -
  let ?m = "min (nat (key_size K) - n) 8"
  let ?a = "be_bytes ?m v"
  let ?b = "replicate (nat (key_size K) - n - 8) (of_char CHR ''0'' :: u8)"
  have m: "min (key_size K - int n) 8 = int ?m"
    using assms(1) by (auto simp: min_def)
  have a: "store_at buf (int n) ?a = rstore buf n ?a"
    using assms by (intro store_at_rstore) auto
  have b: "(if int n + int ?m < key_size K
      then store_at buf' (int n + int ?m) (replicate (nat (key_size K - (int n + int ?m))) (of_char CHR ''0''))
      else Inr buf') = rstore buf' (n + length ?a) ?b" if "rstore buf n ?a = Inr buf'" for buf'
  proof -
    have sz: "n + ?m \<le> rsize buf'"
      using that by (auto simp: rstore_eq_Inr)
    show ?thesis
    proof (cases "int n + int ?m < key_size K")
      case True
      then have "nat (key_size K - (int n + int ?m)) = nat (key_size K) - n - 8" "?m = 8"
        using assms(1) by (auto simp: min_def split: if_splits)
      then show ?thesis
        using True sz store_at_rstore [of "n + 8" buf' ?b] by simp
    next
      case False
      then have "nat (key_size K) - n - 8 = 0"
        using assms(1) by (auto simp: min_def split: if_splits)
      then have "?b = []"
        by simp
      then show ?thesis
        using False sz by (simp only: if_False length_be_bytes rstore_nil)
    qed
  qed
  have "write_number K v (int n) buf = bindO (rstore buf n ?a) (\<lambda>buf. if int n + int ?m < key_size K
      then store_at buf (int n + int ?m) (replicate (nat (key_size K - (int n + int ?m))) (of_char CHR ''0''))
      else Inr buf)"
    unfolding write_number_def m Let_def nat_int a ..
  also have "\<dots> = rstore buf n (?a @ ?b)"
    unfolding rstore_append by (rule bindO_cong [OF refl]) (rule b)
  finally show ?thesis .
qed

lemma GenerateKeyFromInt_layout:
  assumes "valid_cfg K" and "rsize buf = nat (key_size K)"
    and "0 < keys_per_prefix K \<longrightarrow> (of_int (num_keys sdiv keys_per_prefix K) :: u64) \<noteq> 0"
  shows "\<exists>buf'. GenerateKeyFromInt K v num_keys buf = Inr (key_bytes K v num_keys, buf') \<and>
    rsize buf' = nat (key_size K)"
proof -
  let ?p = "key_prefix K v num_keys"
  let ?r = "be_bytes (min (nat (key_size K) - length ?p) 8) v @
    replicate (nat (key_size K) - length ?p - 8) (of_char CHR ''0'')"
  have p: "int (length ?p) \<le> key_size K"
    using assms(1) by (auto simp: length_key_prefix valid_cfg_def)
  then have "length (?p @ ?r) = nat (key_size K)"
    by auto
  then obtain b where b: "rstore buf 0 (?p @ ?r) = Inr b"
    using assms(2) by (auto simp: rstore_def)
  then obtain b0 where b0: "rstore buf 0 ?p = Inr b0" "rstore b0 (length ?p) ?r = Inr b"
    by (auto simp: rstore_append bindO_eq_Inr)
  have key: "?p @ ?r = key_bytes K v num_keys"
    by (simp add: key_bytes_def Let_def)
  have sz: "rsize b0 = nat (key_size K)" "rsize b = nat (key_size K)"
    using rstore_rsize [OF b0(1)] rstore_rsize [OF b] assms(2) by auto
  have "write_number K v (int (length ?p)) b0 = Inr b"
    using write_number_layout [OF p sz(1)] b0(2) by simp
  moreover have "rload b 0 (nat (key_size K)) = Inr (key_bytes K v num_keys)"
    using rload_rstore_same [OF b] unfolding key length_key_bytes [OF assms(1)] .
  ultimately have "GenerateKeyFromInt K v num_keys buf = Inr (key_bytes K v num_keys, b)"
    using assms(1) by (simp add: GenerateKeyFromInt_def valid_cfg_def write_prefix_layout [OF assms] b0(1))
  then show ?thesis
    using sz(2) by blast
qed

lemma key_bytes_plain:
  "keys_per_prefix K \<le> 0 \<Longrightarrow> key_bytes K v n =
     be_bytes (min (nat (key_size K)) 8) v @ replicate (nat (key_size K) - 8) (of_char CHR ''0'')"
  by (simp add: key_bytes_def key_prefix_def Let_def)

lemma GenerateKeyFromInt_plain:
  assumes "valid_cfg K" and "keys_per_prefix K \<le> 0" and "rsize buf = nat (key_size K)"
  shows "\<exists>buf'. GenerateKeyFromInt K v n buf = Inr (key_bytes K v n, buf')"
  using GenerateKeyFromInt_layout [OF assms(1,3)] assms(2) by force

section \<open>Order and collisions of keys\<close>

text \<open>
  Claim C34 (functional).  Without prefixes the keys are ordered as their numbers: the generated keys have
  the configured size, whatever the buffer held before, and RocksDB's bytewise comparison of two of them
  is the comparison of the two numbers, as long as these fit in the bytes a key has for them.
\<close>

theorem GenerateKeyFromInt_order:
  assumes "valid_cfg K" and "keys_per_prefix K \<le> 0" and "rsize a = nat (key_size K)" and "rsize b = nat (key_size K)"
    and "unat v < 256 ^ min (nat (key_size K)) 8" and "unat w < 256 ^ min (nat (key_size K)) 8"
  shows "\<exists>kv kw a' b'. GenerateKeyFromInt K v n a = Inr (kv, a') \<and> GenerateKeyFromInt K w n b = Inr (kw, b') \<and>
    length kv = nat (key_size K) \<and> length kw = nat (key_size K) \<and>
    slice_compare kv kw = (if unat v < unat w then -1 else if unat w < unat v then 1 else 0)"
proof -
  obtain a' b' where "GenerateKeyFromInt K v n a = Inr (key_bytes K v n, a')"
    "GenerateKeyFromInt K w n b = Inr (key_bytes K w n, b')"
    using GenerateKeyFromInt_plain [OF assms(1,2)] assms(3,4) by meson
  moreover have "slice_compare (key_bytes K v n) (key_bytes K w n) =
      (if unat v < unat w then -1 else if unat w < unat v then 1 else 0)"
    using assms(2,5,6) by (simp only: key_bytes_plain slice_compare_suffix length_be_bytes slice_compare_be_bytes
        mod_less sgn_cmp_def)
  ultimately show ?thesis
    using length_key_bytes [OF assms(1)] by metis
qed

definition four_byte_keys :: key_cfg where
  "four_byte_keys = \<lparr>existing_keys = [], key_size = 4, prefix_size = 0, keys_per_prefix = 0,
     use_existing_keys = False, seek_missing_prefix = False\<rparr>"

theorem GenerateKeyFromInt_order_witness:
  "\<exists>kv kw a' b'. GenerateKeyFromInt four_byte_keys 255 1000 (AllocateKey four_byte_keys) = Inr (kv, a') \<and>
     GenerateKeyFromInt four_byte_keys 256 1000 (AllocateKey four_byte_keys) = Inr (kw, b') \<and> slice_compare kv kw = -1"
  using GenerateKeyFromInt_order [of four_byte_keys "AllocateKey four_byte_keys" "AllocateKey four_byte_keys" 255 256 1000]
  by (auto simp: four_byte_keys_def valid_cfg_def AllocateKey_def)

lemma key4_be_bytes:
  assumes "4 \<le> m" and "m \<le> 8"
  shows "key4 (be_bytes m v @ rest) = key4 (be_bytes m w @ rest') \<longleftrightarrow>
    (unat v div 256 ^ (m - 4)) mod 4294967296 = (unat w div 256 ^ (m - 4)) mod 4294967296"
proof -
  have k: "key4 (be_bytes m x @ r) = be_bytes 4 (drop_bit ((m - 4) * 8) x)" for x r
    using take_be_bytes [OF assms] assms(1) by (simp add: key4_def)
  have "(2 :: nat) ^ ((m - 4) * 8) = 256 ^ (m - 4)"
    by (simp add: power_mult mult.commute [of "m - 4"])
  then have "unat (drop_bit ((m - 4) * 8) x) = unat x div 256 ^ (m - 4)" for x :: u64
    by (simp add: unsigned_drop_bit_eq drop_bit_eq_div [where 'a = nat] take_bit_nat_eq_self unat_u64_less)
  then show ?thesis
    unfolding k be_bytes_eq_iff by simp
qed

text \<open>
  Claim C35 (safety).  The device and the key tracker tell two benchmark keys apart only by the 32 bits
  above the lowest \<open>8 * (min key_size 8 - 4)\<close> bits of their numbers.  With 4-byte keys these are the whole
  number; with the default size of 16 bytes, or any of at least 8, all numbers below 4294967296 are one
  and the same key for the device, and have the same hash in the tracker.
\<close>

theorem device_key_collision:
  assumes "valid_cfg K" and "keys_per_prefix K \<le> 0" and "4 \<le> key_size K"
    and "rsize a = nat (key_size K)" and "rsize b = nat (key_size K)"
  shows "\<exists>kv kw a' b'. GenerateKeyFromInt K v n a = Inr (kv, a') \<and> GenerateKeyFromInt K w n b = Inr (kw, b') \<and>
    (key4 kv = key4 kw \<longleftrightarrow>
       (unat v div 256 ^ (min (nat (key_size K)) 8 - 4)) mod 4294967296 =
       (unat w div 256 ^ (min (nat (key_size K)) 8 - 4)) mod 4294967296) \<and>
    (8 \<le> key_size K \<and> unat v < 4294967296 \<and> unat w < 4294967296 \<longrightarrow>
       key4 kv = key4 kw \<and> double_hash murmur kv i = double_hash murmur kw i)"
proof -
  obtain a' b' where g: "GenerateKeyFromInt K v n a = Inr (key_bytes K v n, a')"
    "GenerateKeyFromInt K w n b = Inr (key_bytes K w n, b')"
    using GenerateKeyFromInt_plain [OF assms(1,2)] assms(4,5) by meson
  have k: "key4 (key_bytes K v n) = key4 (key_bytes K w n) \<longleftrightarrow>
       (unat v div 256 ^ (min (nat (key_size K)) 8 - 4)) mod 4294967296 =
       (unat w div 256 ^ (min (nat (key_size K)) 8 - 4)) mod 4294967296"
    unfolding key_bytes_plain [OF assms(2)] using assms(3) by (intro key4_be_bytes) auto
  have h: "double_hash murmur (key_bytes K x n) i =
      (let (h0, h1) = murmur (key4 (key_bytes K x n)) in Inr (h0 + of_int i * h1))" for x
    using length_key_bytes [OF assms(1)] assms(3) by (simp add: double_hash_def c_str4_key4)
  have "key4 (key_bytes K v n) = key4 (key_bytes K w n)"
    if "8 \<le> key_size K" "unat v < 4294967296" "unat w < 4294967296"
  proof -
    have "min (nat (key_size K)) 8 - 4 = 4"
      using that(1) by (simp add: min_absorb2 nat_le_iff le_nat_iff)
    then show ?thesis
      unfolding k using that(2,3) by simp
  qed
  then show ?thesis
    using g k h by metis
qed

definition default_keys :: key_cfg where
  "default_keys = four_byte_keys\<lparr>key_size := 16\<rparr>"

theorem device_key_collision_witness:
  "\<exists>kv kw a' b'. GenerateKeyFromInt default_keys 1 1000000 (AllocateKey default_keys) = Inr (kv, a') \<and>
     GenerateKeyFromInt default_keys 999999 1000000 (AllocateKey default_keys) = Inr (kw, b') \<and>
     key4 kv = key4 kw \<and> double_hash (\<lambda>_. (7, 11)) kv 1 = double_hash (\<lambda>_. (7, 11)) kw 1"
proof -
  have "valid_cfg default_keys" "keys_per_prefix default_keys \<le> 0" "4 \<le> key_size default_keys"
    "rsize (AllocateKey default_keys) = nat (key_size default_keys)" "8 \<le> key_size default_keys"
    by (simp_all add: default_keys_def four_byte_keys_def valid_cfg_def AllocateKey_def)
  moreover have "unat (1 :: u64) < 4294967296" "unat (999999 :: u64) < 4294967296"
    by simp_all
  ultimately show ?thesis
    using device_key_collision [of default_keys "AllocateKey default_keys" "AllocateKey default_keys" 1 1000000 999999
        "\<lambda>_. (7, 11)" 1] by blast
qed

section \<open>Numbers drawn without repetition\<close>

fun draws :: "'g random64 \<Rightarrow> nat \<Rightarrow> KeyGenerator \<Rightarrow> 'g \<Rightarrow> u64 list outcome" where
  "draws R 0 G rand = Inr []"
| "draws R (Suc n) G rand =
     bindO (Next R G rand) (\<lambda>(x, G, rand). bindO (draws R n G rand) (\<lambda>xs. Inr (x # xs)))"

lemma draws_unique:
  assumes "kg_mode G = UNIQUE_RANDOM" and "length (kg_values G) = unat (kg_num G)"
    and "unat (kg_next G) + n \<le> unat (kg_num G)"
  shows "draws R n G rand = Inr (take n (drop (unat (kg_next G)) (kg_values G)))"
  using assms
proof (induction n arbitrary: G rand)
  case (Suc n)
  have lt: "unat (kg_next G) < unat (kg_num G)"
    using Suc.prems(3) by simp
  then have "unat (kg_next G + 1) = Suc (unat (kg_next G))"
    using unat_u64_less [of "kg_num G"] by (simp add: unat_word_ariths)
  then have "draws R n (G\<lparr>kg_next := kg_next G + 1\<rparr>) rand =
      Inr (take n (drop (Suc (unat (kg_next G))) (kg_values G)))"
    using Suc.prems by (subst Suc.IH) auto
  moreover have "take (Suc n) (drop (unat (kg_next G)) (kg_values G)) =
      kg_values G ! unat (kg_next G) # take n (drop (Suc (unat (kg_next G))) (kg_values G))"
    using lt Suc.prems(2) by (simp add: Cons_nth_drop_Suc [symmetric])
  ultimately show ?case
    using Suc.prems(1,2) lt by (simp add: Next_def word_less_nat_alt)
qed simp

lemma draws_over:
  assumes "kg_mode G = UNIQUE_RANDOM" and "length (kg_values G) = unat (kg_num G)"
    and "unat (kg_next G) + n = unat (kg_num G)"
  shows "draws R (Suc n) G rand = Inl Assert_Failed"
  using assms
proof (induction n arbitrary: G rand)
  case 0
  then show ?case
    by (simp add: Next_def word_less_nat_alt)
next
  case (Suc n)
  have lt: "unat (kg_next G) < unat (kg_num G)"
    using Suc.prems(3) by simp
  then have "unat (kg_next G + 1) = Suc (unat (kg_next G))"
    using unat_u64_less [of "kg_num G"] by (simp add: unat_word_ariths)
  then have "draws R (Suc n) (G\<lparr>kg_next := kg_next G + 1\<rparr>) rand = Inl Assert_Failed"
    using Suc.prems by (intro Suc.IH) auto
  then show ?case
    using Suc.prems(1,2) lt by (subst draws.simps) (simp add: Next_def word_less_nat_alt del: draws.simps)
qed

lemma draws_sequential:
  "kg_mode G = SEQUENTIAL \<Longrightarrow> draws R n G rand = Inr (map (\<lambda>i. kg_next G + of_nat i) [0..<n])"
proof (induction n arbitrary: G)
  case (Suc n)
  then show ?case
    by (simp add: Next_def upt_conv_Cons map_Suc_upt [symmetric] comp_def add.commute add.left_commute del: upt_Suc)
qed simp

lemma of_nat64_inj:
  assumes "(of_nat i :: u64) = of_nat j" and "i < 18446744073709551616" and "j < 18446744073709551616"
  shows "i = j"
  using arg_cong [OF assms(1), of unat] assms(2,3) by (simp add: unat_of_nat64)

lemma shuffled_numbers:
  fixes num :: u64
  assumes "mset vs = mset (map of_nat [0..<unat num] :: u64 list)"
  shows "distinct vs" and "unat ` set vs = {..<unat num}"
proof -
  have "inj_on (of_nat :: nat \<Rightarrow> u64) {0..<unat num}"
  proof (rule inj_onI)
    fix i j assume "i \<in> {0..<unat num}" "j \<in> {0..<unat num}" "(of_nat i :: u64) = of_nat j"
    then show "i = j"
      using unat_u64_less [of num] by (intro of_nat64_inj) simp_all
  qed
  then have "distinct (map of_nat [0..<unat num] :: u64 list)"
    by (simp add: distinct_map)
  then show "distinct vs"
    using mset_eq_imp_distinct_iff [OF assms] by blast
  have "set vs = of_nat ` {..<unat num}"
    using mset_eq_setD [OF assms] by (simp add: atLeast0LessThan)
  then have "unat ` set vs = (\<lambda>i. unat (of_nat i :: u64)) ` {..<unat num}"
    by (simp add: image_image)
  also have "\<dots> = (\<lambda>i. i) ` {..<unat num}"
  proof (rule image_cong)
    fix i assume "i \<in> {..<unat num}"
    then show "unat (of_nat i :: u64) = i"
      using unat_u64_less [of num] by (intro unat_of_nat64) simp
  qed simp
  finally show "unat ` set vs = {..<unat num}"
    by simp
qed

text \<open>
  In \<open>UNIQUE_RANDOM\<close> mode the first \<open>num\<close> draws are the numbers below \<open>num\<close>, each
  exactly once, whatever permutation the shuffle makes, and the next draw fails the assertion; in
  \<open>SEQUENTIAL\<close> mode the draws are 0, 1, 2 and so on.
\<close>

theorem KeyGenerator_covers:
  assumes "\<forall>s xs. mset (shuffle s xs) = mset xs"
  shows "(\<exists>xs. draws R (unat num) (KeyGenerator_new shuffle seed UNIQUE_RANDOM num) rand = Inr xs \<and>
      distinct xs \<and> unat ` set xs = {..<unat num}) \<and>
    draws R (Suc (unat num)) (KeyGenerator_new shuffle seed UNIQUE_RANDOM num) rand = Inl Assert_Failed \<and>
    draws R n (KeyGenerator_new shuffle seed SEQUENTIAL num) rand = Inr (map of_nat [0..<n])"
proof -
  let ?G = "KeyGenerator_new shuffle seed UNIQUE_RANDOM num"
  have m: "mset (kg_values ?G) = mset (map of_nat [0..<unat num])"
    using assms by (simp add: KeyGenerator_new_def del: mset_map)
  have G: "kg_mode ?G = UNIQUE_RANDOM" "kg_num ?G = num" "unat (kg_next ?G) = 0"
    by (simp_all add: KeyGenerator_new_def)
  have len: "length (kg_values ?G) = unat (kg_num ?G)"
    using mset_eq_length [OF m] G(2) by simp
  have "draws R (unat num) ?G rand = Inr (kg_values ?G)"
    using draws_unique [OF G(1) len, of "unat num"] G len by simp
  moreover have "draws R (Suc (unat num)) ?G rand = Inl Assert_Failed"
    using G(2,3) by (intro draws_over [OF G(1) len]) simp
  moreover have "draws R n (KeyGenerator_new shuffle seed SEQUENTIAL num) rand = Inr (map of_nat [0..<n])"
    by (subst draws_sequential) (simp_all add: KeyGenerator_new_def)
  ultimately show ?thesis
    using shuffled_numbers [OF m] by blast
qed

theorem KeyGenerator_covers_witness:
  "\<exists>xs. draws \<lparr>r64_seed = \<lambda>_. (), r64_next = \<lambda>_. (0, ())\<rparr> 3 (KeyGenerator_new (\<lambda>_. rev) 301 UNIQUE_RANDOM 3) () = Inr xs \<and>
     unat ` set xs = {..<3}"
  using KeyGenerator_covers [of "\<lambda>_. rev" "\<lparr>r64_seed = \<lambda>_. (), r64_next = \<lambda>_. (0, ())\<rparr>" 3 301 "()" 0]
  by (auto simp del: draws.simps)

end
