(* ===== verification/Bench_Db.thy ===== *)
theory Bench_Db
  imports Bench_Keys
begin

text \<open>
  The databases of the benchmark (\<open>db_bench_tool.cc\<close>): column families and how one is chosen, the
  databases a run uses, and how \<open>OpenDb\<close> sets them up.  RocksDB's own ways of opening a database and
  creating a column family are parameters.
\<close>

section \<open>Column families\<close>

definition pad6 :: "bytes \<Rightarrow> bytes" where
  "pad6 ds = replicate (6 - length ds) 48 @ ds"

definition ColumnFamilyName :: "nat \<Rightarrow> bytes" where
  "ColumnFamilyName i =
     (if i = 0 then bytes_of ''default'' else take 99 (bytes_of ''column_family_name_'' @ pad6 (to_string i)))"

text \<open>Handles are pointers, null until the family exists.\<close>

record ('h, 'm) DBWithColumnFamilies =
  cfh :: "'h option list"
  db :: "'m option"
  opt_txn_db :: "'m option"
  num_created :: u64
  num_hot :: u64
  cfh_idx_to_prob :: "int list"

definition DBWithColumnFamilies_new :: "('h, 'm) DBWithColumnFamilies" where
  "DBWithColumnFamilies_new =
     \<lparr>cfh = [], db = None, opt_txn_db = None, num_created = 0, num_hot = 0, cfh_idx_to_prob = []\<rparr>"

definition DeleteDBs :: "('h, 'm) DBWithColumnFamilies \<Rightarrow> ('h, 'm) DBWithColumnFamilies" where
  "DeleteDBs d =
     (let d = d\<lparr>cfh := []\<rparr>
      in if opt_txn_db d \<noteq> None then d\<lparr>opt_txn_db := None\<rparr> else d\<lparr>db := None\<rparr>)"

text \<open>
  The loop over the probabilities: \<open>total\<close> is \<open>sum\<close>, the list what is left from \<open>rand_offset\<close> on.  Running
  past its end is reading outside the vector.
\<close>

fun pick_family :: "int \<Rightarrow> int \<Rightarrow> nat \<Rightarrow> int list \<Rightarrow> nat outcome" where
  "pick_family r acc i [] = Inl Out_Of_Bounds"
| "pick_family r acc i (p # ps) =
     bindO (int_add acc p) (\<lambda>t. if t < r then pick_family r t (Suc i) ps else Inr i)"

definition GetCfh :: "int \<Rightarrow> ('h, 'm) DBWithColumnFamilies \<Rightarrow> 'h option outcome" where
  "GetCfh rand_num d =
     bindO (guardO (0 < num_hot d) Assert_Failed) (\<lambda>_.
     bindO (if cfh_idx_to_prob d \<noteq> []
            then bindO (guardO (length (cfh_idx_to_prob d) = unat (num_hot d)) Assert_Failed) (\<lambda>_.
                 bindO (pick_family (rand_num smod 100) 0 0 (cfh_idx_to_prob d)) (\<lambda>i. Inr (of_nat i)))
            else Inr ((of_int rand_num :: u64) mod num_hot d)) (\<lambda>rand_offset.
       at_index (cfh d) (unat (num_created d - num_hot d + rand_offset))))"

fun create_families ::
  "(bytes \<Rightarrow> 'm \<Rightarrow> (Status \<times> 'h option) \<times> 'm) \<Rightarrow> nat list \<Rightarrow> 'h option list \<Rightarrow> 'm \<Rightarrow>
   ('h option list \<times> 'm) outcome" where
  "create_families create [] hs m = Inr (hs, m)"
| "create_families create (i # js) hs m =
     (let ((s, h), m) = create (ColumnFamilyName i) m
      in if \<not> i < length hs then Inl Out_Of_Bounds
         else if s \<noteq> OK then Inl Process_Abort
         else create_families create js (hs[i := h]) m)"

definition CreateNewCf ::
  "(bytes \<Rightarrow> 'm \<Rightarrow> (Status \<times> 'h option) \<times> 'm) \<Rightarrow> int \<Rightarrow> ('h, 'm) DBWithColumnFamilies \<Rightarrow>
   ('h, 'm) DBWithColumnFamilies outcome" where
  "CreateNewCf create stage d =
     (if (of_int (stage + 1) :: u64) * num_hot d \<le> num_created d then Inr d
      else
        let new_num_created = num_created d + num_hot d
        in bindO (guardO (unat new_num_created \<le> length (cfh d)) Assert_Failed) (\<lambda>_.
           let js = [unat (num_created d)..<unat new_num_created]
           in if js = [] then Inr (d\<lparr>num_created := new_num_created\<rparr>)
              else bindO (deref (db d)) (\<lambda>m.
                   bindO (create_families create js (cfh d) m) (\<lambda>(hs, m).
                     Inr (d\<lparr>cfh := hs, db := Some m, num_created := new_num_created\<rparr>)))))"

section \<open>Opening\<close>

record bench_options = Options +
  max_bytes_for_level_base :: u64
  level0_slowdown_writes_trigger :: int
  max_background_flushes :: int
  max_background_compactions :: int

record db_flags =
  fl_num_column_families :: int
  fl_num_hot_column_families :: int
  fl_column_family_distribution :: bytes
  fl_max_background_flushes :: int
  fl_max_background_compactions :: int
  fl_num_vlsm :: int
  fl_readonly :: bool
  fl_optimistic_transaction_db :: bool
  fl_transaction_db :: bool
  fl_use_blob_db :: bool
  fl_use_secondary_db :: bool

text \<open>The lines \<open>getline\<close> gives with the delimiter \<open>d\<close>.\<close>

function getline_all :: "u8 \<Rightarrow> bytes \<Rightarrow> bytes list" where
  "getline_all d s =
     (if s = [] then []
      else takeWhile (\<lambda>c. c \<noteq> d) s # getline_all d (drop 1 (dropWhile (\<lambda>c. c \<noteq> d) s)))"
  by pat_completeness auto
termination
proof (relation "measure (length \<circ> snd)")
  fix d :: u8 and s :: bytes assume "s \<noteq> []"
  then show "((d, drop 1 (dropWhile (\<lambda>c. c \<noteq> d) s)), d, s) \<in> measure (length \<circ> snd)"
    using length_dropWhile_le [of "\<lambda>c. c \<noteq> d" s] by (cases s) auto
qed simp

declare getline_all.simps [simp del]

fun parse_probs :: "bytes list \<Rightarrow> int list \<Rightarrow> int \<Rightarrow> (int list \<times> int) outcome" where
  "parse_probs [] ps acc = Inr (ps, acc)"
| "parse_probs (l # ls) ps acc =
     bindO (stoi l) (\<lambda>p. bindO (int_add acc p) (\<lambda>acc. parse_probs ls (ps @ [p]) acc))"

text \<open>The hot families and the probabilities, and the flag that is set when all families are hot.\<close>

definition family_setup :: "db_flags \<Rightarrow> (int \<times> int list \<times> db_flags) outcome" where
  "family_setup F =
     (let (hot, F) = (if 0 < fl_num_hot_column_families F \<and> fl_num_hot_column_families F < fl_num_column_families F
                      then (fl_num_hot_column_families F, F)
                      else (fl_num_column_families F, F\<lparr>fl_num_hot_column_families := fl_num_column_families F\<rparr>))
      in if fl_column_family_distribution F = [] then Inr (hot, [], F)
         else bindO (parse_probs (getline_all 44 (fl_column_family_distribution F)) [] 0) (\<lambda>(ps, tot).
              if tot \<noteq> 100 then Inl Process_Exit
              else if int (length ps) \<noteq> hot then Inl Process_Exit
              else Inr (hot, ps, F)))"

definition resize :: "nat \<Rightarrow> 'h option list \<Rightarrow> 'h option list" where
  "resize n hs = take n hs @ replicate (n - length hs) None"

definition bg_options :: "db_flags \<Rightarrow> bench_options \<Rightarrow> bench_options" where
  "bg_options F options =
     options\<lparr>max_background_flushes := fl_max_background_flushes F * fl_num_vlsm F,
             max_background_compactions := fl_max_background_compactions F * fl_num_vlsm F\<rparr>"

definition vlsm_options :: "db_flags \<Rightarrow> bench_options \<Rightarrow> bench_options" where
  "vlsm_options F options =
     options\<lparr>max_bytes_for_level_base := max_bytes_for_level_base options div of_int (fl_num_vlsm F),
             level0_slowdown_writes_trigger := level0_slowdown_writes_trigger options sdiv fl_num_vlsm F + 1,
             level0_stop_writes_trigger := level0_stop_writes_trigger options sdiv fl_num_vlsm F + 1\<rparr>"

text \<open>
  \<open>ext_open\<close> stands for the ways of opening RocksDB that do not involve \<open>DB_MASTER\<close>; it gives the handles,
  the database and the optimistic-transaction database.
\<close>

definition OpenDb ::
  "('w, 'm) rocksdb \<Rightarrow> 'w os \<Rightarrow> (db_flags \<Rightarrow> 'w \<Rightarrow> (Status \<times> 'h option list \<times> 'm option \<times> 'm option) \<times> 'w) \<Rightarrow>
   db_flags \<Rightarrow> bench_options \<Rightarrow> bytes \<Rightarrow> ('h, 'm) DBWithColumnFamilies \<Rightarrow> ('w, 'm) master \<Rightarrow>
   (('h, 'm) DBWithColumnFamilies \<times> ('w, 'm) master \<times> db_flags) outcome" where
  "OpenDb rdb os ext_open F options db_name d M =
     bindO
       (if 1 < fl_num_column_families F
        then bindO (family_setup F) (\<lambda>(hot, probs, F).
               let ((s, hs, m, t), w) = ext_open F (world (ilsm_db M))
               in Inr (s, d\<lparr>cfh := resize (nat (fl_num_column_families F)) hs, db := m, opt_txn_db := t,
                            num_created := of_int hot, num_hot := of_int hot, cfh_idx_to_prob := probs\<rparr>,
                       M\<lparr>ilsm_db := (ilsm_db M)\<lparr>world := w\<rparr>\<rparr>, F))
        else if fl_readonly F \<or> fl_optimistic_transaction_db F \<or> fl_transaction_db F \<or> fl_use_blob_db F \<or>
                fl_use_secondary_db F
        then let ((s, hs, m, t), w) = ext_open F (world (ilsm_db M))
             in Inr (s, d\<lparr>db := m, opt_txn_db := t\<rparr>, M\<lparr>ilsm_db := (ilsm_db M)\<lparr>world := w\<rparr>\<rparr>, F)
        else
          let ((_, m), w) = rdb_open rdb (Options.truncate (bg_options F options)) db_name (world (ilsm_db M));
              d = d\<lparr>db := m\<rparr>;
              M = M\<lparr>ilsm_db := (ilsm_db M)\<lparr>world := w\<rparr>\<rparr>
          in if fl_num_vlsm F = 0 then Inl Div_By_Zero
             else
               let (s, M) = master_Open rdb os (Options.truncate (vlsm_options F options))
                              (db_name @ bytes_of ''/vlsm'') (fl_num_vlsm F) M
               in Inr (s, d, M, F))
       (\<lambda>(s, d, M, F). if s \<noteq> OK then Inl Process_Exit else Inr (d, M, F))"

section \<open>The databases of a run\<close>

record ('h, 'm) bench_dbs =
  bdb :: "('h, 'm) DBWithColumnFamilies"
  multi_dbs :: "('h, 'm) DBWithColumnFamilies list"

text \<open>Which database: \<open>None\<close> is \<open>db_\<close>, \<open>Some i\<close> element \<open>i\<close> of \<open>multi_dbs_\<close>.\<close>

definition SelectDBWithCfh :: "u64 \<Rightarrow> ('h, 'm) bench_dbs \<Rightarrow> nat option outcome" where
  "SelectDBWithCfh rand_int B =
     (if db (bdb B) \<noteq> None then Inr None
      else if multi_dbs B = [] then Inl Div_By_Zero
      else Inr (Some (unat (rand_int mod of_nat (length (multi_dbs B))))))"

definition selected :: "('h, 'm) bench_dbs \<Rightarrow> nat option \<Rightarrow> ('h, 'm) DBWithColumnFamilies" where
  "selected B i = (case i of None \<Rightarrow> bdb B | Some i \<Rightarrow> multi_dbs B ! i)"

section \<open>The default number of trees cannot be opened\<close>

definition plain_flags :: "db_flags \<Rightarrow> bool" where
  "plain_flags F \<longleftrightarrow> \<not> 1 < fl_num_column_families F \<and> \<not> fl_readonly F \<and> \<not> fl_optimistic_transaction_db F \<and>
     \<not> fl_transaction_db F \<and> \<not> fl_use_blob_db F \<and> \<not> fl_use_secondary_db F"

text \<open>
  Without flags for another kind of database, \<open>OpenDb\<close> ends the process unless
  \<open>num_vlsm\<close> is 1: the default of 2, which the workload script also passes, cannot be run.  With 1 the
  only requirement is that \<open>DB_MASTER::Open\<close> succeeds; the outcome of opening the benchmark's own
  database is not looked at.
\<close>

theorem OpenDb_num_vlsm:
  assumes "plain_flags F" and "fl_num_vlsm F \<noteq> 0"
  shows "(fl_num_vlsm F \<noteq> 1 \<longrightarrow> OpenDb rdb os ext_open F options name d M = Inl Process_Exit) \<and>
    (fl_num_vlsm F = 1 \<longrightarrow>
       OpenDb rdb os ext_open F options name d M =
         (case rdb_open rdb (Options.truncate (bg_options F options)) name (world (ilsm_db M)) of ((_, m), w) \<Rightarrow>
          case master_Open rdb os (Options.truncate (vlsm_options F options)) (name @ bytes_of ''/vlsm'') 1
                 (M\<lparr>ilsm_db := (ilsm_db M)\<lparr>world := w\<rparr>\<rparr>) of (s, M') \<Rightarrow>
            if s = OK then Inr (d\<lparr>db := m\<rparr>, M', F) else Inl Process_Exit))"
proof (cases "fl_num_vlsm F = 1")
  case False
  then have "master_Open rdb os opts n (fl_num_vlsm F) M' = (NotSupported, M')" for opts n M'
    by (simp add: master_Open_def)
  then show ?thesis
    using False assms by (simp add: OpenDb_def plain_flags_def Let_def split_beta)
next
  case True
  then show ?thesis
    using assms by (simp add: OpenDb_def plain_flags_def Let_def split_beta)
qed

definition default_flags :: db_flags where
  "default_flags =
     \<lparr>fl_num_column_families = 1, fl_num_hot_column_families = 0, fl_column_family_distribution = [],
      fl_max_background_flushes = 1, fl_max_background_compactions = 1, fl_num_vlsm = 2, fl_readonly = False,
      fl_optimistic_transaction_db = False, fl_transaction_db = False, fl_use_blob_db = False,
      fl_use_secondary_db = False\<rparr>"

definition some_bench_options :: bench_options where
  "some_bench_options = Options.extend some_options
     (bench_options.fields 268435456 20 1 1)"

theorem OpenDb_num_vlsm_witness:
  "OpenDb list_rdb ok_os (\<lambda>_ w. ((OK, [], Some [], None), w)) default_flags some_bench_options (bytes_of ''/tmp/db'')
     (DBWithColumnFamilies_new :: (unit, (bytes \<times> bytes) list) DBWithColumnFamilies) (master_new ()) = Inl Process_Exit"
proof -
  have "plain_flags default_flags" "fl_num_vlsm default_flags \<noteq> 0" "fl_num_vlsm default_flags \<noteq> 1"
    by (simp_all add: plain_flags_def default_flags_def)
  then show ?thesis
    using OpenDb_num_vlsm [of default_flags list_rdb ok_os "\<lambda>_ w. ((OK, [], Some [], None), w)" some_bench_options]
    by blast
qed

section \<open>The family a number selects\<close>

definition families_ok :: "('h, 'm) DBWithColumnFamilies \<Rightarrow> bool" where
  "families_ok d \<longleftrightarrow> 0 < num_hot d \<and> num_hot d \<le> num_created d \<and> unat (num_created d) \<le> length (cfh d) \<and>
     (\<forall>i<unat (num_created d). cfh d ! i \<noteq> None)"

definition probs_ok :: "('h, 'm) DBWithColumnFamilies \<Rightarrow> bool" where
  "probs_ok d \<longleftrightarrow> cfh_idx_to_prob d = [] \<or>
     (length (cfh_idx_to_prob d) = unat (num_hot d) \<and> (\<forall>p\<in>set (cfh_idx_to_prob d). 0 \<le> p) \<and>
      sum_list (cfh_idx_to_prob d) = 100)"

lemma pick_family_finds:
  assumes "\<forall>p\<in>set ps. 0 \<le> p" and "0 \<le> acc" and "acc + sum_list ps \<le> 100" and "r \<le> acc + sum_list ps" and "ps \<noteq> []"
  shows "\<exists>j<length ps. pick_family r acc i ps = Inr (i + j) \<and>
    (j = 0 \<or> acc + sum_list (take j ps) < r) \<and> r \<le> acc + sum_list (take (Suc j) ps)"
  using assms
proof (induction ps arbitrary: acc i)
  case (Cons p ps)
  have nn: "0 \<le> p" "0 \<le> sum_list ps"
    using Cons.prems(1) by (auto intro: sum_list_nonneg)
  then have "int_add acc p = Inr (acc + p)"
    using Cons.prems(2,3) by (simp add: int_add_def int_range_def)
  show ?case
  proof (cases "acc + p < r")
    case True
    then have "ps \<noteq> []"
      using Cons.prems(4) by auto
    then obtain j where "j < length ps" "pick_family r (acc + p) (Suc i) ps = Inr (Suc i + j)"
      "j = 0 \<or> acc + p + sum_list (take j ps) < r" "r \<le> acc + p + sum_list (take (Suc j) ps)"
      using Cons.IH [of "acc + p" "Suc i"] Cons.prems nn by auto
    then show ?thesis
      using True \<open>int_add acc p = Inr (acc + p)\<close> by (intro exI [of _ "Suc j"]) (auto simp: add.assoc)
  next
    case False
    then show ?thesis
      using \<open>int_add acc p = Inr (acc + p)\<close> by (intro exI [of _ 0]) simp
  qed
qed simp

lemma hot_index:
  assumes "families_ok d" and "unat o' < unat (num_hot d)"
  shows "unat (num_created d - num_hot d + o') = unat (num_created d) - unat (num_hot d) + unat o'"
    and "unat (num_created d) - unat (num_hot d) + unat o' < unat (num_created d)"
proof -
  have le: "unat (num_hot d) \<le> unat (num_created d)"
    using assms(1) by (simp add: families_ok_def word_le_nat_alt)
  then have "unat (num_created d - num_hot d) = unat (num_created d) - unat (num_hot d)"
    by (simp add: unat_sub word_le_nat_alt)
  moreover show lt: "unat (num_created d) - unat (num_hot d) + unat o' < unat (num_created d)"
    using assms(2) le by linarith
  ultimately show "unat (num_created d - num_hot d + o') = unat (num_created d) - unat (num_hot d) + unat o'"
    using less_trans [OF lt unat_u64_less] by (simp add: unat_word_ariths)
qed

text \<open>
  A chosen family always exists and is one of the \<open>num_hot\<close> newest.  With configured
  probabilities the residue \<open>r\<close> of the random number modulo 100 selects the first family whose running
  sum reaches \<open>r\<close>: the first family is hit by one residue more, and the last by one less, than its
  percentage says.
\<close>

theorem GetCfh_hot:
  assumes "families_ok d" and "probs_ok d" and "0 \<le> rand_num"
  shows "\<exists>j h. j < unat (num_hot d) \<and> GetCfh rand_num d = Inr (Some h) \<and>
    cfh d ! (unat (num_created d) - unat (num_hot d) + j) = Some h \<and>
    (cfh_idx_to_prob d \<noteq> [] \<longrightarrow>
       (j = 0 \<or> sum_list (take j (cfh_idx_to_prob d)) < rand_num mod 100) \<and>
       rand_num mod 100 \<le> sum_list (take (Suc j) (cfh_idx_to_prob d)))"
proof -
  have hot: "0 < num_hot d"
    using assms(1) by (simp add: families_ok_def)
  have fin: "\<exists>h. at_index (cfh d) (unat (num_created d - num_hot d + o')) = Inr (Some h) \<and>
      cfh d ! (unat (num_created d) - unat (num_hot d) + unat o') = Some h" if "unat o' < unat (num_hot d)" for o'
    using hot_index [OF assms(1) that] assms(1) by (fastforce simp: families_ok_def)
  show ?thesis
  proof (cases "cfh_idx_to_prob d = []")
    case True
    let ?o = "(of_int rand_num :: u64) mod num_hot d"
    have lt: "unat ?o < unat (num_hot d)"
      using hot by (simp add: unat_mod word_less_nat_alt)
    show ?thesis
      using fin [OF lt] lt True hot by (intro exI [of _ "unat ?o"]) (auto simp: GetCfh_def)
  next
    case False
    let ?ps = "cfh_idx_to_prob d"
    have ps: "length ?ps = unat (num_hot d)" "\<forall>p\<in>set ?ps. 0 \<le> p" "sum_list ?ps = 100"
      using assms(2) False by (auto simp: probs_ok_def)
    have r: "rand_num smod 100 = rand_num mod 100" "rand_num mod 100 \<le> 100"
      using assms(3) by (simp_all add: signed_modulo_int_def sgn_if)
    obtain j where j: "j < length ?ps" "pick_family (rand_num mod 100) 0 0 ?ps = Inr j"
      "j = 0 \<or> sum_list (take j ?ps) < rand_num mod 100" "rand_num mod 100 \<le> sum_list (take (Suc j) ?ps)"
      using pick_family_finds [OF ps(2), of 0 "rand_num mod 100" 0] ps(3) False r(2) by auto
    have "unat (of_nat j :: u64) = j"
      using j(1) ps(1) less_trans [OF _ unat_u64_less] by (intro unat_of_nat64) simp
    then show ?thesis
      using fin [of "of_nat j"] j ps(1) False hot r(1) by (intro exI [of _ j]) (auto simp: GetCfh_def)
  qed
qed

definition two_families :: "(nat, unit) DBWithColumnFamilies" where
  "two_families = \<lparr>cfh = [Some 0, Some 1], db = Some (), opt_txn_db = None, num_created = 2, num_hot = 2,
     cfh_idx_to_prob = [50, 50]\<rparr>"

theorem GetCfh_hot_witness:
  "GetCfh 50 two_families = Inr (Some 0) \<and> (\<exists>h. GetCfh 50 two_families = Inr (Some h))"
proof -
  have "families_ok two_families"
    by (auto simp: families_ok_def two_families_def nth_Cons split: nat.splits)
  moreover have "probs_ok two_families"
    by (simp add: probs_ok_def two_families_def)
  ultimately show ?thesis
    using GetCfh_hot [of two_families 50]
    by (auto simp: two_families_def GetCfh_def int_add_def int_range_def signed_modulo_int_def)
qed

lemma create_families_sets:
  assumes "\<forall>n m. fst (fst (create n m)) = OK \<longrightarrow> snd (fst (create n m)) \<noteq> None"
    and "create_families create js hs m = Inr (hs', m')"
  shows "length hs' = length hs \<and> (\<forall>i<length hs. (i \<in> set js \<or> hs ! i \<noteq> None) \<longrightarrow> hs' ! i \<noteq> None)"
  using assms(2)
proof (induction js arbitrary: hs m)
  case (Cons i js)
  then obtain h m1 where c: "create (ColumnFamilyName i) m = ((OK, h), m1)" "i < length hs"
    "create_families create js (hs[i := h]) m1 = Inr (hs', m')"
    by (auto simp: Let_def split: prod.splits if_splits)
  then have "h \<noteq> None"
    using assms(1) by (metis fst_conv snd_conv)
  then show ?case
    using Cons.IH [OF c(3)] c(2) by (auto simp: nth_list_update)
qed simp

lemma CreateNewCf_ok:
  assumes "\<forall>n m. fst (fst (create n m)) = OK \<longrightarrow> snd (fst (create n m)) \<noteq> None"
    and "families_ok d" and "CreateNewCf create stage d = Inr d'"
    and "unat (num_created d) + unat (num_hot d) < 18446744073709551616"
  shows "families_ok d' \<and> num_hot d' = num_hot d \<and> (num_created d' = num_created d \<or> num_created d' = num_created d + num_hot d)"
proof (cases "(of_int (stage + 1) :: u64) * num_hot d \<le> num_created d")
  case True
  then show ?thesis
    using assms(2,3) by (simp add: CreateNewCf_def)
next
  case False
  have n: "unat (num_created d + num_hot d) = unat (num_created d) + unat (num_hot d)"
    using assms(4) by (simp add: unat_word_ariths)
  have hot: "0 < unat (num_hot d)"
    using assms(2) by (simp add: families_ok_def word_less_nat_alt)
  obtain m hs m' where c: "create_families create [unat (num_created d)..<unat (num_created d + num_hot d)] (cfh d) m = Inr (hs, m')"
    "d' = d\<lparr>cfh := hs, db := Some m', num_created := num_created d + num_hot d\<rparr>"
    "unat (num_created d + num_hot d) \<le> length (cfh d)"
    using assms(3) False n hot by (auto simp: CreateNewCf_def bindO_eq_Inr Let_def split: if_splits)
  have "hs ! i \<noteq> None" if "i < unat (num_created d + num_hot d)" for i
    using create_families_sets [OF assms(1) c(1)] assms(2) c(3) that n
    by (cases "i < unat (num_created d)") (auto simp: families_ok_def)
  then show ?thesis
    using create_families_sets [OF assms(1) c(1)] assms(2) c(2,3) n
    by (simp add: families_ok_def word_le_nat_alt)
qed

end
