(* ===== verification/Bench_Values.thy ===== *)
theory Bench_Values
  imports Complex_Main KV_Prelude
begin

text \<open>
  The values the benchmark writes (\<open>db_bench_tool.cc\<close>): how their sizes are drawn and how their bytes are
  cut from one block of compressible data.  The random engines of the standard library and RocksDB's
  \<open>CompressibleString\<close> are parameters.  A \<open>double\<close> is a real number: rounding is not modelled.
\<close>

section \<open>Value sizes\<close>

datatype DistributionType = kFixed | kUniform | kNormal

definition to_lower :: "u8 \<Rightarrow> u8" where
  "to_lower c = (if 65 \<le> c \<and> c \<le> 90 then c + 32 else c)"

definition strcasecmp_eq :: "bytes \<Rightarrow> bytes \<Rightarrow> bool" where
  "strcasecmp_eq a b \<longleftrightarrow> map to_lower a = map to_lower b"

definition StringToDistributionType :: "bytes \<Rightarrow> DistributionType outcome" where
  "StringToDistributionType ctype =
     (if strcasecmp_eq ctype (bytes_of ''fixed'') then Inr kFixed
      else if strcasecmp_eq ctype (bytes_of ''uniform'') then Inr kUniform
      else if strcasecmp_eq ctype (bytes_of ''normal'') then Inr kNormal
      else Inl Process_Exit)"

text \<open>
  The class hierarchy as a tagged union, and the two library distributions it draws from: a normal one
  by mean and deviation, a uniform one by its bounds.
\<close>

datatype dist = FixedDistribution u32 | NormalDistribution u32 u32 | UniformDistribution u32 u32

record 'g sampler =
  sample_normal :: "real \<Rightarrow> real \<Rightarrow> 'g \<Rightarrow> real \<times> 'g"
  sample_uniform :: "u32 \<Rightarrow> u32 \<Rightarrow> 'g \<Rightarrow> u32 \<times> 'g"

text \<open>\<open>static_cast<unsigned int>\<close> of a \<open>double\<close>: it truncates, and is undefined when the result does not fit.\<close>

definition to_u32 :: "real \<Rightarrow> u32 outcome" where
  "to_u32 x = (if - 1 < x \<and> x < 4294967296 then Inr (if x < 0 then 0 else of_int \<lfloor>x\<rfloor>) else Inl Signed_Overflow)"

fun dist_Get :: "'g sampler \<Rightarrow> dist \<Rightarrow> 'g \<Rightarrow> (u32 \<times> 'g) outcome" where
  "dist_Get S (FixedDistribution sz) g = Inr (sz, g)"
| "dist_Get S (NormalDistribution mn mx) g =
     (let (x, g) = sample_normal S (real (unat (mn + mx)) / 2) (real (unat (mx - mn)) / 6) g
      in bindO (to_u32 x) (\<lambda>v. Inr (v, g)))"
| "dist_Get S (UniformDistribution mn mx) g = Inr (sample_uniform S mn mx g)"

fun NeedTruncate :: "dist \<Rightarrow> bool" where
  "NeedTruncate (FixedDistribution _) = False"
| "NeedTruncate (NormalDistribution _ _) = True"
| "NeedTruncate (UniformDistribution _ _) = False"

fun dist_min :: "dist \<Rightarrow> u32" where
  "dist_min (FixedDistribution sz) = sz"
| "dist_min (NormalDistribution mn _) = mn"
| "dist_min (UniformDistribution mn _) = mn"

fun dist_max :: "dist \<Rightarrow> u32" where
  "dist_max (FixedDistribution sz) = sz"
| "dist_max (NormalDistribution _ mx) = mx"
| "dist_max (UniformDistribution _ mx) = mx"

definition dist_Generate :: "'g sampler \<Rightarrow> dist \<Rightarrow> 'g \<Rightarrow> (u32 \<times> 'g) outcome" where
  "dist_Generate S d g =
     bindO (dist_Get S d g) (\<lambda>(val, g).
       Inr (if NeedTruncate d then min (dist_max d) (max (dist_min d) val) else val, g))"

section \<open>The generator\<close>

record value_flags =
  value_size_distribution_type_e :: DistributionType
  value_size_min :: int
  value_size_max :: int
  value_size :: u32

record 'g RandomGenerator =
  gen_data :: bytes
  gen_pos :: u32
  gen_dist :: dist
  gen_state :: 'g

text \<open>The distribution the constructor makes and the \<open>int\<close> it keeps as largest value size.\<close>

definition make_dist :: "value_flags \<Rightarrow> dist \<times> int" where
  "make_dist F =
     (case value_size_distribution_type_e F of
        kUniform \<Rightarrow> (UniformDistribution (of_int (value_size_min F)) (of_int (value_size_max F)), value_size_max F)
      | kNormal \<Rightarrow> (NormalDistribution (of_int (value_size_min F)) (of_int (value_size_max F)), value_size_max F)
      | kFixed \<Rightarrow> (FixedDistribution (value_size F), sint (value_size F)))"

text \<open>The loop that appends pieces until the block is large enough.\<close>

fun fill_data :: "('r \<Rightarrow> bytes \<times> 'r) \<Rightarrow> nat \<Rightarrow> nat \<Rightarrow> 'r \<Rightarrow> bytes \<Rightarrow> bytes outcome" where
  "fill_data piece fuel n rnd ds =
     (if n \<le> length ds then Inr ds
      else case fuel of
             0 \<Rightarrow> Inl Out_Of_Fuel
           | Suc fuel \<Rightarrow> let (p, rnd) = piece rnd in fill_data piece fuel n rnd (ds @ p))"

declare fill_data.simps [simp del]

definition RandomGenerator_new ::
  "('r \<Rightarrow> bytes \<times> 'r) \<Rightarrow> nat \<Rightarrow> 'r \<Rightarrow> value_flags \<Rightarrow> 'g \<Rightarrow> 'g RandomGenerator outcome" where
  "RandomGenerator_new piece fuel rnd F g =
     (let (d, max_value_size) = make_dist F
      in bindO (fill_data piece fuel (unat (of_int (max 1048576 max_value_size) :: u32)) rnd []) (\<lambda>ds.
           Inr \<lparr>gen_data = ds, gen_pos = 0, gen_dist = d, gen_state = g\<rparr>))"

text \<open>\<open>pos_ + len\<close> is an \<open>unsigned int\<close> and wraps; the slice starts at \<open>data_ + pos_ - len\<close>.\<close>

definition Generate_len :: "u32 \<Rightarrow> 'g RandomGenerator \<Rightarrow> (bytes \<times> 'g RandomGenerator) outcome" where
  "Generate_len len G =
     bindO (guardO (unat len \<le> length (gen_data G)) Assert_Failed) (\<lambda>_.
       let p = (if length (gen_data G) < unat (gen_pos G + len) then 0 else gen_pos G);
           p = p + len;
           start = unat p - unat len
       in if unat len \<le> unat p \<and> unat p \<le> length (gen_data G)
          then Inr (take (unat len) (drop start (gen_data G)), G\<lparr>gen_pos := p\<rparr>)
          else Inl Out_Of_Bounds)"

definition Generate :: "'g sampler \<Rightarrow> 'g RandomGenerator \<Rightarrow> (bytes \<times> 'g RandomGenerator) outcome" where
  "Generate S G =
     bindO (dist_Generate S (gen_dist G) (gen_state G)) (\<lambda>(len, g). Generate_len len (G\<lparr>gen_state := g\<rparr>))"

section \<open>Sizes stay within their bounds\<close>

text \<open>What the standard promises of the uniform distribution.\<close>

definition uniform_laws :: "'g sampler \<Rightarrow> bool" where
  "uniform_laws S \<longleftrightarrow> (\<forall>a b g. a \<le> b \<longrightarrow> a \<le> fst (sample_uniform S a b g) \<and> fst (sample_uniform S a b g) \<le> b)"

lemma dist_Generate_bounds:
  assumes "uniform_laws S" and "dist_min d \<le> dist_max d" and "dist_Generate S d g = Inr (n, g')"
  shows "dist_min d \<le> n \<and> n \<le> dist_max d"
  using assms
  by (cases d) (auto simp: dist_Generate_def uniform_laws_def bindO_eq_Inr Let_def split: prod.splits,
      (metis fst_conv)+)

lemma dist_Generate_total:
  assumes "\<not> NeedTruncate d"
  shows "\<exists>n g'. dist_Generate S d g = Inr (n, g')"
  using assms by (cases d) (auto simp: dist_Generate_def split: prod.splits)

text \<open>
  A normally distributed size is clamped to its bounds only after the sample has been
  converted to \<open>unsigned int\<close>: a sample of at most -1 or of at least 4294967296 is undefined behaviour,
  every other one gives a size between the bounds.
\<close>

theorem normal_size_clamped:
  assumes "mn \<le> mx" and "sample_normal S (real (unat (mn + mx)) / 2) (real (unat (mx - mn)) / 6) g = (x, g')"
  shows "dist_Generate S (NormalDistribution mn mx) g =
    (if - 1 < x \<and> x < 4294967296
     then Inr (if x \<le> real (unat mn) then mn else if real (unat mx) \<le> x then mx else of_int \<lfloor>x\<rfloor>, g')
     else Inl Signed_Overflow)"
proof (cases "- 1 < x \<and> x < 4294967296")
  case True
  define v :: u32 where "v = (if x < 0 then 0 else of_int \<lfloor>x\<rfloor>)"
  have uv: "int (unat v) = (if x < 0 then 0 else \<lfloor>x\<rfloor>)"
  proof (cases "x < 0")
    case False
    then have "0 \<le> \<lfloor>x\<rfloor>" "\<lfloor>x\<rfloor> < 4294967296"
      using True by (simp_all add: floor_less_iff)
    then show ?thesis
      using False by (simp add: v_def unat_eq_nat_uint uint_word_of_int)
  qed (simp add: v_def)
  have "min mx (max mn v) = (if x \<le> real (unat mn) then mn else if real (unat mx) \<le> x then mx else of_int \<lfloor>x\<rfloor>)"
  proof -
    have le: "a \<le> b \<longleftrightarrow> int (unat a) \<le> int (unat b)" for a b :: u32
      by (simp only: word_le_nat_alt of_nat_le_iff)
    consider "x \<le> real (unat mn)" | "real (unat mn) < x" "real (unat mx) \<le> x" | "real (unat mn) < x" "x < real (unat mx)"
      by linarith
    moreover have nn: "0 \<le> real (unat mn)"
      by (rule of_nat_0_le_iff)
    ultimately show ?thesis
    proof cases
      case 1
      then have "\<lfloor>x\<rfloor> \<le> int (unat mn)"
        by (simp add: floor_le_iff) 
      then have "v \<le> mn"
        using uv by (auto simp: le split: if_splits)
      then show ?thesis
        using 1 assms(1) by (simp add: max_def min_def)
    next
      case 2
      then have "0 \<le> x" "int (unat mx) \<le> \<lfloor>x\<rfloor>"
        using nn by (linarith, simp add: le_floor_iff)
      then have "mx \<le> v"
        using uv by (auto simp: le)
      then show ?thesis
        using 2 assms(1) by (auto simp: max_def min_def)
    next
      case 3
      then have x: "0 \<le> x" "int (unat mn) \<le> \<lfloor>x\<rfloor>" "\<lfloor>x\<rfloor> \<le> int (unat mx)"
        using nn by (linarith, simp_all add: le_floor_iff floor_le_iff)
      then have "mn \<le> v" "v \<le> mx" "v = of_int \<lfloor>x\<rfloor>"
        using uv by (auto simp: le v_def)
      then show ?thesis
        using 3 by (auto simp: max_def min_def)
    qed
  qed
  then show ?thesis
    using True assms(2) by (simp add: dist_Generate_def to_u32_def v_def)
next
  case False
  then show ?thesis
    using assms(2) by (auto simp: dist_Generate_def to_u32_def)
qed

text \<open>A sampler that always answers -5 shows the undefined case at work.\<close>

definition low_sampler :: "unit sampler" where
  "low_sampler = \<lparr>sample_normal = \<lambda>_ _ g. (- 5, g), sample_uniform = \<lambda>a _ g. (a, g)\<rparr>"

theorem normal_size_clamped_witness:
  "dist_Generate low_sampler (NormalDistribution 0 100) () = Inl Signed_Overflow"
  using normal_size_clamped [of 0 100 low_sampler "()" "- 5" "()"] by (simp add: low_sampler_def)

section \<open>The generator never runs out of data\<close>

lemma fill_data_total:
  assumes "\<forall>r. length (fst (piece r)) = 100" and "n \<le> fuel + length ds" and "length ds < n + 100"
  shows "\<exists>ds'. fill_data piece fuel n rnd ds = Inr ds' \<and> n \<le> length ds' \<and> length ds' < n + 100"
  using assms(2,3)
proof (induction fuel arbitrary: rnd ds)
  case 0
  then show ?case
    by (simp add: fill_data.simps [of _ 0])
next
  case (Suc fuel)
  obtain p r where p: "piece rnd = (p, r)"
    by fastforce
  then have "length p = 100"
    using assms(1) by (metis fst_conv)
  then show ?case
    using Suc.prems Suc.IH [of "ds @ p" r] p by (simp add: fill_data.simps [of _ "Suc fuel"])
qed

definition gen_inv :: "'g RandomGenerator \<Rightarrow> bool" where
  "gen_inv G \<longleftrightarrow> unat (gen_pos G) \<le> length (gen_data G) \<and> length (gen_data G) < 2147483648 \<and>
     unat (dist_max (gen_dist G)) \<le> length (gen_data G) \<and>
     dist_min (gen_dist G) \<le> dist_max (gen_dist G) \<and> \<not> NeedTruncate (gen_dist G)"

lemma Generate_len_ok:
  assumes "unat (gen_pos G) \<le> length (gen_data G)" and "length (gen_data G) < 2147483648"
    and "unat len \<le> length (gen_data G)"
  shows "\<exists>i p. i + unat len \<le> length (gen_data G) \<and> unat p \<le> length (gen_data G) \<and>
    Generate_len len G = Inr (take (unat len) (drop i (gen_data G)), G\<lparr>gen_pos := p\<rparr>)"
proof -
  define p where "p = (if length (gen_data G) < unat (gen_pos G + len) then 0 else gen_pos G) + len"
  have "unat (gen_pos G + len) = unat (gen_pos G) + unat len"
    using assms by (simp add: unat_word_ariths)
  then have "unat len \<le> unat p" "unat p \<le> length (gen_data G)"
    using assms(3) by (auto simp: p_def split: if_splits)
  then show ?thesis
    using assms(3)
    by (intro exI [of _ "unat p - unat len"] exI [of _ p]) (simp add: Generate_len_def Let_def p_def)
qed

lemma Generate_ok:
  assumes "uniform_laws S" and "gen_inv G"
  shows "\<exists>v G' i. Generate S G = Inr (v, G') \<and> gen_inv G' \<and>
    gen_data G' = gen_data G \<and> gen_dist G' = gen_dist G \<and>
    unat (dist_min (gen_dist G)) \<le> length v \<and> length v \<le> unat (dist_max (gen_dist G)) \<and>
    v = take (length v) (drop i (gen_data G)) \<and> i + length v \<le> length (gen_data G)"
proof -
  obtain n g where n: "dist_Generate S (gen_dist G) (gen_state G) = Inr (n, g)"
    using dist_Generate_total assms(2) by (metis gen_inv_def)
  then have b: "dist_min (gen_dist G) \<le> n" "n \<le> dist_max (gen_dist G)"
    using dist_Generate_bounds [OF assms(1) _ n] assms(2) by (simp_all add: gen_inv_def)
  let ?G = "G\<lparr>gen_state := g\<rparr>"
  have "unat n \<le> length (gen_data G)"
    using b(2) assms(2) by (simp add: gen_inv_def word_le_nat_alt)
  then obtain i p where ip: "i + unat n \<le> length (gen_data G)" "unat p \<le> length (gen_data G)"
    "Generate_len n ?G = Inr (take (unat n) (drop i (gen_data G)), ?G\<lparr>gen_pos := p\<rparr>)"
    using Generate_len_ok [of ?G n] assms(2) by (auto simp: gen_inv_def)
  then show ?thesis
    using n b assms(2)
    by (intro exI [of _ "take (unat n) (drop i (gen_data G))"] exI [of _ "?G\<lparr>gen_pos := p\<rparr>"] exI [of _ i])
       (simp add: Generate_def gen_inv_def word_le_nat_alt)
qed

text \<open>Flags that are not normally distributed and whose sizes stay below 2000000000 bytes.\<close>

definition sane_sizes :: "value_flags \<Rightarrow> bool" where
  "sane_sizes F \<longleftrightarrow> value_size_distribution_type_e F \<noteq> kNormal \<and>
     0 \<le> value_size_min F \<and> value_size_min F \<le> value_size_max F \<and> value_size_max F < 2000000000 \<and>
     value_size F < 2000000000"

lemma make_dist_sane:
  assumes "sane_sizes F" and "make_dist F = (d, m)"
  shows "0 \<le> m" and "m < 2000000000" and "int (unat (dist_max d)) = m" and "dist_min d \<le> dist_max d"
    and "\<not> NeedTruncate d"
proof -
  have v: "int (unat (value_size F)) < 2000000000"
    using assms(1) by (simp add: sane_sizes_def word_less_def)
  have s: "sint (value_size F) = int (unat (value_size F))"
    using v order.trans [OF _ uint_ge_0, of "- 2147483648" "value_size F"]
    by (simp add: sint_uint signed_take_bit_int_eq_self_iff)
  have u: "int (unat (of_int x :: u32)) = x" if "0 \<le> x" "x < 2000000000" for x
    using that by (simp add: uint_word_of_int)
  have "0 \<le> m \<and> m < 2000000000 \<and> int (unat (dist_max d)) = m \<and> dist_min d \<le> dist_max d \<and> \<not> NeedTruncate d"
  proof (cases "value_size_distribution_type_e F")
    case kFixed
    then show ?thesis
      using assms(2) v uint_ge_0 [of "value_size F"] by (auto simp: make_dist_def s)
  next
    case kUniform
    then have d: "d = UniformDistribution (of_int (value_size_min F)) (of_int (value_size_max F))"
      "m = value_size_max F"
      using assms(2) by (auto simp: make_dist_def)
    have r: "0 \<le> value_size_min F" "value_size_min F \<le> value_size_max F" "value_size_max F < 2000000000"
      using assms(1) by (auto simp: sane_sizes_def)
    moreover have b: "int (unat (of_int (value_size_min F) :: u32)) = value_size_min F"
      "int (unat (of_int (value_size_max F) :: u32)) = value_size_max F"
      using r by (simp_all only: u)
    moreover have "dist_min d \<le> dist_max d"
      using r(2) b by (simp add: d(1) word_le_def)
    moreover have "0 \<le> value_size_max F"
      using r by linarith
    ultimately show ?thesis
      unfolding d by (simp only: dist_max.simps NeedTruncate.simps) simp
  next
    case kNormal
    then show ?thesis
      using assms(1) by (simp add: sane_sizes_def)
  qed
  then show "0 \<le> m" "m < 2000000000" "int (unat (dist_max d)) = m" "dist_min d \<le> dist_max d" "\<not> NeedTruncate d"
    by blast+
qed

lemma RandomGenerator_new_ok:
  assumes "sane_sizes F" and "\<forall>r. length (fst (piece r)) = 100" and "2000000000 \<le> fuel"
  shows "\<exists>G. RandomGenerator_new piece fuel rnd F g = Inr G \<and> gen_inv G \<and> gen_dist G = fst (make_dist F)"
proof -
  obtain d m where dm: "make_dist F = (d, m)"
    by fastforce
  note r = make_dist_sane [OF assms(1) dm]
  let ?n = "unat (of_int (max 1048576 m) :: u32)"
  have n: "int ?n = max 1048576 m"
    using r(1,2) by (simp add: uint_word_of_int)
  then have "?n \<le> 2000000000"
    using r(2) by linarith
  then obtain ds where ds: "fill_data piece fuel ?n rnd [] = Inr ds" "?n \<le> length ds" "length ds < ?n + 100"
    using fill_data_total [OF assms(2), of ?n fuel "[]" rnd] assms(3) by auto
  have "int (unat (dist_max d)) \<le> int (length ds)" "int (length ds) < 2147483648"
    using ds(2,3) n r(2,3) by linarith+
  then have "unat (dist_max d) \<le> length ds" "length ds < 2147483648"
    by linarith+
  then show ?thesis
    using dm ds(1) r(4,5) by (simp add: RandomGenerator_new_def gen_inv_def)
qed

definition generates :: "'g sampler \<Rightarrow> 'g RandomGenerator \<Rightarrow> 'g RandomGenerator \<Rightarrow> bool" where
  "generates S G G' \<longleftrightarrow> (\<exists>v. Generate S G = Inr (v, G'))"


definition small_values :: value_flags where
  "small_values = \<lparr>value_size_distribution_type_e = kUniform, value_size_min = 10, value_size_max = 20,
     value_size = 100\<rparr>"

definition zero_piece :: "unit \<Rightarrow> bytes \<times> unit" where
  "zero_piece r = (replicate 100 0, r)"


end
