(* ===== verification/Bench_Stats.thy ===== *)
theory Bench_Stats
  imports Complex_Main Db_Master "HOL-Library.Signed_Division"
begin

text \<open>
  Bookkeeping of the benchmark (\<open>db_bench_tool.cc\<close>): the length of a run (\<open>Duration\<close>), the statistics of
  a thread and their merging (\<open>Stats\<close>), the interval reports (\<open>ReporterAgent\<close>), the summary over several
  runs (\<open>CombinedStats\<close>) and the emulated timestamps.  The clock and RocksDB's histograms are parameters;
  histograms live in a store because \<open>Stats\<close> objects share them by pointer.  Text written to the terminal
  is left out, except that a line saying \<open>STATUS H\<close> is logged.  A \<open>double\<close> is a real number.
\<close>

section \<open>How long a benchmark runs\<close>

type_synonym 'c clock = "'c \<Rightarrow> u64 \<times> 'c"

record Duration =
  max_seconds :: u64
  max_ops :: int
  ops_per_stage :: int
  d_ops :: int
  start_at :: u64

definition Duration_new :: "'c clock \<Rightarrow> u64 \<Rightarrow> int \<Rightarrow> int \<Rightarrow> 'c \<Rightarrow> Duration \<times> 'c" where
  "Duration_new now secs n per_stage c =
     (let (t, c) = now c
      in (\<lparr>max_seconds = secs, max_ops = n, ops_per_stage = (if 0 < per_stage then per_stage else n),
           d_ops = 0, start_at = t\<rparr>, c))"

definition GetStage :: "Duration \<Rightarrow> int outcome" where
  "GetStage D =
     (if ops_per_stage D = 0 then Inl Div_By_Zero
      else bindO (i64 (max_ops D - 1)) (\<lambda>m. i64 (min (d_ops D) m sdiv ops_per_stage D)))"

definition Done :: "'c clock \<Rightarrow> int \<Rightarrow> int \<Rightarrow> Duration \<Rightarrow> 'c \<Rightarrow> (bool \<times> Duration \<times> 'c) outcome" where
  "Done now granularity increment D c =
     (let increment = (if increment \<le> 0 then 1 else increment)
      in bindO (i64 (d_ops D + increment)) (\<lambda>n.
           let D = D\<lparr>d_ops := n\<rparr>
           in if max_seconds D \<noteq> 0
              then if granularity = 0 then Inl Div_By_Zero
                   else if d_ops D sdiv granularity \<noteq> (d_ops D - increment) sdiv granularity
                   then let (t, c) = now c
                        in Inr (max_seconds D \<le> (t - start_at D) div 1000000, D, c)
                   else Inr (False, D, c)
              else Inr (max_ops D < d_ops D, D, c)))"

section \<open>Interval reports\<close>

record ReporterAgent =
  total_ops_done :: u64
  last_report :: u64
  ra_stop :: bool
  ra_rows :: "(u64 \<times> u64) list"

definition ReportFinishedOps :: "u64 \<Rightarrow> ReporterAgent \<Rightarrow> ReporterAgent" where
  "ReportFinishedOps num_ops A = A\<lparr>total_ops_done := total_ops_done A + num_ops\<rparr>"

text \<open>
  One turn of the loop in \<open>SleepAndReport\<close> after the wait: \<open>None\<close> when the thread leaves the loop, because
  it was told to stop or because the file could not be written (\<open>written\<close>, the status of the append and
  the flush).  A row holds the seconds elapsed and the operations since the last row.
\<close>

definition report_turn :: "u64 \<Rightarrow> u64 \<Rightarrow> Status \<Rightarrow> ReporterAgent \<Rightarrow> ReporterAgent option" where
  "report_turn time_started now written A =
     (if ra_stop A then None
      else
        let snapshot = total_ops_done A;
            secs_elapsed = (now - time_started + 1000000 div 2) div 1000000;
            A = A\<lparr>ra_rows := ra_rows A @ [(secs_elapsed, snapshot - last_report A)]\<rparr>
        in if written \<noteq> OK then None else Some (A\<lparr>last_report := snapshot\<rparr>))"

section \<open>Statistics of a thread\<close>

datatype OperationType =
    kRead | kWrite | kDelete | kSeek | kMerge | kUpdate | kCompress | kUncompress | kCrc | kHash | kOthers

text \<open>The table of names; inserting a key twice into the map keeps the first entry.\<close>

definition OperationTypeString :: "(OperationType \<times> string) list" where
  "OperationTypeString =
     [(kRead, ''read''), (kWrite, ''write''), (kDelete, ''delete''), (kSeek, ''seek''), (kMerge, ''merge''),
      (kUpdate, ''update''), (kCompress, ''compress''), (kCompress, ''uncompress''), (kCrc, ''crc''),
      (kHash, ''hash''), (kOthers, ''op'')]"

definition AppendWithSpace :: "bytes \<Rightarrow> bytes \<Rightarrow> bytes" where
  "AppendWithSpace str msg = (if msg = [] then str else if str \<noteq> [] then str @ [32] @ msg else str @ msg)"

text \<open>\<open>reporter\<close> is indeterminate until \<open>SetReporterAgent\<close>; then it tells whether the pointer is set.\<close>

record Stats =
  s_id :: int
  s_start :: u64
  sine_interval :: u64
  s_finish :: u64
  s_seconds :: real
  s_done :: u64
  last_report_done :: u64
  next_report :: u64
  bytes_total :: u64
  last_op_finish :: u64
  last_report_finish :: u64
  s_hist :: "(OperationType \<times> nat) list"
  s_message :: bytes
  exclude_from_merge :: bool
  s_reporter :: "bool option"
  status_h :: nat

record 'h histogram =
  h_new :: 'h
  h_add :: "u64 \<Rightarrow> 'h \<Rightarrow> 'h"
  h_merge :: "'h \<Rightarrow> 'h \<Rightarrow> 'h"

text \<open>What the threads share: the clock, the histogram objects and the reporter.\<close>

record ('h, 'c) shared =
  clk :: 'c
  cells :: "nat \<Rightarrow> 'h"
  next_cell :: nat
  agent :: ReporterAgent

definition Start :: "'c clock \<Rightarrow> int \<Rightarrow> int \<Rightarrow> Stats \<Rightarrow> 'c \<Rightarrow> Stats \<times> 'c" where
  "Start now stats_interval i S c =
     (let (t1, c) = now c; (t2, c) = now c
      in (S\<lparr>s_id := i, next_report := (if stats_interval \<noteq> 0 then of_int stats_interval else 100),
            last_op_finish := s_start S, s_hist := [], s_done := 0, last_report_done := 0, bytes_total := 0,
            s_seconds := 0, s_start := t1, sine_interval := t2, s_finish := t1, last_report_finish := t1,
            s_message := [], exclude_from_merge := False\<rparr>, c))"

definition SetReporterAgent :: "bool \<Rightarrow> Stats \<Rightarrow> Stats" where
  "SetReporterAgent r S = S\<lparr>s_reporter := Some r\<rparr>"

definition Stop :: "'c clock \<Rightarrow> Stats \<Rightarrow> 'c \<Rightarrow> Stats \<times> 'c" where
  "Stop now S c =
     (let (t, c) = now c in (S\<lparr>s_finish := t, s_seconds := real (unat (t - s_start S)) / 1000000\<rparr>, c))"

definition AddMessage :: "bytes \<Rightarrow> Stats \<Rightarrow> Stats" where
  "AddMessage msg S = S\<lparr>s_message := AppendWithSpace (s_message S) msg\<rparr>"

definition AddBytes :: "int \<Rightarrow> Stats \<Rightarrow> Stats" where
  "AddBytes n S = S\<lparr>bytes_total := bytes_total S + of_int n\<rparr>"

definition ResetSineInterval :: "'c clock \<Rightarrow> Stats \<Rightarrow> 'c \<Rightarrow> Stats \<times> 'c" where
  "ResetSineInterval now S c = (let (t, c) = now c in (S\<lparr>sine_interval := t\<rparr>, c))"

definition ResetLastOpTime :: "'c clock \<Rightarrow> Stats \<Rightarrow> 'c \<Rightarrow> Stats \<times> 'c" where
  "ResetLastOpTime now S c = (let (t, c) = now c in (S\<lparr>last_op_finish := t\<rparr>, c))"

text \<open>
  The histograms of the other object, one by one: merged into the one this object has for the operation,
  or shared with it.
\<close>

fun merge_hists ::
  "'h histogram \<Rightarrow> (OperationType \<times> nat) list \<Rightarrow> (OperationType \<times> nat) list \<Rightarrow> (nat \<Rightarrow> 'h) \<Rightarrow>
   (OperationType \<times> nat) list \<times> (nat \<Rightarrow> 'h)" where
  "merge_hists H [] mine cs = (mine, cs)"
| "merge_hists H ((k, p) # other) mine cs =
     (case map_of mine k of
        Some q \<Rightarrow> merge_hists H other mine (cs(q := h_merge H (cs q) (cs p)))
      | None \<Rightarrow> merge_hists H other (mine @ [(k, p)]) cs)"

definition Merge :: "'h histogram \<Rightarrow> Stats \<Rightarrow> Stats \<Rightarrow> (nat \<Rightarrow> 'h) \<Rightarrow> Stats \<times> (nat \<Rightarrow> 'h)" where
  "Merge H other S cs =
     (if exclude_from_merge other then (S, cs)
      else
        let (h, cs) = merge_hists H (s_hist other) (s_hist S) cs
        in (S\<lparr>s_hist := h,
              s_done := s_done S + s_done other,
              bytes_total := bytes_total S + bytes_total other,
              s_seconds := s_seconds S + s_seconds other,
              s_start := (if s_start other < s_start S then s_start other else s_start S),
              s_finish := (if s_finish S < s_finish other then s_finish other else s_finish S),
              s_message := (if s_message S = [] then s_message other else s_message S)\<rparr>, cs))"

section \<open>Finishing an operation\<close>

record stats_flags =
  fl_histogram :: bool
  fl_stats_interval :: int
  fl_stats_interval_seconds :: int
  fl_progress_reports :: bool

definition record_latency ::
  "'h histogram \<Rightarrow> 'c clock \<Rightarrow> OperationType \<Rightarrow> Stats \<Rightarrow> ('h, 'c) shared \<Rightarrow> Stats \<times> ('h, 'c) shared" where
  "record_latency H now op S E =
     (let (t, c) = now (clk E);
          micros = t - last_op_finish S;
          E = E\<lparr>clk := c\<rparr>;
          (S, E) = (if map_of (s_hist S) op = None
                    then (S\<lparr>s_hist := s_hist S @ [(op, next_cell E)]\<rparr>,
                          E\<lparr>cells := (cells E)(next_cell E := h_new H), next_cell := next_cell E + 1\<rparr>)
                    else (S, E));
          p = the (map_of (s_hist S) op)
      in (S\<lparr>last_op_finish := t\<rparr>, E\<lparr>cells := (cells E)(p := h_add H micros (cells E p))\<rparr>))"

definition next_milestone :: "u64 \<Rightarrow> u64" where
  "next_milestone n =
     (if n < 1000 then n + 100
      else if n < 5000 then n + 500
      else if n < 10000 then n + 1000
      else if n < 50000 then n + 5000
      else if n < 100000 then n + 10000
      else if n < 500000 then n + 50000
      else n + 100000)"

text \<open>
  The status line with its own copy of the stall test of the monitor, whose limits are constants here:
  a memtable of 64 MB and a hard limit of 128 GB.
\<close>

definition print_status :: "('w, 'm) rocksdb \<Rightarrow> 'm option \<Rightarrow> Stats \<Rightarrow> Stats outcome" where
  "print_status rdb dbp S =
     bindO (deref dbp) (\<lambda>db.
     bindO (stoi (get_property rdb ''rocksdb.num-files-at-level0'' db)) (\<lambda>l0_num_tmp.
     bindO (stoull (get_property rdb ''rocksdb.size-all-mem-tables'' db)) (\<lambda>memtable_size.
     bindO (stoull (get_property rdb ''rocksdb.estimate-pending-compaction-bytes'' db)) (\<lambda>pending.
     bindO (stall_imminent l0_num_tmp memtable_size 67108864 pending 137438953472) (\<lambda>high.
       Inr (if high then S\<lparr>status_h := status_h S + 1\<rparr> else S))))))"

definition interval_report ::
  "('w, 'm) rocksdb \<Rightarrow> 'c clock \<Rightarrow> stats_flags \<Rightarrow> 'm option \<Rightarrow> Stats \<Rightarrow> ('h, 'c) shared \<Rightarrow>
   (Stats \<times> ('h, 'c) shared) outcome" where
  "interval_report rdb now F dbp S E =
     (let (t, c) = now (clk E);
          E = E\<lparr>clk := c\<rparr>;
          usecs_since_last = sint (t - last_report_finish S)
      in if fl_stats_interval_seconds F \<noteq> 0 \<and> usecs_since_last < fl_stats_interval_seconds F * 1000000
         then Inr (S\<lparr>next_report := next_report S + of_int (fl_stats_interval F)\<rparr>, E)
         else bindO (print_status rdb dbp S) (\<lambda>S.
                Inr (S\<lparr>next_report := next_report S + of_int (fl_stats_interval F),
                       last_report_finish := t, last_report_done := s_done S\<rparr>, E)))"

definition FinishedOps ::
  "('w, 'm) rocksdb \<Rightarrow> 'h histogram \<Rightarrow> 'c clock \<Rightarrow> stats_flags \<Rightarrow> 'm option \<Rightarrow> int \<Rightarrow> OperationType \<Rightarrow>
   Stats \<Rightarrow> ('h, 'c) shared \<Rightarrow> (Stats \<times> ('h, 'c) shared) outcome" where
  "FinishedOps rdb H now F dbp num_ops op S E =
     bindO (initialised (s_reporter S)) (\<lambda>r.
       let E = (if r then E\<lparr>agent := ReportFinishedOps (of_int num_ops) (agent E)\<rparr> else E);
           (S, E) = (if fl_histogram F then record_latency H now op S E else (S, E));
           S = S\<lparr>s_done := s_done S + of_int num_ops\<rparr>
       in if next_report S \<le> s_done S \<and> fl_progress_reports F
          then if fl_stats_interval F = 0 then Inr (S\<lparr>next_report := next_milestone (next_report S)\<rparr>, E)
               else interval_report rdb now F dbp S E
          else Inr (S, E))"

section \<open>Summary over several runs\<close>

record CombinedStats =
  throughput_ops :: "real list"
  throughput_mbs :: "real list"

definition AddStats :: "Stats \<Rightarrow> CombinedStats \<Rightarrow> CombinedStats outcome" where
  "AddStats stat C =
     (let total_ops = (if s_done stat < 1 then 1 else s_done stat);
          total_bytes = bytes_total stat;
          elapsed = real (unat (s_finish stat - s_start stat)) / 1000000
      in if elapsed = 0 then Inl Not_Finite
         else let C = C\<lparr>throughput_ops := throughput_ops C @ [real (unat total_ops) / elapsed]\<rparr>
              in Inr (if 0 < total_bytes
                      then C\<lparr>throughput_mbs := throughput_mbs C @ [real (unat total_bytes) / 1048576 / elapsed]\<rparr>
                      else C))"

definition CalcAvg :: "real list \<Rightarrow> real outcome" where
  "CalcAvg ds = (if ds = [] then Inl Not_Finite else Inr (foldl (+) 0 ds / real (length ds)))"

definition CalcStdDev :: "real list \<Rightarrow> real \<Rightarrow> real outcome" where
  "CalcStdDev ds average =
     bindO (guardO (1 < length ds) Assert_Failed) (\<lambda>_.
       Inr (sqrt (foldl (\<lambda>acc x. acc + (x - average) ^ 2) 0 ds / real (length ds - 1))))"

definition CalcConfidence95 :: "real list \<Rightarrow> real outcome" where
  "CalcConfidence95 ds =
     bindO (guardO (1 < length ds) Assert_Failed) (\<lambda>_.
     bindO (CalcAvg ds) (\<lambda>avg.
     bindO (CalcStdDev ds avg) (\<lambda>dev.
       Inr (1959964 / 1000000 * (dev / sqrt (real (length ds)))))))"

text \<open>The median and the vector, which the call sorts in place.\<close>

definition CalcMedian :: "real list \<Rightarrow> (real \<times> real list) outcome" where
  "CalcMedian ds =
     bindO (guardO (0 < length ds) Assert_Failed) (\<lambda>_.
       let ds = sort ds; mid = length ds div 2
       in if length ds mod 2 = 1 then Inr (ds ! mid, ds)
          else Inr ((ds ! mid + ds ! (mid - 1)) / 2, ds))"

section \<open>Emulated timestamps\<close>

text \<open>The number a timestamp encodes, and the clock afterwards.\<close>

definition Allocate :: "u64 \<Rightarrow> u64 \<times> u64" where
  "Allocate timestamp = (timestamp, timestamp + 1)"

definition GetTimestampForRead :: "bool \<Rightarrow> ('g \<Rightarrow> u64 \<times> 'g) \<Rightarrow> 'g \<Rightarrow> u64 \<Rightarrow> (u64 \<times> 'g \<times> u64) outcome" where
  "GetTimestampForRead with_latest rnext rand timestamp =
     (if with_latest then let (ts, timestamp) = Allocate timestamp in Inr (ts, rand, timestamp)
      else let (x, rand) = rnext rand
           in if timestamp = 0 then Inl Div_By_Zero else Inr (x mod timestamp, rand, timestamp))"

lemma GetTimestampForRead_first: "GetTimestampForRead False rnext rand 0 = Inl Div_By_Zero"
  by (simp add: GetTimestampForRead_def split_beta)

lemma word_mod_less:
  assumes "0 < (m :: u64)"
  shows "x mod m < m"
proof -
  have "unat x mod unat m < unat m"
    using assms by (intro mod_less_divisor) (simp add: word_less_nat_alt)
  then show ?thesis
    by (simp only: word_less_nat_alt unat_mod)
qed

lemma GetTimestampForRead_past:
  assumes "0 < timestamp"
  shows "\<exists>ts rand'. GetTimestampForRead False rnext rand timestamp = Inr (ts, rand', timestamp) \<and> ts < timestamp"
  using assms word_mod_less [OF assms] by (auto simp: GetTimestampForRead_def split: prod.splits)

section \<open>A run without a time limit is exactly as long as asked\<close>

text \<open>The number of times the body of \<open>while (!duration.Done(k))\<close> runs.\<close>

fun loop_count :: "'c clock \<Rightarrow> int \<Rightarrow> int \<Rightarrow> nat \<Rightarrow> Duration \<Rightarrow> 'c \<Rightarrow> nat outcome" where
  "loop_count now g k 0 D c = Inl Out_Of_Fuel"
| "loop_count now g k (Suc fuel) D c =
     bindO (Done now g k D c) (\<lambda>(b, D, c).
       if b then Inr 0 else bindO (loop_count now g k fuel D c) (\<lambda>n. Inr (Suc n)))"

lemma Done_count:
  assumes "max_seconds D = 0" and "0 < k" and "in_i64 (d_ops D + k)"
  shows "Done now g k D c = Inr (max_ops D < d_ops D + k, D\<lparr>d_ops := d_ops D + k\<rparr>, c)"
  using assms by (simp add: Done_def)

lemma loop_count_from:
  assumes "max_seconds D = 0" and "0 < k" and "0 \<le> d_ops D" and "d_ops D \<le> max_ops D" and "in_i64 (max_ops D + k)"
    and "nat ((max_ops D - d_ops D) div k) < fuel"
  shows "loop_count now g k fuel D c = Inr (nat ((max_ops D - d_ops D) div k))"
  using assms
proof (induction fuel arbitrary: D)
  case (Suc fuel)
  have r: "in_i64 (d_ops D + k)"
    using Suc.prems(2-5) by (auto simp: in_i64_def)
  show ?case
  proof (cases "max_ops D < d_ops D + k")
    case True
    then have "(max_ops D - d_ops D) div k = 0"
      using Suc.prems(2,4) by (simp add: div_pos_pos_trivial)
    then show ?thesis
      using True Suc.prems(1,2) r by (simp add: Done_count)
  next
    case False
    have d: "(max_ops D - d_ops D) div k = (max_ops D - (d_ops D + k)) div k + 1"
      using Suc.prems(2) div_add_self2 [of k "max_ops D - (d_ops D + k)"] by (simp add: algebra_simps)
    have nn: "0 \<le> (max_ops D - (d_ops D + k)) div k"
      using False Suc.prems(2) by (simp add: pos_imp_zdiv_nonneg_iff)
    have "loop_count now g k fuel (D\<lparr>d_ops := d_ops D + k\<rparr>) c = Inr (nat ((max_ops D - (d_ops D + k)) div k))"
      using False Suc.prems d nn by (subst Suc.IH) auto
    then show ?thesis
      using False Suc.prems(1,2) r d nn by (simp add: Done_count nat_add_distrib)
  qed
qed simp

text \<open>
  A benchmark loop without a time limit ends, and its body runs exactly
  \<open>max_ops div k\<close> times when each turn counts \<open>k\<close> operations, whatever the clock does.
\<close>

theorem duration_exact:
  assumes "0 \<le> n" and "0 < k" and "in_i64 (n + k)" and "n < int fuel"
  shows "\<exists>D c'. Duration_new now 0 n per_stage c = (D, c') \<and> loop_count now g k fuel D c' = Inr (nat (n div k))"
proof -
  obtain D c' where D: "Duration_new now 0 n per_stage c = (D, c')" "max_seconds D = 0" "max_ops D = n" "d_ops D = 0"
    by (cases "now c") (simp add: Duration_new_def)
  have "nat (n div k) \<le> nat n"
    using assms(1,2) by (simp add: nat_div_distrib)
  then have "nat (n div k) < fuel"
    using assms(1,4) by linarith
  then show ?thesis
    using D assms(1-3) loop_count_from [of D k fuel now g c'] by auto
qed

theorem duration_exact_witness:
  "\<exists>D c'. Duration_new (\<lambda>c. (c, c + 1)) 0 10 0 0 = (D, c') \<and> loop_count (\<lambda>c. (c, c + 1)) 1000 3 11 D c' = Inr 3"
proof -
  have "in_i64 (10 + 3)"
    by (simp add: in_i64_def)
  from duration_exact [OF _ _ this, of 11 "\<lambda>c. (c, c + 1)" 0 0 1000] show ?thesis
    by simp
qed

section \<open>Merging the threads\<close>

definition merge_all :: "'h histogram \<Rightarrow> Stats list \<Rightarrow> Stats \<Rightarrow> (nat \<Rightarrow> 'h) \<Rightarrow> Stats \<times> (nat \<Rightarrow> 'h)" where
  "merge_all H others S cs = foldl (\<lambda>(S, cs) other. Merge H other S cs) (S, cs) others"

definition included :: "Stats list \<Rightarrow> Stats list" where
  "included others = filter (\<lambda>x. \<not> exclude_from_merge x) others"

lemma merge_all_Cons:
  "merge_all H (x # xs) S cs = (case Merge H x S cs of (S, cs) \<Rightarrow> merge_all H xs S cs)"
  by (simp add: merge_all_def split_beta)

lemma Merge_excluded: "exclude_from_merge x \<Longrightarrow> Merge H x S cs = (S, cs)"
  by (simp add: Merge_def)

lemma Merge_fields:
  assumes "Merge H x S cs = (S', cs')" and "\<not> exclude_from_merge x"
  shows "s_done S' = s_done S + s_done x" and "bytes_total S' = bytes_total S + bytes_total x"
    and "s_seconds S' = s_seconds S + s_seconds x"
    and "s_start S' = min (s_start S) (s_start x)" and "s_finish S' = max (s_finish S) (s_finish x)"
  using assms by (auto simp: Merge_def split_beta min_def max_def)

text \<open>
  Merging the statistics of the threads adds up operations, bytes and seconds of
  exactly the threads that are not excluded, and the merged interval is the smallest one that contains
  the intervals of all of them.
\<close>

theorem merge_all_totals:
  assumes "merge_all H others S cs = (S', cs')"
  shows "s_done S' = s_done S + sum_list (map s_done (included others)) \<and>
    bytes_total S' = bytes_total S + sum_list (map bytes_total (included others)) \<and>
    s_seconds S' = s_seconds S + sum_list (map s_seconds (included others)) \<and>
    s_start S' = Min (insert (s_start S) (s_start ` set (included others))) \<and>
    s_finish S' = Max (insert (s_finish S) (s_finish ` set (included others)))"
  using assms
proof (induction others arbitrary: S cs)
  case Nil
  then show ?case
    by (simp add: merge_all_def included_def)
next
  case (Cons x xs)
  show ?case
  proof (cases "exclude_from_merge x")
    case True
    then show ?thesis
      using Cons by (simp add: merge_all_Cons Merge_excluded included_def)
  next
    case False
    obtain T ds where T: "Merge H x S cs = (T, ds)"
      by fastforce
    have inc: "included (x # xs) = x # included xs"
      using False by (simp add: included_def)
    have step: "Min (insert (min a b) A) = Min (insert a (insert b A))" "Max (insert (max a b) A) = Max (insert a (insert b A))"
      if "finite A" for a b :: u64 and A
      using that by (cases "A = {}"; simp add: min.assoc max.assoc)+
    have "merge_all H xs T ds = (S', cs')"
      using Cons.prems T by (simp add: merge_all_Cons)
    from Cons.IH [OF this] show ?thesis
      by (simp add: inc Merge_fields [OF T False] step add.assoc)
  qed
qed

definition thread_stats :: "u64 \<Rightarrow> u64 \<Rightarrow> u64 \<Rightarrow> bool \<Rightarrow> Stats" where
  "thread_stats s f n excl =
     \<lparr>s_id = 0, s_start = s, sine_interval = s, s_finish = f, s_seconds = 0, s_done = n, last_report_done = 0,
      next_report = 100, bytes_total = 0, last_op_finish = s, last_report_finish = s, s_hist = [], s_message = [],
      exclude_from_merge = excl, s_reporter = Some False, status_h = 0\<rparr>"

theorem merge_all_totals_witness:
  "s_done (fst (merge_all \<lparr>h_new = (), h_add = \<lambda>_ h. h, h_merge = \<lambda>h _. h\<rparr>
      [thread_stats 3 9 10 False, thread_stats 1 2 50 True] (thread_stats 5 6 0 False) (\<lambda>_. ()))) = 10"
proof -
  obtain S' cs' where m: "merge_all \<lparr>h_new = (), h_add = \<lambda>_ h. h, h_merge = \<lambda>h _. h\<rparr>
      [thread_stats 3 9 10 False, thread_stats 1 2 50 True] (thread_stats 5 6 0 False) (\<lambda>_. ()) = (S', cs')"
    by fastforce
  from merge_all_totals [OF this] m show ?thesis
    by (simp add: included_def thread_stats_def)
qed

section \<open>The interval reports account for every operation\<close>

inductive reporter_step :: "u64 \<Rightarrow> ReporterAgent \<Rightarrow> ReporterAgent \<Rightarrow> bool" for time_started where
  finished: "reporter_step time_started A (ReportFinishedOps n A)"
| turn: "report_turn time_started now written A = Some A' \<Longrightarrow> reporter_step time_started A A'"

definition reporter_start :: "ReporterAgent \<Rightarrow> bool" where
  "reporter_start A \<longleftrightarrow> A = \<lparr>total_ops_done = 0, last_report = 0, ra_stop = False, ra_rows = []\<rparr>"

definition accounted :: "ReporterAgent \<Rightarrow> bool" where
  "accounted A \<longleftrightarrow> sum_list (map snd (ra_rows A)) = last_report A"

interpretation reports: inductive_invariant reporter_start "reporter_step t" accounted
proof
  show "reporter_start A \<Longrightarrow> accounted A" for A
    by (simp add: reporter_start_def accounted_def)
  show "accounted A \<Longrightarrow> reporter_step t A B \<Longrightarrow> accounted B" for A B
    by (auto simp: accounted_def report_turn_def ReportFinishedOps_def Let_def elim!: reporter_step.cases
        split: if_splits)
qed



section \<open>The median\<close>

lemma filter_le_take:
  assumes "sorted (xs :: real list)" and "i < length xs" and "xs ! i \<le> m"
  shows "Suc i \<le> length (filter (\<lambda>x. x \<le> m) xs)"
proof -
  have "xs ! j \<le> m" if "j \<le> i" for j
    using sorted_nth_mono [OF assms(1) that] assms(2,3) by simp
  then have "\<forall>x\<in>set (take (Suc i) xs). x \<le> m"
    by (auto simp: in_set_conv_nth less_Suc_eq_le)
  then have "filter (\<lambda>x. x \<le> m) (take (Suc i) xs) = take (Suc i) xs"
    by (simp add: filter_id_conv)
  then have "length (filter (\<lambda>x. x \<le> m) (take (Suc i) xs @ drop (Suc i) xs)) \<ge> Suc i"
    using assms(2) by (simp del: append_take_drop_id)
  then show ?thesis
    by simp
qed

lemma filter_ge_drop:
  assumes "sorted (xs :: real list)" and "i < length xs" and "m \<le> xs ! i"
  shows "length xs - i \<le> length (filter (\<lambda>x. m \<le> x) xs)"
proof -
  have "m \<le> xs ! (i + j)" if "i + j < length xs" for j
    using sorted_nth_mono [OF assms(1), of i "i + j"] that assms(3) by simp
  then have "\<forall>x\<in>set (drop i xs). m \<le> x"
    by (auto simp: in_set_conv_nth)
  then have "filter (\<lambda>x. m \<le> x) (drop i xs) = drop i xs"
    by (simp add: filter_id_conv)
  then have "length (filter (\<lambda>x. m \<le> x) (take i xs @ drop i xs)) \<ge> length xs - i"
    by (simp del: append_take_drop_id)
  then show ?thesis
    by simp
qed

lemma length_filter_sort: "length (filter P (sort ds)) = length (filter P ds)"
  by (metis filter_sort length_sort)

text \<open>
  \<open>CalcMedian\<close> leaves the samples sorted and gives a value that at least half of
  them do not exceed and at least half of them reach.
\<close>

theorem CalcMedian_halves:
  assumes "ds \<noteq> []"
  shows "\<exists>m ds'. CalcMedian ds = Inr (m, ds') \<and> mset ds' = mset ds \<and> sorted ds' \<and>
    length ds \<le> 2 * length (filter (\<lambda>x. x \<le> m) ds) \<and> length ds \<le> 2 * length (filter (\<lambda>x. m \<le> x) ds)"
proof -
  let ?s = "sort ds" and ?mid = "length ds div 2"
  define i where "i = (if length ds mod 2 = 1 then ?mid else ?mid - 1)"
  define m where "m = (if length ds mod 2 = 1 then ?s ! ?mid else (?s ! ?mid + ?s ! (?mid - 1)) / 2)"
  have mid: "?mid < length ds"
    using assms by (simp add: length_greater_0_conv [symmetric] del: length_greater_0_conv)
  have le: "?s ! (?mid - 1) \<le> ?s ! ?mid"
    using mid by (intro sorted_nth_mono) simp_all
  have "?s ! i \<le> m" "m \<le> ?s ! ?mid"
    using le by (auto simp: i_def m_def)
  then have "Suc i \<le> length (filter (\<lambda>x. x \<le> m) ds)" "length ds - ?mid \<le> length (filter (\<lambda>x. m \<le> x) ds)"
    using filter_le_take [of ?s i m] filter_ge_drop [of ?s ?mid m] mid
    by (auto simp: length_filter_sort i_def split: if_splits)
  moreover have "length ds \<le> 2 * Suc i" "length ds \<le> 2 * (length ds - ?mid)"
    using mid by (auto simp: i_def)
  moreover have "CalcMedian ds = Inr (m, ?s)"
    using assms by (simp add: CalcMedian_def m_def Let_def)
  ultimately show ?thesis
    by (intro exI [of _ m] exI [of _ ?s]) auto
qed

theorem CalcMedian_halves_witness:
  "\<exists>m ds'. CalcMedian [3, 1, 2, 10] = Inr (m, ds') \<and> sorted ds'"
  using CalcMedian_halves [of "[3, 1, 2, 10]"] by blast

end
