(* ===== verification/Bench_Mix.thy ===== *)
theory Bench_Mix
  imports Complex_Main Bench_Keys
begin

text \<open>
  The mixed workload of the benchmark (\<open>db_bench_tool.cc\<close>): which kind of query comes next
  (\<open>QueryDecider\<close>), which key it takes when keys are hot or cold by range
  (\<open>GenerateTwoTermExpKeys\<close>), and the random numbers behind both.  A \<open>double\<close> is a real number; a
  computation whose floating-point result would not be finite is the fault \<open>Not_Finite\<close>.
\<close>

section \<open>Conversions and distributions\<close>

definition to_i64 :: "real \<Rightarrow> int outcome" where
  "to_i64 x = i64 (if x < 0 then \<lceil>x\<rceil> else \<lfloor>x\<rfloor>)"

text \<open>\<open>std::pow\<close>, which is infinite at 0 for a negative exponent and not a number for a negative base
  unless the exponent is integral.\<close>

definition c_pow :: "real \<Rightarrow> real \<Rightarrow> real outcome" where
  "c_pow x y =
     (if 0 < x then Inr (x powr y)
      else if x = 0 then (if 0 < y then Inr 0 else if y = 0 then Inr 1 else Inl Not_Finite)
      else if real_of_int \<lfloor>y\<rfloor> = y then Inr (x powi \<lfloor>y\<rfloor>) else Inl Not_Finite)"

definition ParetoCdfInversion :: "real \<Rightarrow> real \<Rightarrow> real \<Rightarrow> real \<Rightarrow> int outcome" where
  "ParetoCdfInversion u theta k sigma =
     (if k = 0 then if 0 < u then to_i64 \<lceil>theta - sigma * ln u\<rceil> else Inl Not_Finite
      else bindO (c_pow u (- 1 * k)) (\<lambda>p. to_i64 \<lceil>theta + sigma * (p - 1) / k\<rceil>))"

definition PowerCdfInversion :: "real \<Rightarrow> real \<Rightarrow> real \<Rightarrow> int outcome" where
  "PowerCdfInversion u a b =
     (if a = 0 \<or> b = 0 then Inl Not_Finite else bindO (c_pow (u / a) (1 / b)) (\<lambda>ret. to_i64 \<lceil>ret\<rceil>))"

text \<open>\<open>rand() % band - band / 2\<close> is an \<open>int\<close>; \<open>r\<close> is what \<open>rand\<close> gave, and \<open>sine_a\<close> a flag.\<close>

definition AddNoise :: "real \<Rightarrow> int \<Rightarrow> real \<Rightarrow> real \<Rightarrow> real outcome" where
  "AddNoise sine_a r origin noise_ratio =
     (if noise_ratio < 0 \<or> 1 < noise_ratio then Inr origin
      else bindO (to_i64 sine_a) (\<lambda>band_int.
        if \<not> int_range band_int then Inl Signed_Overflow
        else if band_int = 0 then Inl Div_By_Zero
        else let delta = real_of_int (r smod band_int - band_int sdiv 2) * noise_ratio
             in Inr (if origin + delta < 0 then origin else origin + delta)))"

definition SineRate :: "real \<Rightarrow> real \<Rightarrow> real \<Rightarrow> real \<Rightarrow> real \<Rightarrow> real" where
  "SineRate sine_a sine_b sine_c sine_d x = sine_a * sin (sine_b * x + sine_c) + sine_d"

definition GetRandomKey :: "'g random64 \<Rightarrow> real \<Rightarrow> int \<Rightarrow> 'g \<Rightarrow> (int \<times> 'g) outcome" where
  "GetRandomKey R read_random_exp_range num rand =
     (let (rand_int, rand) = r64_next R rand
      in if (of_int num :: u64) = 0 then Inl Div_By_Zero
         else if read_random_exp_range = 0 then Inr (sint (rand_int mod of_int num), rand)
         else let order = - real (unat (rand_int mod 4611686018427387904)) / 4611686018427387904 * read_random_exp_range
              in bindO (to_i64 (exp order * real_of_int num)) (\<lambda>n.
                   let rand_num = of_int n :: u64
                   in Inr (sint ((rand_num * 0x5bd1e995) mod of_int num), rand)))"

section \<open>The kind of the next query\<close>

record QueryDecider =
  qd_type :: "int list"
  qd_ratio :: "real list"
  qd_range :: int

fun initiate_loop :: "real \<Rightarrow> real list \<Rightarrow> QueryDecider \<Rightarrow> QueryDecider outcome" where
  "initiate_loop tot [] Q = Inr Q"
| "initiate_loop tot (ratio # ratios) Q =
     (let share = \<lceil>1000 * (ratio / tot)\<rceil>
      in bindO (guardO (int_range share) Signed_Overflow) (\<lambda>_.
         bindO (int_add (qd_range Q) share) (\<lambda>rng.
           initiate_loop tot ratios
             (Q\<lparr>qd_range := rng, qd_type := qd_type Q @ [rng], qd_ratio := qd_ratio Q @ [ratio / tot]\<rparr>))))"

definition Initiate :: "real list \<Rightarrow> QueryDecider \<Rightarrow> QueryDecider outcome" where
  "Initiate ratio_input Q =
     (let tot = sum_list ratio_input
      in if ratio_input \<noteq> [] \<and> tot = 0 then Inl Not_Finite
         else initiate_loop tot ratio_input (Q\<lparr>qd_range := 0\<rparr>))"

fun first_above :: "int \<Rightarrow> nat \<Rightarrow> int list \<Rightarrow> nat" where
  "first_above p i [] = 0"
| "first_above p i (t # ts) = (if p < t then i else first_above p (Suc i) ts)"

definition GetType :: "QueryDecider \<Rightarrow> int \<Rightarrow> nat outcome" where
  "GetType Q rand_num =
     bindO (if rand_num < 0 then i64 (rand_num * (- 1)) else Inr rand_num) (\<lambda>rand_num.
     bindO (guardO (qd_range Q \<noteq> 0) Assert_Failed) (\<lambda>_.
       Inr (first_above (rand_num smod qd_range Q) 0 (qd_type Q))))"

section \<open>Hot and cold key ranges\<close>

record KeyrangeUnit =
  keyrange_start :: int
  keyrange_access :: int
  keyrange_keys :: int

record GenerateTwoTermExpKeys =
  keyrange_rand_max :: int
  keyrange_size :: int
  keyrange_num :: int
  keyrange_set :: "KeyrangeUnit list"

text \<open>
  The units of the prefixes \<open>n\<close> down to 1, and the start after the last; \<open>amplify\<close> is set by the first
  prefix with a positive probability.
\<close>

fun exp_units ::
  "(nat \<Rightarrow> real) \<Rightarrow> int \<Rightarrow> nat \<Rightarrow> int \<Rightarrow> int \<Rightarrow> (KeyrangeUnit list \<times> int) outcome" where
  "exp_units prob ksize 0 amplify start = Inr ([], start)"
| "exp_units prob ksize (Suc n) amplify start =
     (let keyrange_p = prob (Suc n);
          keyrange_p = (if keyrange_p < 1 / 10 ^ 16 then 0 else keyrange_p)
      in bindO (if amplify = 0 \<and> 0 < keyrange_p
                then bindO (to_i64 (real_of_int \<lfloor>1 / keyrange_p\<rfloor>)) (\<lambda>a. i64 (a + 1)) else Inr amplify) (\<lambda>amplify.
         bindO (if keyrange_p \<le> 0 then Inr 0 else to_i64 (real_of_int \<lfloor>real_of_int amplify * keyrange_p\<rfloor>)) (\<lambda>access.
         bindO (i64 (start + access)) (\<lambda>start'.
         bindO (exp_units prob ksize n amplify start') (\<lambda>(us, e).
           Inr (\<lparr>keyrange_start = start, keyrange_access = access, keyrange_keys = ksize\<rparr> # us, e))))))"

definition two_term_exp :: "real \<Rightarrow> real \<Rightarrow> real \<Rightarrow> real \<Rightarrow> nat \<Rightarrow> real" where
  "two_term_exp a b c d pfx = a * exp (b * real pfx) + c * exp (d * real pfx)"

fun swap_loop ::
  "'g random64 \<Rightarrow> int \<Rightarrow> nat list \<Rightarrow> 'g \<Rightarrow> KeyrangeUnit list \<Rightarrow> KeyrangeUnit list outcome" where
  "swap_loop R num [] rand us = Inr us"
| "swap_loop R num (i # js) rand us =
     (let (x, rand) = r64_next R rand;
          p = unat (x mod of_int num)
      in bindO (guardO (i < length us \<and> p < length us) Assert_Failed) (\<lambda>_.
           swap_loop R num js rand (us[i := us ! p, p := us ! i])))"

fun restart :: "int \<Rightarrow> KeyrangeUnit list \<Rightarrow> KeyrangeUnit list" where
  "restart offset [] = []"
| "restart offset (u # us) = u\<lparr>keyrange_start := offset\<rparr> # restart (offset + keyrange_access u) us"

definition InitiateExpDistribution ::
  "'g random64 \<Rightarrow> int \<Rightarrow> int \<Rightarrow> real \<Rightarrow> real \<Rightarrow> real \<Rightarrow> real \<Rightarrow> GenerateTwoTermExpKeys outcome" where
  "InitiateExpDistribution R fl_keyrange_num total_keys a b c d =
     (let num = (if fl_keyrange_num \<le> 0 then 1 else fl_keyrange_num);
          ksize = total_keys sdiv num
      in bindO (exp_units (two_term_exp a b c d) ksize (nat num) 0 0) (\<lambda>(us, rand_max).
         bindO (swap_loop R fl_keyrange_num [0..<nat fl_keyrange_num] (r64_seed R (of_int rand_max)) us) (\<lambda>us.
           Inr \<lparr>keyrange_rand_max = rand_max, keyrange_size = ksize, keyrange_num = num,
                keyrange_set = restart 0 us\<rparr>)))"

function range_search :: "KeyrangeUnit list \<Rightarrow> int \<Rightarrow> nat \<Rightarrow> nat \<Rightarrow> nat outcome" where
  "range_search us r start e =
     (if start + 1 < e
      then let mid = start + (e - start) div 2
           in bindO (guardO (mid < length us) Assert_Failed) (\<lambda>_.
                if r < keyrange_start (us ! mid) then range_search us r start mid
                else range_search us r mid e)
      else Inr start)"
  by pat_completeness auto
termination
  by (relation "measure (\<lambda>(us, r, start, e). e - start)") auto

declare range_search.simps [simp del]

definition DistGetKeyID :: "'g random64 \<Rightarrow> GenerateTwoTermExpKeys \<Rightarrow> int \<Rightarrow> real \<Rightarrow> real \<Rightarrow> int outcome" where
  "DistGetKeyID R G ini_rand key_dist_a key_dist_b =
     (if keyrange_rand_max G = 0 then Inl Div_By_Zero
      else bindO (range_search (keyrange_set G) (ini_rand smod keyrange_rand_max G) 0 (length (keyrange_set G)))
        (\<lambda>keyrange_id.
        bindO
          (if keyrange_size G = 0 then Inl Div_By_Zero
           else if key_dist_a = 0 \<or> key_dist_b = 0 then Inr (ini_rand smod keyrange_size G)
           else let u = real_of_int (ini_rand smod keyrange_size G) / real_of_int (keyrange_size G)
                in bindO (c_pow (u / key_dist_a) (1 / key_dist_b)) (\<lambda>x.
                   bindO (to_i64 \<lceil>x\<rceil>) (\<lambda>key_seed.
                     Inr (sint (fst (r64_next R (r64_seed R (of_int key_seed))) mod of_int (keyrange_size G))))))
          (\<lambda>key_offset. i64 (keyrange_size G * int keyrange_id + key_offset))))"

lemma smod_pos: "0 \<le> x \<Longrightarrow> 0 < m \<Longrightarrow> x smod (m :: int) = x mod m"
  by (cases "x = 0") (simp_all add: signed_modulo_int_def)

lemma sdiv_pos: "0 \<le> x \<Longrightarrow> 0 < m \<Longrightarrow> x sdiv (m :: int) = x div m"
  by (cases "x = 0") (simp_all add: signed_divide_int_def)

section \<open>Shares of the query kinds\<close>

definition share :: "real list \<Rightarrow> real \<Rightarrow> int" where
  "share ratios r = \<lceil>1000 * (r / sum_list ratios)\<rceil>"

text \<open>Running sums from an offset.\<close>

fun run_sums :: "int \<Rightarrow> int list \<Rightarrow> int list" where
  "run_sums off [] = []"
| "run_sums off (c # cs) = (off + c) # run_sums (off + c) cs"

lemma length_run_sums [simp]: "length (run_sums off cs) = length cs"
  by (induction cs arbitrary: off) auto

lemma initiate_loop_sums:
  assumes "initiate_loop tot ratios Q = Inr Q'"
  shows "qd_type Q' = qd_type Q @ run_sums (qd_range Q) (map (\<lambda>r. \<lceil>1000 * (r / tot)\<rceil>) ratios) \<and>
    qd_range Q' = qd_range Q + sum_list (map (\<lambda>r. \<lceil>1000 * (r / tot)\<rceil>) ratios)"
  using assms
proof (induction ratios arbitrary: Q)
  case (Cons r ratios)
  then obtain rng where "int_add (qd_range Q) \<lceil>1000 * (r / tot)\<rceil> = Inr rng"
    "initiate_loop tot ratios (Q\<lparr>qd_range := rng, qd_type := qd_type Q @ [rng], qd_ratio := qd_ratio Q @ [r / tot]\<rparr>) = Inr Q'"
    by (auto simp: bindO_eq_Inr Let_def)
  then show ?case
    using Cons.IH by (fastforce simp: int_add_def split: if_splits)
qed simp

lemma first_above_interval:
  assumes "off \<le> p" and "p < off + sum_list cs"
  shows "\<exists>j<length cs. first_above p i (run_sums off cs) = i + j \<and>
    off + sum_list (take j cs) \<le> p \<and> p < off + sum_list (take (Suc j) cs)"
  using assms
proof (induction cs arbitrary: off i)
  case (Cons c cs)
  show ?case
  proof (cases "p < off + c")
    case True
    then show ?thesis
      using Cons.prems(1) by (intro exI [of _ 0]) simp
  next
    case False
    then obtain j where "j < length cs" "first_above p (Suc i) (run_sums (off + c) cs) = Suc i + j"
      "off + c + sum_list (take j cs) \<le> p" "p < off + c + sum_list (take (Suc j) cs)"
      using Cons.IH [of "off + c" "Suc i"] Cons.prems(2) by auto
    then show ?thesis
      using False by (intro exI [of _ "Suc j"]) (simp add: add.assoc)
  qed
qed simp

lemma sum_take_mono:
  assumes "\<forall>c\<in>set cs. 0 \<le> (c :: int)" and "j \<le> k"
  shows "sum_list (take j cs) \<le> sum_list (take k cs)"
proof -
  have "take k cs = take j cs @ take (k - j) (drop j cs)"
    using assms(2) by (metis le_add_diff_inverse take_add)
  moreover have "0 \<le> sum_list (take (k - j) (drop j cs))"
    using assms(1) by (intro sum_list_nonneg) (auto dest: in_set_takeD in_set_dropD)
  ultimately show ?thesis
    by simp
qed

lemma first_above_iff:
  assumes "\<forall>c\<in>set cs. 0 \<le> c" and "0 \<le> p" and "p < sum_list cs" and "j < length cs"
  shows "first_above p 0 (run_sums 0 cs) = j \<longleftrightarrow> sum_list (take j cs) \<le> p \<and> p < sum_list (take (Suc j) cs)"
proof -
  obtain k where k: "k < length cs" "first_above p 0 (run_sums 0 cs) = k" "sum_list (take k cs) \<le> p"
    "p < sum_list (take (Suc k) cs)"
    using first_above_interval [of 0 p cs 0] assms(2,3) by auto
  have "k = j" if "sum_list (take j cs) \<le> p" "p < sum_list (take (Suc j) cs)"
  proof (rule ccontr)
    assume "k \<noteq> j"
    then have "Suc k \<le> j \<or> Suc j \<le> k"
      by linarith
    then show False
      using sum_take_mono [OF assms(1), of "Suc k" j] sum_take_mono [OF assms(1), of "Suc j" k] that k by linarith
  qed
  then show ?thesis
    using k by auto
qed

definition decider :: QueryDecider where
  "decider = \<lparr>qd_type = [], qd_ratio = [], qd_range = 0\<rparr>"

text \<open>
  The kinds of query are drawn in the configured proportion: of the \<open>range_\<close>
  residues a random number can have, exactly \<open>ceil (1000 * ratio / sum)\<close> select a given kind.
\<close>

theorem QueryDecider_shares:
  assumes "\<forall>r\<in>set ratios. 0 \<le> r" and "0 < sum_list ratios" and "Initiate ratios decider = Inr Q"
    and "j < length ratios"
  shows "card {p. 0 \<le> p \<and> p < qd_range Q \<and> GetType Q p = Inr j} = nat \<lceil>1000 * (ratios ! j / sum_list ratios)\<rceil>"
proof -
  let ?cs = "map (share ratios) ratios"
  have nn: "\<forall>c\<in>set ?cs. 0 \<le> c"
  proof -
    have "0 \<le> 1000 * (r / sum_list ratios)" if "r \<in> set ratios" for r
      using that assms(1,2) by simp
    then have "- 1 < 1000 * (r / sum_list ratios)" if "r \<in> set ratios" for r
      using that order.strict_trans2 [of "- 1 :: real" 0] by fastforce
    then show ?thesis
      by (simp add: share_def zero_le_ceiling)
  qed
  have "initiate_loop (sum_list ratios) ratios decider = Inr Q"
    using assms(2,3) by (auto simp: Initiate_def decider_def Let_def split: if_splits)
  then have Q: "qd_type Q = run_sums 0 ?cs" "qd_range Q = sum_list ?cs"
    using initiate_loop_sums [of "sum_list ratios" ratios decider Q]
    unfolding share_def [abs_def] by (simp_all add: decider_def)
  have t: "0 \<le> sum_list (take j ?cs)" "sum_list (take (Suc j) ?cs) \<le> sum_list ?cs"
    using sum_take_mono [OF nn, of 0 j] sum_take_mono [OF nn, of "Suc j" "length ?cs"] assms(4) by auto
  have "GetType Q p = Inr j \<longleftrightarrow> sum_list (take j ?cs) \<le> p \<and> p < sum_list (take (Suc j) ?cs)"
    if "0 \<le> p" "p < qd_range Q" for p
  proof -
    have "GetType Q p = Inr (first_above p 0 (run_sums 0 ?cs))"
      using that Q by (simp add: GetType_def smod_pos)
    then show ?thesis
      using first_above_iff [OF nn that(1), of j] that(2) Q(2) assms(4) by simp
  qed
  then have "{p. 0 \<le> p \<and> p < qd_range Q \<and> GetType Q p = Inr j} =
      {sum_list (take j ?cs)..<sum_list (take (Suc j) ?cs)}"
    using t Q(2) by auto
  moreover have "sum_list (take (Suc j) ?cs) = sum_list (take j ?cs) + share ratios (ratios ! j)"
    using assms(4) by (simp add: take_Suc_conv_app_nth)
  ultimately show ?thesis
    by (simp add: share_def)
qed

theorem QueryDecider_shares_witness:
  "\<exists>Q. Initiate [1, 3] decider = Inr Q \<and> card {p. 0 \<le> p \<and> p < qd_range Q \<and> GetType Q p = Inr 1} = 750"
proof -
  obtain Q where Q: "Initiate [1, 3] decider = Inr Q"
    by (simp add: Initiate_def decider_def int_range_def int_add_def Let_def)
  from QueryDecider_shares [OF _ _ this, of 1] Q show ?thesis
    by simp
qed

section \<open>The key range of a random number\<close>

text \<open>Units that follow one another from an offset.\<close>

fun chained :: "int \<Rightarrow> KeyrangeUnit list \<Rightarrow> bool" where
  "chained off [] \<longleftrightarrow> True"
| "chained off (u # us) \<longleftrightarrow> keyrange_start u = off \<and> 0 \<le> keyrange_access u \<and> chained (off + keyrange_access u) us"

abbreviation accesses :: "KeyrangeUnit list \<Rightarrow> int" where
  "accesses us \<equiv> sum_list (map keyrange_access us)"

lemma chained_start:
  "chained off us \<Longrightarrow> i < length us \<Longrightarrow> keyrange_start (us ! i) = off + accesses (take i us)"
proof (induction us arbitrary: off i)
  case (Cons u us)
  then show ?case
    by (cases i) (auto simp: add.assoc)
qed simp

lemma chained_next:
  assumes "chained off us" and "i < length us"
  shows "off + accesses (take (Suc i) us) = keyrange_start (us ! i) + keyrange_access (us ! i)"
  using assms by (simp add: chained_start take_Suc_conv_app_nth)

lemma range_search_finds:
  assumes "chained 0 us" and "start < e" and "e \<le> length us" and "keyrange_start (us ! start) \<le> r"
    and "r < accesses (take e us)"
  shows "\<exists>i<length us. range_search us r start e = Inr i \<and>
    keyrange_start (us ! i) \<le> r \<and> r < keyrange_start (us ! i) + keyrange_access (us ! i)"
  using assms
proof (induction us r start e rule: range_search.induct)
  case (1 us r start e)
  let ?mid = "start + (e - start) div 2"
  show ?case
  proof (cases "start + 1 < e")
    case True
    then have mid: "start < ?mid" "?mid < e" "?mid < length us"
      using "1.prems"(3) by auto
    have acc: "keyrange_start (us ! ?mid) = accesses (take ?mid us)"
      using chained_start [OF "1.prems"(1) mid(3)] by simp
    show ?thesis
    proof (cases "r < keyrange_start (us ! ?mid)")
      case less: True
      have "\<exists>i<length us. range_search us r start ?mid = Inr i \<and>
          keyrange_start (us ! i) \<le> r \<and> r < keyrange_start (us ! i) + keyrange_access (us ! i)"
        using "1.IH"(1) [OF True refl _ less] mid "1.prems" less acc by auto
      then show ?thesis
        using True less mid by (simp add: range_search.simps [of us r start e] Let_def)
    next
      case ge: False
      have "\<exists>i<length us. range_search us r ?mid e = Inr i \<and>
          keyrange_start (us ! i) \<le> r \<and> r < keyrange_start (us ! i) + keyrange_access (us ! i)"
        using "1.IH"(2) [OF True refl _ ge] mid "1.prems" ge by auto
      then show ?thesis
        using True ge mid by (simp add: range_search.simps [of us r start e] Let_def)
    qed
  next
    case False
    then have e: "e = Suc start"
      using "1.prems"(2) by simp
    then have "start < length us" "r < keyrange_start (us ! start) + keyrange_access (us ! start)"
      using "1.prems" chained_next [OF "1.prems"(1), of start] by auto
    then show ?thesis
      using False "1.prems"(4) by (simp add: range_search.simps [of us r start e])
  qed
qed

lemma length_restart [simp]: "length (restart off us) = length us"
  by (induction us arbitrary: off) auto

lemma accesses_restart [simp]: "accesses (restart off us) = accesses us"
  by (induction us arbitrary: off) auto

lemma chained_restart: "\<forall>u\<in>set us. 0 \<le> keyrange_access u \<Longrightarrow> chained off (restart off us)"
  by (induction us arbitrary: off) auto

lemma mset_swap_units:
  "i < length us \<Longrightarrow> p < length us \<Longrightarrow> mset (us[i := us ! p, p := us ! i]) = mset us"
  by (rule mset_swap)

lemma swap_loop_mset: "swap_loop R num js rand us = Inr us' \<Longrightarrow> mset us' = mset us"
proof (induction js arbitrary: rand us)
  case (Cons i js)
  then show ?case
    by (auto simp: bindO_eq_Inr mset_swap_units Let_def split: prod.splits)
qed simp

lemma to_i64_of_int [simp]: "to_i64 (real_of_int k) = i64 k"
  by (simp add: to_i64_def)

lemma exp_units_shape:
  assumes "exp_units prob ksize n amplify start = Inr (us, e)" and "0 \<le> amplify"
  shows "length us = n \<and> e = start + accesses us \<and> (\<forall>u\<in>set us. 0 \<le> keyrange_access u)"
  using assms
proof (induction n arbitrary: amplify start us)
  case (Suc n)
  define kp where "kp = (if prob (Suc n) < 1 / 10 ^ 16 then 0 else prob (Suc n))"
  obtain amp access us' where
    amp: "(if amplify = 0 \<and> 0 < kp then bindO (to_i64 (real_of_int \<lfloor>1 / kp\<rfloor>)) (\<lambda>a. i64 (a + 1)) else Inr amplify) = Inr amp"
    and access: "(if kp \<le> 0 then Inr 0 else to_i64 (real_of_int \<lfloor>real_of_int amp * kp\<rfloor>)) = Inr access"
    and rest: "exp_units prob ksize n amp (start + access) = Inr (us', e)"
    and us: "us = \<lparr>keyrange_start = start, keyrange_access = access, keyrange_keys = ksize\<rparr> # us'"
    using Suc.prems(1) unfolding exp_units.simps Let_def kp_def [symmetric]
    by (auto simp: bindO_eq_Inr i64_eq_Inr)
  have "0 \<le> amp"
    using amp Suc.prems(2) by (auto simp: bindO_eq_Inr i64_eq_Inr split: if_splits)
  moreover from this have "0 \<le> access"
    using access by (auto simp: i64_eq_Inr split: if_splits)
  ultimately show ?case
    using Suc.IH [OF rest] us by auto
qed simp

lemma InitiateExpDistribution_shape:
  assumes "InitiateExpDistribution R n total_keys a b c d = Inr G"
  shows "chained 0 (keyrange_set G)" and "accesses (keyrange_set G) = keyrange_rand_max G"
    and "length (keyrange_set G) = nat (keyrange_num G)" and "0 < keyrange_num G"
    and "keyrange_size G = total_keys sdiv keyrange_num G"
proof -
  define num where "num = (if n \<le> 0 then 1 else n)"
  obtain us e us' where us: "exp_units (two_term_exp a b c d) (total_keys sdiv num) (nat num) 0 0 = Inr (us, e)"
    "swap_loop R n [0..<nat n] (r64_seed R (of_int e)) us = Inr us'"
    and G: "G = \<lparr>keyrange_rand_max = e, keyrange_size = total_keys sdiv num, keyrange_num = num,
      keyrange_set = restart 0 us'\<rparr>"
    using assms by (auto simp: InitiateExpDistribution_def num_def [symmetric] bindO_eq_Inr Let_def)
  note m = swap_loop_mset [OF us(2)]
  have sh: "length us = nat num" "e = accesses us" "\<forall>u\<in>set us. 0 \<le> keyrange_access u"
    using exp_units_shape [OF us(1)] by auto
  have acc: "accesses us' = accesses us"
    using m by (metis mset_map sum_mset_sum_list)
  show "chained 0 (keyrange_set G)"
    using sh(3) mset_eq_setD [OF m] by (simp add: G chained_restart)
  show "accesses (keyrange_set G) = keyrange_rand_max G"
    using acc sh(2) by (simp add: G)
  show "length (keyrange_set G) = nat (keyrange_num G)"
    using mset_eq_length [OF m] sh(1) by (simp add: G)
  show "0 < keyrange_num G" "keyrange_size G = total_keys sdiv keyrange_num G"
    by (simp_all add: G num_def)
qed


definition const_random :: "unit random64" where
  "const_random = \<lparr>r64_seed = \<lambda>_. (), r64_next = \<lambda>_. (1, ())\<rparr>"

lemma InitiateExpDistribution_example:
  "InitiateExpDistribution const_random 2 10 1 0 0 0 =
     Inr \<lparr>keyrange_rand_max = 4, keyrange_size = 5, keyrange_num = 2,
          keyrange_set = [\<lparr>keyrange_start = 0, keyrange_access = 2, keyrange_keys = 5\<rparr>,
                          \<lparr>keyrange_start = 2, keyrange_access = 2, keyrange_keys = 5\<rparr>]\<rparr>"
  by (simp add: InitiateExpDistribution_def two_term_exp_def const_random_def numeral_2_eq_2 in_i64_def sdiv_pos
      upt_conv_Cons to_i64_def)


end
