(* ===== verification/Bench_Write.thy ===== *)
theory Bench_Write
  imports Bench_Db Bench_Values Bench_Stats Bench_Mix
begin

text \<open>
  The write benchmarks, \<open>DoWrite\<close> of \<open>db_bench_tool.cc\<close>: its set-up, the choice of each key, the write
  itself, the range deletions and the end of a batch.  The libraries it calls are fields of a record;
  the random engines, which the source seeds separately, are separate states of one type.  Counters of
  bytes and operations that would need 2^63 steps to overflow are unbounded integers.
\<close>

section \<open>Libraries, configuration and state\<close>

text \<open>What a write batch collects; \<open>None\<close> is the default column family.\<close>

datatype 'h batch_op =
    BPut "'h option" bytes bytes
  | BDelete "'h option option" bytes
  | BDeleteRange "'h option option" bytes bytes

record ('g, 'h, 'm, 'c, 'q, 'w) wlib =
  l_rdb :: "('w, 'm) rocksdb"
  l_murmur :: murmur
  l_os :: "'w os"
  l_random :: "'g random64"
  l_shuffle :: "u32 \<Rightarrow> u64 list \<Rightarrow> u64 list"
  l_decide :: "real \<Rightarrow> 'g \<Rightarrow> bool \<times> 'g"
  l_string :: "int \<Rightarrow> 'g \<Rightarrow> bytes \<times> 'g"
  l_sampler :: "'g sampler"
  l_now :: "'c clock"
  l_rand :: "'c \<Rightarrow> int \<times> 'c"
  l_blob_put :: "int option \<Rightarrow> bytes \<Rightarrow> bytes \<Rightarrow> 'm \<Rightarrow> Status \<times> 'm"
  l_delete :: "bytes \<Rightarrow> 'm \<Rightarrow> Status \<times> 'm"
  l_delete_range :: "bytes \<Rightarrow> bytes \<Rightarrow> 'm \<Rightarrow> Status \<times> 'm"
  l_create :: "bytes \<Rightarrow> 'm \<Rightarrow> (Status \<times> 'h option) \<times> 'm"
  l_update_ts :: "u64 \<Rightarrow> 'h batch_op list \<Rightarrow> Status"
  l_hist :: "'q histogram"
  l_recovers :: "'c \<Rightarrow> bool \<times> 'c"

record write_cfg =
  wc_mode :: WriteMode
  wc_keys :: key_cfg
  wc_num :: int
  wc_flags_num :: int
  wc_writes :: int
  wc_entries_per_batch :: int
  wc_timestamp_size :: int
  wc_overwrite_probability :: real
  wc_overwrite_window :: u32
  wc_disp_batch :: u64
  wc_pers_batch :: u64
  wc_delete_delay :: u64
  wc_disp_value_size :: int
  wc_pers_value_size :: int
  wc_use_blob_db :: bool
  wc_blob_ttl_range :: int
  wc_num_cf :: int
  wc_num_hot_cf :: int
  wc_before_delete_range :: int
  wc_writes_per_tombstone :: int
  wc_max_tombstones :: int
  wc_tombstone_width :: int
  wc_expand_tombstones :: bool
  wc_duration :: int
  wc_granularity :: int
  wc_sine_write_rate :: bool
  wc_sine_interval_ms :: u64
  wc_sine :: "real \<times> real \<times> real \<times> real"
  wc_stats :: stats_flags
  wc_seed :: u64

record ('g, 'h, 'm, 'c, 'q, 'w) wstate =
  ws_dbs :: "('h, 'm) bench_dbs"
  ws_master :: "('w, 'm) master"
  ws_rand :: 'g
  ws_gens :: "KeyGenerator list"
  ws_values :: "'g RandomGenerator"
  ws_strings :: 'g
  ws_decider :: 'g
  ws_reservoir :: 'g
  ws_env :: "('q, 'c) shared"
  ws_stats :: Stats
  ws_limited :: bool
  ws_timestamp :: u64
  ws_status :: Status
  ws_batch :: "'h batch_op list"
  ws_key :: region
  ws_begin_key :: region
  ws_end_key :: region
  ws_expanded :: "region list"
  ws_bytes :: int
  ws_batch_bytes :: int
  ws_window :: "int list"
  ws_overwrites :: u64
  ws_unique :: u64
  ws_selective_deletes :: u64
  ws_skip :: bool
  ws_disposable :: bool
  ws_disp_index :: "u64 list"
  ws_pers_index :: "u64 list"
  ws_queue :: "(u64 \<times> u64) list list"
  ws_duration :: Duration
  ws_stage :: int
  ws_written :: int
  ws_next_seq_db_at :: int
  ws_id :: nat
  ws_range_deletions :: int

definition read_clock ::
  "('g, 'h, 'm, 'c, 'q, 'w) wlib \<Rightarrow> ('g, 'h, 'm, 'c, 'q, 'w) wstate \<Rightarrow> u64 \<times> ('g, 'h, 'm, 'c, 'q, 'w) wstate" where
  "read_clock L W = (let (t, c) = l_now L (clk (ws_env W)) in (t, W\<lparr>ws_env := (ws_env W)\<lparr>clk := c\<rparr>\<rparr>))"

text \<open>\<open>p\<close>, the overwrite probability in use, and \<open>kNumDispAndPersEntries\<close>.\<close>

definition overwrite_p :: "write_cfg \<Rightarrow> real" where
  "overwrite_p C = (if 0 < wc_overwrite_probability C
     then if 1 < wc_overwrite_probability C then 1 else wc_overwrite_probability C else 0)"

definition num_disp_pers :: "write_cfg \<Rightarrow> u64" where
  "num_disp_pers C = wc_disp_batch C + wc_pers_batch C"

text \<open>Flags that the set-up refuses.\<close>

definition flags_accepted :: "write_cfg \<Rightarrow> bool" where
  "flags_accepted C \<longleftrightarrow>
     \<not> (0 < wc_overwrite_probability C \<and> wc_mode C = UNIQUE_RANDOM \<and> wc_overwrite_window C = 0) \<and>
     \<not> (0 < num_disp_pers C \<and>
        (wc_mode C \<noteq> UNIQUE_RANDOM \<or> 0 < wc_writes_per_tombstone C \<or> 0 < overwrite_p C \<or>
         wc_disp_value_size C < 0 \<or> wc_pers_value_size C < 0))"

section \<open>Choosing a key\<close>

definition next_number ::
  "('g, 'h, 'm, 'c, 'q, 'w) wlib \<Rightarrow> ('g, 'h, 'm, 'c, 'q, 'w) wstate \<Rightarrow> (int \<times> ('g, 'h, 'm, 'c, 'q, 'w) wstate) outcome" where
  "next_number L W =
     bindO (at_index (ws_gens W) (ws_id W)) (\<lambda>G.
     bindO (Next (l_random L) G (ws_rand W)) (\<lambda>(x, G, rand).
       Inr (sint x, W\<lparr>ws_gens := (ws_gens W)[ws_id W := G], ws_rand := rand\<rparr>)))"

definition fresh_in_window ::
  "('g, 'h, 'm, 'c, 'q, 'w) wlib \<Rightarrow> write_cfg \<Rightarrow> ('g, 'h, 'm, 'c, 'q, 'w) wstate \<Rightarrow>
   (int \<times> ('g, 'h, 'm, 'c, 'q, 'w) wstate) outcome" where
  "fresh_in_window L C W =
     bindO (next_number L (W\<lparr>ws_unique := ws_unique W + 1\<rparr>)) (\<lambda>(x, W).
       Inr (x, W\<lparr>ws_window := (if length (ws_window W) < unat (wc_overwrite_window C) then ws_window W @ [x]
                               else tl (ws_window W) @ [x])\<rparr>))"

definition overwrite_or_fresh ::
  "('g, 'h, 'm, 'c, 'q, 'w) wlib \<Rightarrow> write_cfg \<Rightarrow> ('g, 'h, 'm, 'c, 'q, 'w) wstate \<Rightarrow>
   (int \<times> ('g, 'h, 'm, 'c, 'q, 'w) wstate) outcome" where
  "overwrite_or_fresh L C W =
     (if ws_window W \<noteq> []
      then let (again, e) = l_decide L (overwrite_p C) (ws_decider W);
               W = W\<lparr>ws_decider := e\<rparr>
           in if again
              then let (x, g) = r64_next (l_random L) (ws_reservoir W);
                       W = W\<lparr>ws_overwrites := ws_overwrites W + 1, ws_reservoir := g\<rparr>
                   in Inr (ws_window W ! (unat x mod length (ws_window W)), W)
              else fresh_in_window L C W
      else fresh_in_window L C W)"

definition fetch_number ::
  "u64 \<Rightarrow> ('g, 'h, 'm, 'c, 'q, 'w) wstate \<Rightarrow> int outcome" where
  "fetch_number i W = bindO (at_index (ws_gens W) (ws_id W)) (\<lambda>G. bindO (Fetch G i) (\<lambda>x. Inr (sint x)))"

definition write_key ::
  "write_cfg \<Rightarrow> int \<Rightarrow> ('g, 'h, 'm, 'c, 'q, 'w) wstate \<Rightarrow> (bytes \<times> ('g, 'h, 'm, 'c, 'q, 'w) wstate) outcome" where
  "write_key C x W =
     bindO (GenerateKeyFromInt (wc_keys C) (of_int x) (wc_flags_num C) (ws_key W)) (\<lambda>(key, buf).
       Inr (key, W\<lparr>ws_key := buf\<rparr>))"

text \<open>Deleting a disposable entry: it is recorded in the batch, and the rest of the turn is skipped.\<close>

definition delete_disposable ::
  "write_cfg \<Rightarrow> nat option \<Rightarrow> int \<Rightarrow> ('g, 'h, 'm, 'c, 'q, 'w) wstate \<Rightarrow> ('g, 'h, 'm, 'c, 'q, 'w) wstate outcome" where
  "delete_disposable C i x W =
     bindO (write_key C x W) (\<lambda>(key, W).
     bindO (if wc_num_cf C \<le> 1 then Inr (BDelete None key)
            else bindO (GetCfh x (selected (ws_dbs W) i)) (\<lambda>h. Inr (BDelete (Some h) key))) (\<lambda>b.
       let n = key_size (wc_keys C) + wc_timestamp_size C
       in Inr (W\<lparr>ws_batch := ws_batch W @ [b], ws_batch_bytes := ws_batch_bytes W + n, ws_bytes := ws_bytes W + n,
                 ws_selective_deletes := ws_selective_deletes W + 1, ws_skip := True\<rparr>)))"

text \<open>One step of the job at the head of the queue: a persistent entry to write, or a deletion.\<close>

definition job_entry ::
  "write_cfg \<Rightarrow> nat option \<Rightarrow> ('g, 'h, 'm, 'c, 'q, 'w) wstate \<Rightarrow> (int \<times> ('g, 'h, 'm, 'c, 'q, 'w) wstate) outcome" where
  "job_entry C i W =
     (let k = ws_id W; first = snd (hd (ws_queue W ! k)); idx = ws_pers_index W ! k
      in if idx < wc_pers_batch C
         then bindO (fetch_number (first + wc_disp_batch C + idx) W) (\<lambda>x.
                Inr (x, W\<lparr>ws_pers_index := (ws_pers_index W)[k := idx + 1], ws_disposable := False, ws_skip := False\<rparr>))
         else if idx < num_disp_pers C
         then bindO (fetch_number (first + (idx - wc_pers_batch C)) W) (\<lambda>x.
              bindO (delete_disposable C i x (W\<lparr>ws_pers_index := (ws_pers_index W)[k := idx + 1]\<rparr>)) (\<lambda>W. Inr (x, W)))
         else Inl Assert_Failed)"

text \<open>A finished job leaves the queue.\<close>

definition finish_job ::
  "('g, 'h, 'm, 'c, 'q, 'w) wlib \<Rightarrow> write_cfg \<Rightarrow> ('g, 'h, 'm, 'c, 'q, 'w) wstate \<Rightarrow> ('g, 'h, 'm, 'c, 'q, 'w) wstate" where
  "finish_job L C W =
     (let k = ws_id W; (t, W) = read_clock L W
      in if fst (hd (ws_queue W ! k)) < t \<and> ws_pers_index W ! k = num_disp_pers C
         then W\<lparr>ws_queue := (ws_queue W)[k := tl (ws_queue W ! k)], ws_pers_index := (ws_pers_index W)[k := 0]\<rparr>
         else W)"

definition disposable_job ::
  "('g, 'h, 'm, 'c, 'q, 'w) wlib \<Rightarrow> write_cfg \<Rightarrow> nat option \<Rightarrow> ('g, 'h, 'm, 'c, 'q, 'w) wstate \<Rightarrow>
   (int \<times> ('g, 'h, 'm, 'c, 'q, 'w) wstate) outcome" where
  "disposable_job L C i W = bindO (job_entry C i W) (\<lambda>(x, W). Inr (x, finish_job L C W))"

definition next_disp_index :: "write_cfg \<Rightarrow> u64 \<Rightarrow> u64 outcome" where
  "next_disp_index C idx =
     (if wc_disp_batch C = 0 then Inl Div_By_Zero
      else let idx = idx + 1
           in Inr (if idx mod wc_disp_batch C = 0 then idx + wc_pers_batch C else idx))"

definition new_disposable ::
  "write_cfg \<Rightarrow> ('g, 'h, 'm, 'c, 'q, 'w) wstate \<Rightarrow> (int \<times> ('g, 'h, 'm, 'c, 'q, 'w) wstate) outcome" where
  "new_disposable C W =
     (let k = ws_id W
      in bindO (fetch_number (ws_disp_index W ! k) W) (\<lambda>x.
         bindO (next_disp_index C (ws_disp_index W ! k)) (\<lambda>idx.
           Inr (x, W\<lparr>ws_disp_index := (ws_disp_index W)[k := idx], ws_disposable := True\<rparr>))))"

text \<open>\<open>None\<close> when the turn ends with a \<open>continue\<close>.\<close>

definition choose_key ::
  "('g, 'h, 'm, 'c, 'q, 'w) wlib \<Rightarrow> write_cfg \<Rightarrow> nat option \<Rightarrow> ('g, 'h, 'm, 'c, 'q, 'w) wstate \<Rightarrow>
   (int option \<times> ('g, 'h, 'm, 'c, 'q, 'w) wstate) outcome" where
  "choose_key L C i W =
     (if wc_mode C = UNIQUE_RANDOM \<and> 0 < overwrite_p C
      then bindO (overwrite_or_fresh L C W) (\<lambda>(x, W). Inr (Some x, W))
      else if 0 < num_disp_pers C
      then let (due, W) = (if ws_queue W ! ws_id W \<noteq> []
                           then let (t, W) = read_clock L W in (fst (hd (ws_queue W ! ws_id W)) < t, W)
                           else (False, W))
           in if due then bindO (disposable_job L C i W) (\<lambda>(x, W). Inr (if ws_skip W then None else Some x, W))
              else bindO (new_disposable C W) (\<lambda>(x, W). Inr (Some x, W))
      else bindO (next_number L W) (\<lambda>(x, W). Inr (Some x, W)))"

section \<open>Writing an entry\<close>

definition put_selected :: "nat option \<Rightarrow> 'm \<Rightarrow> ('h, 'm) bench_dbs \<Rightarrow> ('h, 'm) bench_dbs" where
  "put_selected i m B =
     (case i of
        None \<Rightarrow> B\<lparr>bdb := (bdb B)\<lparr>db := Some m\<rparr>\<rparr>
      | Some k \<Rightarrow> B\<lparr>multi_dbs := (multi_dbs B)[k := (multi_dbs B ! k)\<lparr>db := Some m\<rparr>]\<rparr>)"

definition make_value ::
  "('g, 'h, 'm, 'c, 'q, 'w) wlib \<Rightarrow> write_cfg \<Rightarrow> ('g, 'h, 'm, 'c, 'q, 'w) wstate \<Rightarrow>
   (bytes \<times> ('g, 'h, 'm, 'c, 'q, 'w) wstate) outcome" where
  "make_value L C W =
     (if 0 < num_disp_pers C
      then let (v, g) = l_string L (if ws_disposable W then wc_disp_value_size C else wc_pers_value_size C) (ws_strings W)
           in Inr (v, W\<lparr>ws_strings := g, ws_unique := ws_unique W + 1\<rparr>)
      else bindO (Generate (l_sampler L) (ws_values W)) (\<lambda>(v, G). Inr (v, W\<lparr>ws_values := G\<rparr>)))"

text \<open>Only the stacked blob database reports a status; the one of \<open>DB_MASTER::Put\<close> is dropped.\<close>

definition store_value ::
  "('g, 'h, 'm, 'c, 'q, 'w) wlib \<Rightarrow> write_cfg \<Rightarrow> nat option \<Rightarrow> int \<Rightarrow> bytes \<Rightarrow> bytes \<Rightarrow>
   ('g, 'h, 'm, 'c, 'q, 'w) wstate \<Rightarrow> ('g, 'h, 'm, 'c, 'q, 'w) wstate outcome" where
  "store_value L C i x key val W =
     (if wc_use_blob_db C
      then bindO (deref (db (selected (ws_dbs W) i))) (\<lambda>m.
             let (ttl, W) = (if 0 < wc_blob_ttl_range C
                             then let (r, c) = l_rand L (clk (ws_env W))
                                  in (Some (r smod wc_blob_ttl_range C), W\<lparr>ws_env := (ws_env W)\<lparr>clk := c\<rparr>\<rparr>)
                             else (None, W));
                 (s, m) = l_blob_put L ttl key val m
             in Inr (W\<lparr>ws_dbs := put_selected i m (ws_dbs W), ws_status := s\<rparr>))
      else if wc_num_cf C \<le> 1
      then bindO (master_Put (l_rdb L) (l_murmur L) (l_os L) key val (ws_master W)) (\<lambda>(_, M). Inr (W\<lparr>ws_master := M\<rparr>))
      else bindO (GetCfh x (selected (ws_dbs W) i)) (\<lambda>h. Inr (W\<lparr>ws_batch := ws_batch W @ [BPut h key val]\<rparr>)))"

definition put_entry ::
  "('g, 'h, 'm, 'c, 'q, 'w) wlib \<Rightarrow> write_cfg \<Rightarrow> nat option \<Rightarrow> int \<Rightarrow> ('g, 'h, 'm, 'c, 'q, 'w) wstate \<Rightarrow>
   ('g, 'h, 'm, 'c, 'q, 'w) wstate outcome" where
  "put_entry L C i x W =
     bindO (write_key C x W) (\<lambda>(key, W).
     bindO (make_value L C W) (\<lambda>(val, W).
     bindO (store_value L C i x key val W) (\<lambda>W.
       let n = int (length val) + key_size (wc_keys C) + wc_timestamp_size C
       in Inr (W\<lparr>ws_batch_bytes := ws_batch_bytes W + n, ws_bytes := ws_bytes W + n, ws_written := ws_written W + 1\<rparr>))))"

definition schedule_job ::
  "('g, 'h, 'm, 'c, 'q, 'w) wlib \<Rightarrow> write_cfg \<Rightarrow> ('g, 'h, 'm, 'c, 'q, 'w) wstate \<Rightarrow> ('g, 'h, 'm, 'c, 'q, 'w) wstate" where
  "schedule_job L C W =
     (let k = ws_id W
      in if 0 < num_disp_pers C \<and> ws_disposable W \<and> ws_disp_index W ! k mod num_disp_pers C = 0
         then let (t, W) = read_clock L W
              in W\<lparr>ws_queue := (ws_queue W)[k := ws_queue W ! k @
                     [(t + wc_delete_delay C, ws_disp_index W ! k - num_disp_pers C)]]\<rparr>
         else W)"

definition tombstone_due :: "write_cfg \<Rightarrow> int \<Rightarrow> bool" where
  "tombstone_due C written \<longleftrightarrow>
     0 < wc_writes_per_tombstone C \<and> wc_before_delete_range C < written \<and>
     (written - wc_before_delete_range C) sdiv wc_writes_per_tombstone C \<le> wc_max_tombstones C \<and>
     (written - wc_before_delete_range C) smod wc_writes_per_tombstone C = 0"

definition family_of :: "write_cfg \<Rightarrow> nat option \<Rightarrow> int \<Rightarrow> ('h, 'm) bench_dbs \<Rightarrow> 'h option option outcome" where
  "family_of C i x B = (if wc_num_cf C \<le> 1 then Inr None else bindO (GetCfh x (selected B i)) (\<lambda>h. Inr (Some h)))"

fun expand_tombstone ::
  "('g, 'h, 'm, 'c, 'q, 'w) wlib \<Rightarrow> write_cfg \<Rightarrow> nat option \<Rightarrow> int \<Rightarrow> int \<Rightarrow> nat list \<Rightarrow>
   ('g, 'h, 'm, 'c, 'q, 'w) wstate \<Rightarrow> ('g, 'h, 'm, 'c, 'q, 'w) wstate outcome" where
  "expand_tombstone L C i x begin_num [] W = Inr W"
| "expand_tombstone L C i x begin_num (off # offs) W =
     bindO (at_index (ws_expanded W) off) (\<lambda>buf.
     bindO (GenerateKeyFromInt (wc_keys C) (of_int (begin_num + int off)) (wc_flags_num C) buf) (\<lambda>(key, buf).
     bindO
       (let W = W\<lparr>ws_expanded := (ws_expanded W)[off := buf]\<rparr>
        in if wc_use_blob_db C
           then bindO (deref (db (selected (ws_dbs W) i))) (\<lambda>m.
                  let (s, m) = l_delete L key m
                  in Inr (W\<lparr>ws_dbs := put_selected i m (ws_dbs W), ws_status := s\<rparr>))
           else bindO (family_of C i x (ws_dbs W)) (\<lambda>f. Inr (W\<lparr>ws_batch := ws_batch W @ [BDelete f key]\<rparr>)))
       (\<lambda>W. expand_tombstone L C i x begin_num offs W)))"

definition range_tombstone ::
  "('g, 'h, 'm, 'c, 'q, 'w) wlib \<Rightarrow> write_cfg \<Rightarrow> nat option \<Rightarrow> int \<Rightarrow> ('g, 'h, 'm, 'c, 'q, 'w) wstate \<Rightarrow>
   ('g, 'h, 'm, 'c, 'q, 'w) wstate outcome" where
  "range_tombstone L C i x W =
     bindO (next_number L (W\<lparr>ws_range_deletions := ws_range_deletions W + 1\<rparr>)) (\<lambda>(begin_num, W).
       if wc_expand_tombstones C
       then expand_tombstone L C i x begin_num [0..<nat (wc_tombstone_width C)] W
       else bindO (GenerateKeyFromInt (wc_keys C) (of_int begin_num) (wc_flags_num C) (ws_begin_key W)) (\<lambda>(b, bbuf).
            bindO (GenerateKeyFromInt (wc_keys C) (of_int (begin_num + wc_tombstone_width C)) (wc_flags_num C)
                     (ws_end_key W)) (\<lambda>(e, ebuf).
              let W = W\<lparr>ws_begin_key := bbuf, ws_end_key := ebuf\<rparr>
              in if wc_use_blob_db C
                 then bindO (deref (db (selected (ws_dbs W) i))) (\<lambda>m.
                        let (s, m) = l_delete_range L b e m
                        in Inr (W\<lparr>ws_dbs := put_selected i m (ws_dbs W), ws_status := s\<rparr>))
                 else bindO (family_of C i x (ws_dbs W)) (\<lambda>f. Inr (W\<lparr>ws_batch := ws_batch W @ [BDeleteRange f b e]\<rparr>)))))"

definition write_entry ::
  "('g, 'h, 'm, 'c, 'q, 'w) wlib \<Rightarrow> write_cfg \<Rightarrow> nat option \<Rightarrow> ('g, 'h, 'm, 'c, 'q, 'w) wstate \<Rightarrow>
   ('g, 'h, 'm, 'c, 'q, 'w) wstate outcome" where
  "write_entry L C i W =
     bindO (choose_key L C i W) (\<lambda>(x, W).
       case x of
         None \<Rightarrow> Inr W
       | Some x \<Rightarrow>
           bindO (put_entry L C i x W) (\<lambda>W.
             let W = schedule_job L C W
             in if tombstone_due C (ws_written W) then range_tombstone L C i x W else Inr W))"

fun write_entries ::
  "('g, 'h, 'm, 'c, 'q, 'w) wlib \<Rightarrow> write_cfg \<Rightarrow> nat option \<Rightarrow> nat \<Rightarrow> ('g, 'h, 'm, 'c, 'q, 'w) wstate \<Rightarrow>
   ('g, 'h, 'm, 'c, 'q, 'w) wstate outcome" where
  "write_entries L C i 0 W = Inr W"
| "write_entries L C i (Suc j) W = bindO (write_entry L C i W) (write_entries L C i j)"

section \<open>A batch\<close>

fun create_all ::
  "('g, 'h, 'm, 'c, 'q, 'w) wlib \<Rightarrow> int \<Rightarrow> ('h, 'm) DBWithColumnFamilies list \<Rightarrow>
   ('h, 'm) DBWithColumnFamilies list outcome" where
  "create_all L stage [] = Inr []"
| "create_all L stage (d # ds) =
     bindO (CreateNewCf (l_create L) stage d) (\<lambda>d. bindO (create_all L stage ds) (\<lambda>ds. Inr (d # ds)))"

definition enter_stage ::
  "('g, 'h, 'm, 'c, 'q, 'w) wlib \<Rightarrow> ('g, 'h, 'm, 'c, 'q, 'w) wstate \<Rightarrow> ('g, 'h, 'm, 'c, 'q, 'w) wstate outcome" where
  "enter_stage L W =
     bindO (GetStage (ws_duration W)) (\<lambda>stage.
       if stage = ws_stage W then Inr W
       else let W = W\<lparr>ws_stage := stage\<rparr>; B = ws_dbs W
            in if db (bdb B) \<noteq> None
               then bindO (CreateNewCf (l_create L) stage (bdb B)) (\<lambda>d. Inr (W\<lparr>ws_dbs := B\<lparr>bdb := d\<rparr>\<rparr>))
               else bindO (create_all L stage (multi_dbs B)) (\<lambda>ds. Inr (W\<lparr>ws_dbs := B\<lparr>multi_dbs := ds\<rparr>\<rparr>)))"

definition pick_generator ::
  "('g, 'h, 'm, 'c, 'q, 'w) wlib \<Rightarrow> write_cfg \<Rightarrow> int \<Rightarrow> ('g, 'h, 'm, 'c, 'q, 'w) wstate \<Rightarrow>
   ('g, 'h, 'm, 'c, 'q, 'w) wstate outcome" where
  "pick_generator L C num_ops W =
     (if wc_mode C \<noteq> SEQUENTIAL
      then let (x, rand) = r64_next (l_random L) (ws_rand W)
           in if ws_gens W = [] then Inl Div_By_Zero
              else Inr (W\<lparr>ws_rand := rand, ws_id := unat x mod length (ws_gens W)\<rparr>)
      else if ws_next_seq_db_at W \<le> ws_written W
      then let W = W\<lparr>ws_next_seq_db_at := ws_next_seq_db_at W + num_ops, ws_id := ws_id W + 1\<rparr>
           in if length (ws_gens W) \<le> ws_id W then Inl Process_Exit else Inr W
      else Inr W)"

definition to_u64 :: "real \<Rightarrow> u64 outcome" where
  "to_u64 x = (if - 1 < x \<and> x < 18446744073709551616 then Inr (if x < 0 then 0 else of_int \<lfloor>x\<rfloor>) else Inl Signed_Overflow)"

definition adapt_rate ::
  "('g, 'h, 'm, 'c, 'q, 'w) wlib \<Rightarrow> write_cfg \<Rightarrow> ('g, 'h, 'm, 'c, 'q, 'w) wstate \<Rightarrow> ('g, 'h, 'm, 'c, 'q, 'w) wstate outcome" where
  "adapt_rate L C W =
     (let (t, W) = read_clock L W;
          since = (if sine_interval (ws_stats W) < t then t - sine_interval (ws_stats W) else 0)
      in if wc_sine_interval_ms C * 1000 < since
         then let usecs_since_start = real (unat (t - s_start (ws_stats W)));
                  (S, c) = ResetSineInterval (l_now L) (ws_stats W) (clk (ws_env W));
                  W = W\<lparr>ws_stats := S, ws_env := (ws_env W)\<lparr>clk := c\<rparr>\<rparr>;
                  (a, b, c, d) = wc_sine C
              in bindO (to_u64 (SineRate a b c d (usecs_since_start / 1000000))) (\<lambda>_. Inr (W\<lparr>ws_limited := True\<rparr>))
         else Inr W)"

text \<open>The end of a batch.  The batch itself is not written: the call is commented out in the source.\<close>

definition finish_batch ::
  "('g, 'h, 'm, 'c, 'q, 'w) wlib \<Rightarrow> write_cfg \<Rightarrow> nat option \<Rightarrow> ('g, 'h, 'm, 'c, 'q, 'w) wstate \<Rightarrow>
   ('g, 'h, 'm, 'c, 'q, 'w) wstate outcome" where
  "finish_batch L C i W =
     (let W = (if ws_limited W
               then let (S, c) = ResetLastOpTime (l_now L) (ws_stats W) (clk (ws_env W))
                    in W\<lparr>ws_stats := S, ws_env := (ws_env W)\<lparr>clk := c\<rparr>\<rparr>
               else W)
      in bindO
           (if 0 < wc_timestamp_size C
            then let (ts, clock) = Allocate (ws_timestamp W);
                     s = l_update_ts L ts (ws_batch W);
                     W = W\<lparr>ws_timestamp := clock, ws_status := s\<rparr>
                 in if s \<noteq> OK then Inl Process_Exit else Inr W
            else Inr W) (\<lambda>W.
         bindO (FinishedOps (l_rdb L) (l_hist L) (l_now L) (wc_stats C) (db (selected (ws_dbs W) i))
                  (wc_entries_per_batch C) kWrite (ws_stats W) (ws_env W)) (\<lambda>(S, E).
         bindO (if wc_sine_write_rate C then adapt_rate L C (W\<lparr>ws_stats := S, ws_env := E\<rparr>)
                else Inr (W\<lparr>ws_stats := S, ws_env := E\<rparr>)) (\<lambda>W.
           if ws_status W = OK then Inr W
           else let (b, c) = l_recovers L (clk (ws_env W));
                    W = W\<lparr>ws_env := (ws_env W)\<lparr>clk := c\<rparr>\<rparr>
                in if b then Inr (W\<lparr>ws_status := OK\<rparr>) else Inl Process_Exit))))"

section \<open>The benchmark\<close>

definition write_turn ::
  "('g, 'h, 'm, 'c, 'q, 'w) wlib \<Rightarrow> write_cfg \<Rightarrow> int \<Rightarrow> ('g, 'h, 'm, 'c, 'q, 'w) wstate \<Rightarrow>
   ('g, 'h, 'm, 'c, 'q, 'w) wstate outcome" where
  "write_turn L C num_ops W =
     bindO (enter_stage L W) (\<lambda>W.
     bindO (pick_generator L C num_ops W) (\<lambda>W.
     bindO (SelectDBWithCfh (of_nat (ws_id W)) (ws_dbs W)) (\<lambda>i.
     bindO (write_entries L C i (nat (wc_entries_per_batch C)) (W\<lparr>ws_batch := [], ws_batch_bytes := 0\<rparr>)) (\<lambda>W.
       finish_batch L C i W))))"

fun write_loop ::
  "('g, 'h, 'm, 'c, 'q, 'w) wlib \<Rightarrow> write_cfg \<Rightarrow> int \<Rightarrow> nat \<Rightarrow> ('g, 'h, 'm, 'c, 'q, 'w) wstate \<Rightarrow>
   ('g, 'h, 'm, 'c, 'q, 'w) wstate outcome" where
  "write_loop L C num_ops 0 W = Inl Out_Of_Fuel"
| "write_loop L C num_ops (Suc fuel) W =
     bindO (Done (l_now L) (wc_granularity C) (wc_entries_per_batch C) (ws_duration W) (clk (ws_env W))) (\<lambda>(b, D, c).
       let W = W\<lparr>ws_duration := D, ws_env := (ws_env W)\<lparr>clk := c\<rparr>\<rparr>
       in if b then Inr W else bindO (write_turn L C num_ops W) (write_loop L C num_ops fuel))"

definition num_ops_of :: "write_cfg \<Rightarrow> int" where
  "num_ops_of C = (if wc_writes C = 0 then wc_num C else wc_writes C)"

definition stage_length :: "write_cfg \<Rightarrow> int \<Rightarrow> int outcome" where
  "stage_length C total_ops =
     (if 1 < wc_num_cf C \<and> 0 < wc_num_hot_cf C
      then if wc_num_cf C sdiv wc_num_hot_cf C = 0 then Inl Div_By_Zero
           else Inr ((total_ops - 1) sdiv (wc_num_cf C sdiv wc_num_hot_cf C) + 1)
      else Inr total_ops)"

text \<open>
  The set-up: the state keeps what belongs to the benchmark and the thread, the locals start anew.  The
  generator of values and the two engines seeded here are given by the caller.
\<close>

definition write_setup ::
  "('g, 'h, 'm, 'c, 'q, 'w) wlib \<Rightarrow> write_cfg \<Rightarrow> 'g RandomGenerator \<Rightarrow> 'g \<Rightarrow> 'g \<Rightarrow> ('g, 'h, 'm, 'c, 'q, 'w) wstate \<Rightarrow>
   ('g, 'h, 'm, 'c, 'q, 'w) wstate outcome" where
  "write_setup L C gen strings overwriter W =
     (let n = (if db (bdb (ws_dbs W)) = None then length (multi_dbs (ws_dbs W)) else 1);
          total_ops = sint ((of_int (num_ops_of C) :: u64) * of_nat n)
      in bindO (stage_length C total_ops) (\<lambda>per_stage.
           let (D, c) = Duration_new (l_now L) (if wc_mode C = RANDOM then of_int (wc_duration C) else 0) total_ops per_stage
                          (clk (ws_env W));
               G = KeyGenerator_new (l_shuffle L) (wc_seed C) (wc_mode C) (of_int (wc_num C + wc_max_tombstones C));
               S = (if wc_num C \<noteq> wc_flags_num C
                    then AddMessage (bytes_of ''('' @ to_string (unat (of_int (wc_num C) :: u64)) @ bytes_of '' ops)'') (ws_stats W)
                    else ws_stats W);
               K = wc_keys C
           in if \<not> flags_accepted C then Inl Process_Exit
              else Inr (W\<lparr>ws_stats := S, ws_env := (ws_env W)\<lparr>clk := c\<rparr>, ws_gens := replicate n G, ws_values := gen,
                          ws_strings := strings, ws_decider := overwriter, ws_reservoir := r64_seed (l_random L) (wc_seed C),
                          ws_status := OK, ws_batch := [], ws_key := AllocateKey K, ws_begin_key := AllocateKey K,
                          ws_end_key := AllocateKey K,
                          ws_expanded := (if wc_expand_tombstones C
                                          then replicate (nat (wc_tombstone_width C)) (AllocateKey K) else []),
                          ws_bytes := 0, ws_batch_bytes := 0, ws_window := [], ws_overwrites := 0, ws_unique := 0,
                          ws_selective_deletes := 0, ws_skip := False, ws_disposable := True,
                          ws_disp_index := replicate n 0, ws_pers_index := replicate n 0, ws_queue := replicate n [],
                          ws_duration := D, ws_stage := 0, ws_written := 0, ws_next_seq_db_at := num_ops_of C,
                          ws_id := 0, ws_range_deletions := 0\<rparr>)))"

definition DoWrite ::
  "('g, 'h, 'm, 'c, 'q, 'w) wlib \<Rightarrow> write_cfg \<Rightarrow> 'g RandomGenerator \<Rightarrow> 'g \<Rightarrow> 'g \<Rightarrow> nat \<Rightarrow>
   ('g, 'h, 'm, 'c, 'q, 'w) wstate \<Rightarrow> ('g, 'h, 'm, 'c, 'q, 'w) wstate outcome" where
  "DoWrite L C gen strings overwriter fuel W =
     bindO (write_setup L C gen strings overwriter W) (\<lambda>W.
     bindO (if (of_int (wc_num C + wc_max_tombstones C) :: u64) \<noteq> 0 then write_loop L C (num_ops_of C) fuel W else Inr W) (\<lambda>W.
       Inr (W\<lparr>ws_stats := AddBytes (ws_bytes W) (ws_stats W)\<rparr>)))"

section \<open>A sequential load is a sequence of puts\<close>

text \<open>
  What a load promises: numbers in order, each made a key and given the next value, each put into
  \<open>DB_MASTER\<close>.  The state is the object, the generator of values and the key buffer.
\<close>

definition fill_step ::
  "('g, 'h, 'm, 'c, 'q, 'w) wlib \<Rightarrow> write_cfg \<Rightarrow> nat \<Rightarrow> ('w, 'm) master \<times> 'g RandomGenerator \<times> region \<Rightarrow>
   (('w, 'm) master \<times> 'g RandomGenerator \<times> region) outcome" where
  "fill_step L C k st =
     (case st of (M, G, buf) \<Rightarrow>
        bindO (GenerateKeyFromInt (wc_keys C) (of_nat k) (wc_flags_num C) buf) (\<lambda>(key, buf).
        bindO (Generate (l_sampler L) G) (\<lambda>(v, G).
        bindO (master_Put (l_rdb L) (l_murmur L) (l_os L) key v M) (\<lambda>(_, M). Inr (M, G, buf)))))"

fun fill ::
  "('g, 'h, 'm, 'c, 'q, 'w) wlib \<Rightarrow> write_cfg \<Rightarrow> nat \<Rightarrow> nat \<Rightarrow> ('w, 'm) master \<times> 'g RandomGenerator \<times> region \<Rightarrow>
   (('w, 'm) master \<times> 'g RandomGenerator \<times> region) outcome" where
  "fill L C 0 k st = Inr st"
| "fill L C (Suc n) k st = bindO (fill_step L C k st) (fill L C n (Suc k))"

lemma fill_add: "fill L C (a + b) k st = bindO (fill L C a k st) (fill L C b (k + a))"
proof (induction a arbitrary: k st)
  case (Suc a)
  have "fill L C (a + b) (Suc k) = (\<lambda>s. bindO (fill L C a (Suc k) s) (fill L C b (Suc k + a)))"
    by (rule ext) (rule Suc.IH)
  then show ?case
    by (simp add: bindO_assoc)
qed simp

definition plain_write :: "write_cfg \<Rightarrow> bool" where
  "plain_write C \<longleftrightarrow> wc_mode C = SEQUENTIAL \<and> num_disp_pers C = 0 \<and> \<not> wc_use_blob_db C \<and> wc_num_cf C \<le> 1 \<and>
     wc_writes_per_tombstone C \<le> 0 \<and> wc_timestamp_size C \<le> 0 \<and> \<not> wc_sine_write_rate C \<and>
     fl_stats_interval (wc_stats C) = 0"

definition at_pos ::
  "nat \<Rightarrow> int \<Rightarrow> 'm \<Rightarrow> ('w, 'm) master \<times> 'g RandomGenerator \<times> region \<Rightarrow> ('g, 'h, 'm, 'c, 'q, 'w) wstate \<Rightarrow> bool" where
  "at_pos k n d st W \<longleftrightarrow>
     (ws_master W, ws_values W, ws_key W) = st \<and> ws_id W = 0 \<and>
     (\<exists>G. ws_gens W = [G] \<and> kg_mode G = SEQUENTIAL \<and> kg_next G = of_nat k) \<and>
     ws_written W = int k \<and> ws_next_seq_db_at W = n \<and> ws_stage W = 0 \<and> ws_status W = OK \<and>
     s_reporter (ws_stats W) \<noteq> None \<and> db (bdb (ws_dbs W)) = Some d"

lemma of_int_sint [simp]: "of_int (sint (x :: u64)) = x"
  by simp

lemma write_entry_plain:
  assumes "plain_write C" and "at_pos k n d st W" and "fill_step L C k st = Inr st'"
  shows "\<exists>W'. write_entry L C i W = Inr W' \<and> at_pos (Suc k) n d st' W' \<and> ws_duration W' = ws_duration W"
proof -
  obtain M V buf where st: "st = (M, V, buf)" "ws_master W = M" "ws_values W = V" "ws_key W = buf"
    using assms(2) by (auto simp: at_pos_def)
  obtain G where G: "ws_gens W = [G]" "kg_mode G = SEQUENTIAL" "kg_next G = of_nat k" "ws_id W = 0"
    using assms(2) by (auto simp: at_pos_def)
  obtain key buf' v V' s M' where f:
    "GenerateKeyFromInt (wc_keys C) (of_nat k) (wc_flags_num C) buf = Inr (key, buf')"
    "Generate (l_sampler L) V = Inr (v, V')" "master_Put (l_rdb L) (l_murmur L) (l_os L) key v M = Inr (s, M')"
    "st' = (M', V', buf')"
    using assms(3) by (auto simp: fill_step_def st(1) bindO_eq_Inr)
  define W1 where "W1 = W\<lparr>ws_gens := [G\<lparr>kg_next := of_nat k + 1\<rparr>]\<rparr>"
  define m where "m = int (length v) + key_size (wc_keys C) + wc_timestamp_size C"
  define W2 where "W2 = W1\<lparr>ws_key := buf', ws_values := V', ws_master := M', ws_batch_bytes := ws_batch_bytes W + m,
    ws_bytes := ws_bytes W + m, ws_written := ws_written W + 1\<rparr>"
  have c: "choose_key L C i W = Inr (Some (sint (of_nat k :: u64)), W1)"
    using assms(1) G by (simp add: choose_key_def plain_write_def next_number_def Next_def W1_def)
  have W1: "ws_key W1 = buf" "ws_values W1 = V" "ws_master W1 = M"
    using st by (simp_all add: W1_def)
  have "put_entry L C i (sint (of_nat k :: u64)) W1 = Inr W2"
    using assms(1) by (simp add: put_entry_def write_key_def make_value_def store_value_def plain_write_def W1 f(1-3) Let_def)
      (simp add: W2_def W1_def m_def)
  moreover have "schedule_job L C W2 = W2" "\<not> tombstone_due C x" for x
    using assms(1) by (simp_all add: schedule_job_def plain_write_def tombstone_due_def)
  ultimately have "write_entry L C i W = Inr W2"
    by (simp add: write_entry_def c)
  moreover have "at_pos (Suc k) n d st' W2" "ws_duration W2 = ws_duration W"
    using assms(2) f(4) G by (simp_all add: at_pos_def W2_def W1_def)
  ultimately show ?thesis
    by blast
qed

lemma write_entries_plain:
  assumes "plain_write C" and "at_pos k n d st W" and "fill L C j k st = Inr st'"
  shows "\<exists>W'. write_entries L C i j W = Inr W' \<and> at_pos (k + j) n d st' W' \<and> ws_duration W' = ws_duration W"
  using assms(2,3)
proof (induction j arbitrary: k st W)
  case (Suc j)
  then obtain st1 where st1: "fill_step L C k st = Inr st1" "fill L C j (Suc k) st1 = Inr st'"
    by (auto simp: bindO_eq_Inr)
  then show ?case
    using write_entry_plain [OF assms(1) Suc.prems(1) st1(1), of i] Suc.IH [of "Suc k" st1] by fastforce
qed simp

lemma FinishedOps_plain:
  assumes "s_reporter S \<noteq> None" and "fl_stats_interval F = 0"
  shows "\<exists>S' E'. FinishedOps rdb H now F dbp k op S E = Inr (S', E') \<and> s_reporter S' = s_reporter S"
  using assms by (auto simp: FinishedOps_def record_latency_def Let_def split_beta)

lemma finish_batch_plain:
  assumes "plain_write C" and "at_pos k n d st W"
  shows "\<exists>W'. finish_batch L C i W = Inr W' \<and> at_pos k n d st W' \<and> ws_duration W' = ws_duration W"
proof -
  define V where "V = (if ws_limited W
    then let (S, c) = ResetLastOpTime (l_now L) (ws_stats W) (clk (ws_env W))
         in W\<lparr>ws_stats := S, ws_env := (ws_env W)\<lparr>clk := c\<rparr>\<rparr> else W)"
  have V: "at_pos k n d st V" "ws_duration V = ws_duration W" "ws_status V = OK"
    using assms(2) by (auto simp: V_def at_pos_def ResetLastOpTime_def Let_def split_beta)
  have "s_reporter (ws_stats V) \<noteq> None" "fl_stats_interval (wc_stats C) = 0"
    using V(1) assms(1) by (auto simp: plain_write_def at_pos_def)
  then obtain S' E' where f: "FinishedOps (l_rdb L) (l_hist L) (l_now L) (wc_stats C) (db (selected (ws_dbs V) i))
      (wc_entries_per_batch C) kWrite (ws_stats V) (ws_env V) = Inr (S', E')" "s_reporter S' = s_reporter (ws_stats V)"
    using FinishedOps_plain by blast
  have "finish_batch L C i W = Inr (V\<lparr>ws_stats := S', ws_env := E'\<rparr>)"
    unfolding finish_batch_def V_def [symmetric] using assms(1) V(3) f(1) by (simp add: plain_write_def)
  then show ?thesis
    using V f(2) by (simp add: at_pos_def)
qed

definition run_for :: "int \<Rightarrow> nat \<Rightarrow> Duration \<Rightarrow> bool" where
  "run_for n k D \<longleftrightarrow> max_seconds D = 0 \<and> max_ops D = n \<and> ops_per_stage D = n \<and> d_ops D = int k"

lemma GetStage_single:
  assumes "run_for n k D" and "0 < k" and "0 < n" and "in_i64 n"
  shows "GetStage D = Inr 0"
proof -
  have "in_i64 (n - 1)"
    using assms(3,4) by (auto simp: in_i64_def)
  moreover have "0 \<le> min (int k) (n - 1)" "min (int k) (n - 1) < n"
    using assms(2,3) by auto
  then have "min (int k) (n - 1) sdiv n = 0"
    using assms(3) by (simp add: sdiv_pos div_pos_pos_trivial)
  ultimately show ?thesis
    using assms(1,3) by (simp add: GetStage_def run_for_def in_i64_def)
qed

lemma write_turn_plain:
  assumes "plain_write C" and "at_pos k n d st W" and "int k < n" and "in_i64 n"
    and "run_for n j (ws_duration W)" and "0 < j" and "fill L C (nat (wc_entries_per_batch C)) k st = Inr st'"
  shows "\<exists>W'. write_turn L C n W = Inr W' \<and> at_pos (k + nat (wc_entries_per_batch C)) n d st' W' \<and>
    ws_duration W' = ws_duration W"
proof -
  have "enter_stage L W = Inr W"
    using GetStage_single [OF assms(5,6) _ assms(4)] assms(2,3) by (simp add: enter_stage_def at_pos_def)
  moreover have "pick_generator L C n W = Inr W"
    using assms(1-3) by (auto simp: pick_generator_def plain_write_def at_pos_def)
  moreover have "SelectDBWithCfh x (ws_dbs W) = Inr None" for x
    using assms(2) by (simp add: SelectDBWithCfh_def at_pos_def)
  moreover have "at_pos k n d st (W\<lparr>ws_batch := [], ws_batch_bytes := 0\<rparr>)"
    using assms(2) by (simp add: at_pos_def)
  then obtain W1 where "write_entries L C None (nat (wc_entries_per_batch C)) (W\<lparr>ws_batch := [], ws_batch_bytes := 0\<rparr>) = Inr W1"
    "at_pos (k + nat (wc_entries_per_batch C)) n d st' W1" "ws_duration W1 = ws_duration W"
    using write_entries_plain [OF assms(1) _ assms(7)] by fastforce
  ultimately show ?thesis
    using finish_batch_plain [OF assms(1)] by (fastforce simp: write_turn_def)
qed

lemma write_loop_plain:
  assumes "plain_write C" and "0 < wc_entries_per_batch C" and "in_i64 (n + wc_entries_per_batch C)"
    and "at_pos k n d st W" and "int k \<le> n" and "run_for n k (ws_duration W)"
    and "t = nat ((n - int k) div wc_entries_per_batch C)" and "t < fuel"
    and "fill L C (t * nat (wc_entries_per_batch C)) k st = Inr st'"
  shows "\<exists>W'. write_loop L C n fuel W = Inr W' \<and> at_pos (k + t * nat (wc_entries_per_batch C)) n d st' W'"
  using assms(4-9)
proof (induction fuel arbitrary: k st W t)
  case (Suc fuel)
  let ?e = "wc_entries_per_batch C"
  have i: "in_i64 n" "in_i64 (int k + ?e)"
    using assms(2,3) Suc.prems(2) by (auto simp: in_i64_def)
  have D: "Done (l_now L) (wc_granularity C) ?e (ws_duration W) c =
      Inr (n < int k + ?e, (ws_duration W)\<lparr>d_ops := int k + ?e\<rparr>, c)" for c
    using Done_count [of "ws_duration W" ?e "l_now L" "wc_granularity C" c] Suc.prems(3) assms(2) i(2)
    by (simp add: run_for_def)
  let ?W = "W\<lparr>ws_duration := (ws_duration W)\<lparr>d_ops := int k + ?e\<rparr>, ws_env := (ws_env W)\<lparr>clk := clk (ws_env W)\<rparr>\<rparr>"
  have W: "at_pos k n d st ?W" "run_for n (k + nat ?e) (ws_duration ?W)"
    using Suc.prems(1,3) assms(2) by (simp_all add: at_pos_def run_for_def)
  show ?case
  proof (cases "n < int k + ?e")
    case True
    then have "t = 0"
      using Suc.prems(2,4) assms(2) by (simp add: div_pos_pos_trivial)
    then show ?thesis
      using True D Suc.prems(6) W(1) by (simp add: Let_def)
  next
    case False
    have d: "(n - int k) div ?e = (n - int (k + nat ?e)) div ?e + 1"
      using assms(2) div_add_self2 [of ?e "n - int (k + nat ?e)"] by (simp add: algebra_simps)
    have nn: "0 \<le> (n - int (k + nat ?e)) div ?e"
      using False assms(2) by (simp add: pos_imp_zdiv_nonneg_iff)
    define u where "u = nat ((n - int (k + nat ?e)) div ?e)"
    have "t = nat ((n - int (k + nat ?e)) div ?e + 1)"
      using Suc.prems(4) unfolding d .
    then have t: "t = Suc u"
      using nn by (simp add: u_def nat_add_distrib)
    then obtain st1 where st1: "fill L C (nat ?e) k st = Inr st1" "fill L C (u * nat ?e) (k + nat ?e) st1 = Inr st'"
      using Suc.prems(6) by (auto simp: fill_add bindO_eq_Inr)
    obtain W1 where W1: "write_turn L C n ?W = Inr W1" "at_pos (k + nat ?e) n d st1 W1" "ws_duration W1 = ws_duration ?W"
      using write_turn_plain [OF assms(1) W(1) _ i(1) W(2) _ st1(1)] False assms(2) by auto
    have "int (k + nat ?e) \<le> n" "run_for n (k + nat ?e) (ws_duration W1)" "u < fuel"
      using False W(2) W1(3) Suc.prems(5) t assms(2) by simp_all
    from Suc.IH [OF W1(2) this(1,2) u_def this(3) st1(2)]
    obtain W' where "write_loop L C n fuel W1 = Inr W'" "at_pos (k + nat ?e + u * nat ?e) n d st' W'"
      by blast
    then show ?thesis
      using False D W1(1) t by (simp add: Let_def add.assoc)
  qed
qed simp

lemma sint_of_int64: "in_i64 n \<Longrightarrow> sint (of_int n :: u64) = n"
  by (simp add: sint_sbintrunc' signed_take_bit_int_eq_self_iff in_i64_def)

lemma write_setup_plain:
  assumes "plain_write C" and "num_ops_of C = n" and "in_i64 n" and "0 < n"
    and "db (bdb (ws_dbs W)) = Some d" and "s_reporter (ws_stats W) \<noteq> None"
  shows "\<exists>W'. write_setup L C gen strings overwriter W = Inr W' \<and>
    at_pos 0 n d (ws_master W, gen, AllocateKey (wc_keys C)) W' \<and> run_for n 0 (ws_duration W')"
proof -
  have "flags_accepted C"
    using assms(1) by (simp add: flags_accepted_def plain_write_def)
  moreover have "stage_length C n = Inr n"
    using assms(1) by (simp add: stage_length_def plain_write_def)
  moreover obtain r where "s_reporter (ws_stats W) = Some r"
    using assms(6) by blast
  ultimately show ?thesis
    using assms(1-5) sint_of_int64 [OF assms(3)]
    by (simp add: write_setup_def Duration_new_def KeyGenerator_new_def AddMessage_def at_pos_def run_for_def
        plain_write_def Let_def split_beta)
qed

lemma DoWrite_plain:
  assumes "plain_write C" and "num_ops_of C = n" and "0 < n" and "0 < wc_entries_per_batch C"
    and "in_i64 (n + wc_entries_per_batch C)" and "(of_int (wc_num C + wc_max_tombstones C) :: u64) \<noteq> 0"
    and "db (bdb (ws_dbs W)) = Some d" and "s_reporter (ws_stats W) \<noteq> None" and "nat n < fuel"
    and "fill L C (nat (n div wc_entries_per_batch C) * nat (wc_entries_per_batch C)) 0
      (ws_master W, gen, AllocateKey (wc_keys C)) = Inr (M', G', buf')"
  shows "\<exists>W'. DoWrite L C gen strings overwriter fuel W = Inr W' \<and>
    at_pos (nat (n div wc_entries_per_batch C) * nat (wc_entries_per_batch C)) n d (M', G', buf') W'"
proof -
  let ?e = "wc_entries_per_batch C"
  have "in_i64 n"
    using assms(3-5) by (auto simp: in_i64_def)
  then obtain W1 where W1: "write_setup L C gen strings overwriter W = Inr W1"
    "at_pos 0 n d (ws_master W, gen, AllocateKey (wc_keys C)) W1" "run_for n 0 (ws_duration W1)"
    using write_setup_plain [OF assms(1,2) _ assms(3,7,8)] by blast
  have "nat (n div ?e) \<le> nat n"
    using assms(3,4) by (simp add: nat_div_distrib)
  then have t: "nat (n div ?e) = nat ((n - int 0) div ?e)" "nat (n div ?e) < fuel"
    using assms(9) by simp_all
  have "int 0 \<le> n"
    using assms(3) by simp
  from write_loop_plain [OF assms(1,4,5) W1(2) this W1(3) t(1,2) assms(10)]
  obtain W' where "write_loop L C n fuel W1 = Inr W'" "at_pos (nat (n div ?e) * nat ?e) n d (M', G', buf') W'"
    by auto
  then show ?thesis
    using W1(1) assms(2,6) by (simp add: DoWrite_def at_pos_def AddBytes_def)
qed

text \<open>
  Claim C11 (refinement).  A sequential load in its plain configuration does what it promises: in batches of
  \<open>e\<close> it puts the keys 0, 1, 2 and so on, each once and in order, \<open>n div e * e\<close> of them, through
  \<open>DB_MASTER::Put\<close>, and ends.  Whether a put succeeded has no influence.
\<close>

theorem DoWrite_sequential:
  assumes "plain_write C" and "num_ops_of C = n" and "0 < n" and "0 < wc_entries_per_batch C"
    and "in_i64 (n + wc_entries_per_batch C)" and "(of_int (wc_num C + wc_max_tombstones C) :: u64) \<noteq> 0"
    and "db (bdb (ws_dbs W)) \<noteq> None" and "s_reporter (ws_stats W) \<noteq> None" and "nat n < fuel"
    and "fill L C (nat (n div wc_entries_per_batch C) * nat (wc_entries_per_batch C)) 0
      (ws_master W, gen, AllocateKey (wc_keys C)) = Inr (M', G', buf')"
  shows "\<exists>W'. DoWrite L C gen strings overwriter fuel W = Inr W' \<and> ws_master W' = M' \<and> ws_values W' = G' \<and>
    ws_written W' = n div wc_entries_per_batch C * wc_entries_per_batch C"
proof -
  have "0 \<le> n div wc_entries_per_batch C"
    using assms(3,4) by (simp add: pos_imp_zdiv_nonneg_iff)
  moreover obtain d where "db (bdb (ws_dbs W)) = Some d"
    using assms(7) by blast
  ultimately show ?thesis
    using DoWrite_plain [OF assms(1-6) _ assms(8-10), of d strings overwriter] assms(4) by (auto simp: at_pos_def)
qed

text \<open>A run of one write over a Main-LSM that is a list, with constant clock and random numbers.\<close>

definition sample_lib :: "(unit, nat, (bytes \<times> bytes) list, unit, unit, unit) wlib" where
  "sample_lib =
     \<lparr>l_rdb = list_rdb, l_murmur = (\<lambda>_. (0, 0)), l_os = ok_os, l_random = const_random, l_shuffle = (\<lambda>_ xs. xs),
      l_decide = (\<lambda>_ g. (False, g)), l_string = (\<lambda>n g. (replicate (nat n) 0, g)), l_sampler = low_sampler,
      l_now = (\<lambda>c. (0, c)), l_rand = (\<lambda>c. (1, c)), l_blob_put = (\<lambda>_ k v m. (OK, (k, v) # m)),
      l_delete = (\<lambda>k m. (OK, filter (\<lambda>(a, _). a \<noteq> k) m)), l_delete_range = (\<lambda>_ _ m. (OK, m)),
      l_create = (\<lambda>_ m. ((OK, Some 1), m)), l_update_ts = (\<lambda>_ _. OK),
      l_hist = \<lparr>h_new = (), h_add = (\<lambda>_ h. h), h_merge = (\<lambda>_ h. h)\<rparr>, l_recovers = (\<lambda>c. (False, c))\<rparr>"

definition one_write :: write_cfg where
  "one_write =
     \<lparr>wc_mode = SEQUENTIAL, wc_keys = four_byte_keys, wc_num = 1, wc_flags_num = 1, wc_writes = 0,
      wc_entries_per_batch = 1, wc_timestamp_size = 0, wc_overwrite_probability = 0, wc_overwrite_window = 1,
      wc_disp_batch = 0, wc_pers_batch = 0, wc_delete_delay = 0, wc_disp_value_size = 0, wc_pers_value_size = 0,
      wc_use_blob_db = False, wc_blob_ttl_range = 0, wc_num_cf = 1, wc_num_hot_cf = 0, wc_before_delete_range = 0,
      wc_writes_per_tombstone = 0, wc_max_tombstones = 0, wc_tombstone_width = 100, wc_expand_tombstones = False,
      wc_duration = 0, wc_granularity = 1000, wc_sine_write_rate = False, wc_sine_interval_ms = 0,
      wc_sine = (0, 0, 0, 0),
      wc_stats = \<lparr>fl_histogram = False, fl_stats_interval = 0, fl_stats_interval_seconds = 0, fl_progress_reports = False\<rparr>,
      wc_seed = 0\<rparr>"

definition byte_values :: "unit RandomGenerator" where
  "byte_values = \<lparr>gen_data = [7, 8, 9], gen_pos = 0, gen_dist = FixedDistribution 1, gen_state = ()\<rparr>"

definition idle_stats :: Stats where
  "idle_stats =
     \<lparr>s_id = 0, s_start = 0, sine_interval = 0, s_finish = 0, s_seconds = 0, s_done = 0, last_report_done = 0,
      next_report = 100, bytes_total = 0, last_op_finish = 0, last_report_finish = 0, s_hist = [], s_message = [],
      exclude_from_merge = False, s_reporter = Some False, status_h = 0\<rparr>"

definition write_start :: "(unit, nat, (bytes \<times> bytes) list, unit, unit, unit) wstate" where
  "write_start =
     \<lparr>ws_dbs = \<lparr>bdb = DBWithColumnFamilies_new\<lparr>cfh := [Some 0, Some 1], db := Some [], num_created := 2, num_hot := 2\<rparr>,
                multi_dbs = []\<rparr>,
      ws_master = started, ws_rand = (), ws_gens = [], ws_values = byte_values, ws_strings = (), ws_decider = (),
      ws_reservoir = (),
      ws_env = \<lparr>clk = (), cells = (\<lambda>_. ()), next_cell = 0,
                agent = \<lparr>total_ops_done = 0, last_report = 0, ra_stop = False, ra_rows = []\<rparr>\<rparr>,
      ws_stats = idle_stats, ws_limited = False, ws_timestamp = 0, ws_status = OK, ws_batch = [],
      ws_key = ralloc 0, ws_begin_key = ralloc 0, ws_end_key = ralloc 0, ws_expanded = [], ws_bytes = 0,
      ws_batch_bytes = 0, ws_window = [], ws_overwrites = 0, ws_unique = 0, ws_selective_deletes = 0, ws_skip = False,
      ws_disposable = True, ws_disp_index = [], ws_pers_index = [], ws_queue = [],
      ws_duration = \<lparr>max_seconds = 0, max_ops = 0, ops_per_stage = 0, d_ops = 0, start_at = 0\<rparr>, ws_stage = 0,
      ws_written = 0, ws_next_seq_db_at = 0, ws_id = 0, ws_range_deletions = 0\<rparr>"

lemma byte_values_first:
  "Generate low_sampler byte_values = Inr ([7], byte_values\<lparr>gen_pos := 1\<rparr>)"
  by (simp add: Generate_def dist_Generate_def byte_values_def Generate_len_def)

lemma first_key:
  "\<exists>buf. GenerateKeyFromInt four_byte_keys 0 1 (AllocateKey four_byte_keys) = Inr (key_bytes four_byte_keys 0 1, buf)"
  by (rule GenerateKeyFromInt_plain) (simp_all add: four_byte_keys_def valid_cfg_def AllocateKey_def)

theorem DoWrite_sequential_witness:
  "\<exists>W'. DoWrite sample_lib one_write byte_values () () 2 write_start = Inr W' \<and> ws_written W' = 1 \<and>
     dbptr (ws_master W') = Some [(key_bytes four_byte_keys 0 1, [7])]"
proof -
  let ?k = "key_bytes four_byte_keys 0 1"
  obtain buf where k: "GenerateKeyFromInt four_byte_keys 0 1 (AllocateKey four_byte_keys) = Inr (?k, buf)"
    using first_key by blast
  have "master_Put list_rdb (\<lambda>_. (0, 0)) ok_os ?k [7] started = Inr (OK, started\<lparr>dbptr := Some [(?k, [7])]\<rparr>)"
    using main_put_ok [OF started_simps(1), of list_rdb ?k "[7]"] started_simps(2,4)
    by (simp add: master_Put_def) (simp add: list_rdb_def)
  then have "fill sample_lib one_write (nat (1 div wc_entries_per_batch one_write) * nat (wc_entries_per_batch one_write)) 0
      (ws_master write_start, byte_values, AllocateKey (wc_keys one_write)) =
      Inr (started\<lparr>dbptr := Some [(?k, [7])]\<rparr>, byte_values\<lparr>gen_pos := 1\<rparr>, buf)"
    using k byte_values_first by (simp add: fill_step_def sample_lib_def one_write_def write_start_def)
  from DoWrite_sequential [OF _ _ _ _ _ _ _ _ _ this, of 2 "()" "()"] show ?thesis
    by (auto simp: plain_write_def num_disp_pers_def num_ops_of_def one_write_def write_start_def idle_stats_def in_i64_def)
qed

section \<open>The second batch of disposable entries\<close>

text \<open>The indices at which a run of \<open>n\<close> disposable entries fetches its numbers, and the index after it.\<close>

fun disposable_run :: "write_cfg \<Rightarrow> nat \<Rightarrow> u64 \<Rightarrow> (u64 list \<times> u64) outcome" where
  "disposable_run C 0 idx = Inr ([], idx)"
| "disposable_run C (Suc n) idx =
     bindO (next_disp_index C idx) (\<lambda>j. bindO (disposable_run C n j) (\<lambda>(xs, k). Inr (idx # xs, k)))"

text \<open>
  With batches of 10 disposable and 3 persistent entries the first job covers indices 0 to 12, as meant.
  The second batch jumps too early: the index is reduced by the disposable size, while a batch spans both.
  Its job, from 13, takes 23 to 25 for persistent, which were written as disposable, and will delete 20 to
  22, which were not written.
\<close>

lemma disposable_batches:
  assumes "wc_disp_batch C = 10" and "wc_pers_batch C = 3"
  shows "disposable_run C 10 0 = Inr ([0, 1, 2, 3, 4, 5, 6, 7, 8, 9], 13)"
    and "disposable_run C 10 13 = Inr ([13, 14, 15, 16, 17, 18, 19, 23, 24, 25], 26)"
    and "13 mod num_disp_pers C = 0" and "26 mod num_disp_pers C = 0"
proof -
  have n: "next_disp_index C i = Inr (if (i + 1) mod 10 = 0 then i + 1 + 3 else i + 1)" for i
    by (simp add: next_disp_index_def assms Let_def)
  have ten: "10 = Suc (Suc (Suc (Suc (Suc (Suc (Suc (Suc (Suc (Suc 0)))))))))"
    by simp
  show "disposable_run C 10 0 = Inr ([0, 1, 2, 3, 4, 5, 6, 7, 8, 9], 13)"
    unfolding ten by (simp add: n)
  show "disposable_run C 10 13 = Inr ([13, 14, 15, 16, 17, 18, 19, 23, 24, 25], 26)"
    unfolding ten by (simp add: n)
  show "13 mod num_disp_pers C = 0" "26 mod num_disp_pers C = 0"
    by (simp_all add: num_disp_pers_def assms)
qed

section \<open>With column families nothing is written\<close>

text \<open>What the databases hold, seen through a function that creating a family does not change.\<close>

definition view_dbs :: "('m \<Rightarrow> 'v) \<Rightarrow> ('h, 'm) bench_dbs \<Rightarrow> 'v option \<times> 'v option list" where
  "view_dbs view B = (map_option view (db (bdb B)), map (\<lambda>d. map_option view (db d)) (multi_dbs B))"

definition untouched ::
  "('m \<Rightarrow> 'v) \<Rightarrow> ('g, 'h, 'm, 'c, 'q, 'w) wstate \<Rightarrow> ('g, 'h, 'm, 'c, 'q, 'w) wstate \<Rightarrow> bool" where
  "untouched view W W' \<longleftrightarrow> ws_master W' = ws_master W \<and> view_dbs view (ws_dbs W') = view_dbs view (ws_dbs W)"

lemma untouched_refl [simp]: "untouched view W W"
  by (simp add: untouched_def)

lemma untouched_trans [trans]: "untouched view W V \<Longrightarrow> untouched view V U \<Longrightarrow> untouched view W U"
  by (simp add: untouched_def)

lemma next_number_untouched: "next_number L W = Inr (x, W') \<Longrightarrow> ws_master W' = ws_master W \<and> ws_dbs W' = ws_dbs W"
  by (auto simp: next_number_def bindO_eq_Inr)

lemma read_clock_untouched: "read_clock L W = (t, W') \<Longrightarrow> ws_master W' = ws_master W \<and> ws_dbs W' = ws_dbs W"
  by (auto simp: read_clock_def split_beta Let_def)

lemma delete_disposable_untouched:
  "delete_disposable C i x W = Inr W' \<Longrightarrow> ws_master W' = ws_master W \<and> ws_dbs W' = ws_dbs W"
  by (auto simp: delete_disposable_def write_key_def bindO_eq_Inr Let_def)

lemma job_entry_untouched: "job_entry C i W = Inr (x, W') \<Longrightarrow> ws_master W' = ws_master W \<and> ws_dbs W' = ws_dbs W"
  by (auto simp: job_entry_def bindO_eq_Inr Let_def split: if_splits dest!: delete_disposable_untouched)

lemma finish_job_untouched [simp]:
  "ws_master (finish_job L C W) = ws_master W" "ws_dbs (finish_job L C W) = ws_dbs W"
  by (simp_all add: finish_job_def read_clock_def Let_def split_beta)

lemma fresh_in_window_untouched:
  "fresh_in_window L C W = Inr (x, W') \<Longrightarrow> ws_master W' = ws_master W \<and> ws_dbs W' = ws_dbs W"
  by (auto simp: fresh_in_window_def bindO_eq_Inr dest!: next_number_untouched)

lemma overwrite_or_fresh_untouched:
  "overwrite_or_fresh L C W = Inr (x, W') \<Longrightarrow> ws_master W' = ws_master W \<and> ws_dbs W' = ws_dbs W"
  by (auto simp: overwrite_or_fresh_def Let_def split_beta split: if_splits dest!: fresh_in_window_untouched)

lemma new_disposable_untouched:
  "new_disposable C W = Inr (x, W') \<Longrightarrow> ws_master W' = ws_master W \<and> ws_dbs W' = ws_dbs W"
  by (auto simp: new_disposable_def bindO_eq_Inr Let_def)

lemma choose_key_untouched:
  assumes "choose_key L C i W = Inr (x, W')"
  shows "ws_master W' = ws_master W \<and> ws_dbs W' = ws_dbs W"
proof -
  have c: "ws_master (snd (read_clock L W)) = ws_master W \<and> ws_dbs (snd (read_clock L W)) = ws_dbs W"
    by (rule read_clock_untouched [of L W "fst (read_clock L W)"]) simp
  then show ?thesis
    using assms
    by (auto simp: choose_key_def disposable_job_def bindO_eq_Inr Let_def split_beta split: if_splits
        dest!: job_entry_untouched overwrite_or_fresh_untouched new_disposable_untouched next_number_untouched)
qed

lemma put_entry_untouched:
  assumes "put_entry L C i x W = Inr W'" and "\<not> wc_use_blob_db C" and "1 < wc_num_cf C"
  shows "ws_master W' = ws_master W \<and> ws_dbs W' = ws_dbs W"
proof -
  have v: "make_value L C V = Inr (y, V') \<Longrightarrow> ws_master V' = ws_master V \<and> ws_dbs V' = ws_dbs V" for V V' y
    by (auto simp: make_value_def bindO_eq_Inr Let_def split_beta split: if_splits)
  have s: "store_value L C i x key y V = Inr V' \<Longrightarrow> ws_master V' = ws_master V \<and> ws_dbs V' = ws_dbs V" for V V' key y
    using assms(2,3) by (auto simp: store_value_def bindO_eq_Inr)
  show ?thesis
    using assms(1) by (auto simp: put_entry_def write_key_def bindO_eq_Inr Let_def dest!: v s)
qed

lemma expand_tombstone_untouched:
  assumes "\<not> wc_use_blob_db C" and "expand_tombstone L C i x b offs W = Inr W'"
  shows "ws_master W' = ws_master W \<and> ws_dbs W' = ws_dbs W"
  using assms(2)
proof (induction offs arbitrary: W)
  case (Cons off offs)
  show ?case
    using Cons.prems assms(1) by (auto simp: bindO_eq_Inr Let_def dest!: Cons.IH)
qed simp

lemma range_tombstone_untouched:
  assumes "range_tombstone L C i x W = Inr W'" and "\<not> wc_use_blob_db C"
  shows "ws_master W' = ws_master W \<and> ws_dbs W' = ws_dbs W"
  using assms
  by (auto simp: range_tombstone_def bindO_eq_Inr Let_def split: if_splits
      dest!: next_number_untouched expand_tombstone_untouched [OF assms(2)])

lemma write_entry_untouched:
  assumes "write_entry L C i W = Inr W'" and "\<not> wc_use_blob_db C" and "1 < wc_num_cf C"
  shows "ws_master W' = ws_master W \<and> ws_dbs W' = ws_dbs W"
proof -
  have s: "ws_master (schedule_job L C V) = ws_master V" "ws_dbs (schedule_job L C V) = ws_dbs V" for V
    by (simp_all add: schedule_job_def read_clock_def Let_def split_beta)
  show ?thesis
    using assms(1) s
    by (auto simp: write_entry_def bindO_eq_Inr Let_def split: option.splits if_splits
        dest!: choose_key_untouched put_entry_untouched [OF _ assms(2,3)] range_tombstone_untouched [OF _ assms(2)])
qed

lemma write_entries_untouched:
  assumes "write_entries L C i j W = Inr W'" and "\<not> wc_use_blob_db C" and "1 < wc_num_cf C"
  shows "ws_master W' = ws_master W \<and> ws_dbs W' = ws_dbs W"
  using assms(1)
  by (induction j arbitrary: W) (auto simp: bindO_eq_Inr dest!: write_entry_untouched [OF _ assms(2,3)])

lemma create_families_view:
  assumes "\<forall>n m. view (snd (create n m)) = view m" and "create_families create js hs m = Inr (hs', m')"
  shows "view m' = view m"
  using assms(2)
proof (induction js arbitrary: hs m)
  case (Cons i js)
  obtain st h m1 where c: "create (ColumnFamilyName i) m = ((st, h), m1)"
    by (metis prod.collapse)
  then have "view m1 = view m"
    using assms(1) by (metis snd_conv)
  then show ?case
    using Cons c by (auto split: if_splits)
qed simp

lemma CreateNewCf_view:
  assumes "\<forall>n m. view (snd (create n m)) = view m" and "CreateNewCf create stage d = Inr d'"
  shows "map_option view (db d') = map_option view (db d)"
  using assms(2) create_families_view [OF assms(1)]
  by (auto simp: CreateNewCf_def bindO_eq_Inr Let_def split: if_splits)

lemma create_all_view:
  assumes "\<forall>n m. view (snd (l_create L n m)) = view m" and "create_all L stage ds = Inr ds'"
  shows "map (\<lambda>d. map_option view (db d)) ds' = map (\<lambda>d. map_option view (db d)) ds"
  using assms(2)
  by (induction ds arbitrary: ds') (auto simp: bindO_eq_Inr dest!: CreateNewCf_view [OF assms(1)])

lemma enter_stage_untouched:
  assumes "\<forall>n m. view (snd (l_create L n m)) = view m" and "enter_stage L W = Inr W'"
  shows "untouched view W W'"
  using assms(2)
  by (auto simp: enter_stage_def bindO_eq_Inr Let_def untouched_def view_dbs_def split: if_splits
      dest!: CreateNewCf_view [OF assms(1)] create_all_view [OF assms(1)])

lemma pick_generator_untouched:
  "pick_generator L C n W = Inr W' \<Longrightarrow> ws_master W' = ws_master W \<and> ws_dbs W' = ws_dbs W"
  by (auto simp: pick_generator_def Let_def split_beta split: if_splits)

lemma finish_batch_untouched:
  assumes "finish_batch L C i W = Inr W'"
  shows "ws_master W' = ws_master W \<and> ws_dbs W' = ws_dbs W"
proof -
  have a: "adapt_rate L C V = Inr V' \<Longrightarrow> ws_master V' = ws_master V \<and> ws_dbs V' = ws_dbs V" for V V'
    by (auto simp: adapt_rate_def read_clock_def bindO_eq_Inr Let_def split_beta split: if_splits)
  define V where "V = (if ws_limited W
    then let (S, c) = ResetLastOpTime (l_now L) (ws_stats W) (clk (ws_env W))
         in W\<lparr>ws_stats := S, ws_env := (ws_env W)\<lparr>clk := c\<rparr>\<rparr> else W)"
  have V: "ws_master V = ws_master W" "ws_dbs V = ws_dbs W"
    by (simp_all add: V_def Let_def split_beta)
  obtain V1 S E V2 where
    1: "(if 0 < wc_timestamp_size C
         then let (ts, clock) = Allocate (ws_timestamp V); s = l_update_ts L ts (ws_batch V);
                  W = V\<lparr>ws_timestamp := clock, ws_status := s\<rparr>
              in if s \<noteq> OK then Inl Process_Exit else Inr W
         else Inr V) = Inr V1"
    and 2: "(if wc_sine_write_rate C then adapt_rate L C (V1\<lparr>ws_stats := S, ws_env := E\<rparr>)
             else Inr (V1\<lparr>ws_stats := S, ws_env := E\<rparr>)) = Inr V2"
    and 3: "(if ws_status V2 = OK then Inr V2
             else let (b, c) = l_recovers L (clk (ws_env V2)); W = V2\<lparr>ws_env := (ws_env V2)\<lparr>clk := c\<rparr>\<rparr>
                  in if b then Inr (W\<lparr>ws_status := OK\<rparr>) else Inl Process_Exit) = Inr W'"
    using assms unfolding finish_batch_def V_def [symmetric] Let_def [of V] bindO_eq_Inr split_beta by blast
  have "ws_master V1 = ws_master V \<and> ws_dbs V1 = ws_dbs V"
    using 1 by (auto simp: Let_def split_beta split: if_splits)
  moreover have "ws_master V2 = ws_master V1 \<and> ws_dbs V2 = ws_dbs V1"
    using 2 by (auto split: if_splits dest!: a)
  moreover have "ws_master W' = ws_master V2 \<and> ws_dbs W' = ws_dbs V2"
    using 3 by (auto simp: Let_def split_beta split: if_splits)
  ultimately show ?thesis
    using V by simp
qed

lemma write_turn_untouched:
  assumes "\<forall>n m. view (snd (l_create L n m)) = view m" and "\<not> wc_use_blob_db C" and "1 < wc_num_cf C"
    and "write_turn L C n W = Inr W'"
  shows "untouched view W W'"
proof -
  obtain W1 W2 i W3 where s: "enter_stage L W = Inr W1" "pick_generator L C n W1 = Inr W2"
    "write_entries L C i (nat (wc_entries_per_batch C)) (W2\<lparr>ws_batch := [], ws_batch_bytes := 0\<rparr>) = Inr W3"
    "finish_batch L C i W3 = Inr W'"
    using assms(4) by (auto simp: write_turn_def bindO_eq_Inr)
  show ?thesis
    using enter_stage_untouched [OF assms(1) s(1)] pick_generator_untouched [OF s(2)]
      write_entries_untouched [OF s(3) assms(2,3)] finish_batch_untouched [OF s(4)]
    by (simp add: untouched_def)
qed

lemma write_loop_untouched:
  assumes "\<forall>n m. view (snd (l_create L n m)) = view m" and "\<not> wc_use_blob_db C" and "1 < wc_num_cf C"
    and "write_loop L C n fuel W = Inr W'"
  shows "untouched view W W'"
  using assms(4)
proof (induction fuel arbitrary: W)
  case (Suc fuel)
  then obtain D c where c: "W' = W\<lparr>ws_duration := D, ws_env := (ws_env W)\<lparr>clk := c\<rparr>\<rparr> \<or>
      (\<exists>V. write_turn L C n (W\<lparr>ws_duration := D, ws_env := (ws_env W)\<lparr>clk := c\<rparr>\<rparr>) = Inr V \<and> write_loop L C n fuel V = Inr W')"
    by (auto simp: bindO_eq_Inr Let_def split: if_splits)
  then show ?case
    using Suc.IH write_turn_untouched [OF assms(1-3)] by (fastforce simp: untouched_def)
qed simp

text \<open>
  Claim C12 (safety).  With more than one column family the write benchmarks store nothing: every put goes
  into a batch, the call that would write the batch is commented out, and so neither \<open>DB_MASTER\<close> nor what
  the databases hold has changed when the benchmark ends.
\<close>

theorem DoWrite_families_lost:
  assumes "\<forall>n m. view (snd (l_create L n m)) = view m" and "\<not> wc_use_blob_db C" and "1 < wc_num_cf C"
    and "DoWrite L C gen strings overwriter fuel W = Inr W'"
  shows "ws_master W' = ws_master W \<and> view_dbs view (ws_dbs W') = view_dbs view (ws_dbs W)"
proof -
  obtain V U where s: "write_setup L C gen strings overwriter W = Inr V"
    "V = U \<or> write_loop L C (num_ops_of C) fuel V = Inr U" "W' = U\<lparr>ws_stats := AddBytes (ws_bytes U) (ws_stats U)\<rparr>"
    using assms(4) by (auto simp: DoWrite_def bindO_eq_Inr split: if_splits)
  have "ws_master V = ws_master W \<and> ws_dbs V = ws_dbs W"
    using s(1) by (auto simp: write_setup_def bindO_eq_Inr Let_def split_beta split: if_splits)
  moreover have "untouched view V U"
    using s(2) write_loop_untouched [OF assms(1-3)] by auto
  ultimately show ?thesis
    using s(3) by (simp add: untouched_def)
qed

theorem DoWrite_families_lost_witness:
  "\<exists>W'. DoWrite sample_lib (one_write\<lparr>wc_num_cf := 2\<rparr>) byte_values () () 2 write_start = Inr W' \<and>
     ws_written W' = 1 \<and> ws_master W' = started \<and> db (bdb (ws_dbs W')) = Some []"
proof -
  obtain buf where k: "GenerateKeyFromInt four_byte_keys 0 1 (AllocateKey four_byte_keys) =
      Inr (key_bytes four_byte_keys 0 1, buf)"
    using first_key by blast
  let ?C = "one_write\<lparr>wc_num_cf := 2\<rparr>"
  have "\<exists>W'. DoWrite sample_lib ?C byte_values () () 2 write_start = Inr W' \<and> ws_written W' = 1"
    using k byte_values_first
    by (simp add: DoWrite_def write_setup_def numeral_2_eq_2 write_turn_def enter_stage_def pick_generator_def
        finish_batch_def FinishedOps_def write_entry_def choose_key_def next_number_def Next_def put_entry_def
        write_key_def make_value_def store_value_def schedule_job_def tombstone_due_def Done_def GetStage_def
        SelectDBWithCfh_def selected_def GetCfh_def at_index_def KeyGenerator_new_def Duration_new_def num_disp_pers_def
        stage_length_def num_ops_of_def flags_accepted_def overwrite_p_def i64_def in_i64_def
        sample_lib_def one_write_def write_start_def idle_stats_def DBWithColumnFamilies_new_def Let_def)
  then obtain W' where W': "DoWrite sample_lib ?C byte_values () () 2 write_start = Inr W'" "ws_written W' = 1"
    by blast
  from DoWrite_families_lost [of "\<lambda>m. m", OF _ _ _ W'(1)] show ?thesis
    using W' by (simp add: sample_lib_def one_write_def write_start_def view_dbs_def)
qed

end
