(* ===== verification/Bench_Thread.thy ===== *)
theory Bench_Thread
  imports Bench_Write
begin

text \<open>
  What the benchmarks of \<open>db_bench_tool.cc\<close> share: the state of a thread, the choice of a database, the count
  of finished operations and the loop over a \<open>Duration\<close>.  The locale \<open>counted_body\<close> is the contract between
  that loop and a benchmark's body.
\<close>

section \<open>Threads and loops\<close>

record ('g, 'h, 'm, 'c, 'q, 'w) bench_thread =
  th_dbs :: "('h, 'm) bench_dbs"
  th_master :: "('w, 'm) master"
  th_rand :: 'g
  th_env :: "('q, 'c) shared"
  th_stats :: Stats
  th_timestamp :: u64
  th_duration :: Duration

text \<open>
  What the benchmarks call besides the libraries of the write benchmarks: RocksDB's iterators under the
  bounds of the read options, and \<open>GetMergeOperands\<close>, which fills the caller's slices (here their sizes) and
  tells the number of operands and whether there were more than slices.
\<close>

record ('g, 'h, 'm, 'c, 'q, 'w, 'i) rlib = "('g, 'h, 'm, 'c, 'q, 'w) wlib" +
  l_iter :: "bytes option \<times> bytes option \<Rightarrow> ('m, 'i) rocks_iter"
  l_operands :: "'h option option \<Rightarrow> bytes \<Rightarrow> nat list \<Rightarrow> 'm \<Rightarrow> (Status \<times> bool) \<times> nat \<times> nat list"

fun bench_loop ::
  "'c clock \<Rightarrow> int \<Rightarrow> int \<Rightarrow>
   (('g, 'h, 'm, 'c, 'q, 'w, 'z) bench_thread_scheme \<Rightarrow> ('g, 'h, 'm, 'c, 'q, 'w, 'z) bench_thread_scheme outcome) \<Rightarrow> nat \<Rightarrow>
   ('g, 'h, 'm, 'c, 'q, 'w, 'z) bench_thread_scheme \<Rightarrow> ('g, 'h, 'm, 'c, 'q, 'w, 'z) bench_thread_scheme outcome" where
  "bench_loop now granularity k body 0 T = Inl Out_Of_Fuel"
| "bench_loop now granularity k body (Suc fuel) T =
     bindO (Done now granularity k (th_duration T) (clk (th_env T))) (\<lambda>(b, D, c).
       let T = T\<lparr>th_duration := D, th_env := (th_env T)\<lparr>clk := c\<rparr>\<rparr>
       in if b then Inr T else bindO (body T) (bench_loop now granularity k body fuel))"

text \<open>\<open>SelectDBWithCfh (thread)\<close>, which draws a number in any case.\<close>

definition select_db ::
  "'g random64 \<Rightarrow> ('g, 'h, 'm, 'c, 'q, 'w, 'z) bench_thread_scheme \<Rightarrow>
   (nat option \<times> ('g, 'h, 'm, 'c, 'q, 'w, 'z) bench_thread_scheme) outcome" where
  "select_db R T =
     (let (x, rand) = r64_next R (th_rand T)
      in bindO (SelectDBWithCfh x (th_dbs T)) (\<lambda>i. Inr (i, T\<lparr>th_rand := rand\<rparr>)))"

definition finished ::
  "('g, 'h, 'm, 'c, 'q, 'w, 'y) wlib_scheme \<Rightarrow> stats_flags \<Rightarrow> 'm option \<Rightarrow> int \<Rightarrow> OperationType \<Rightarrow>
   ('g, 'h, 'm, 'c, 'q, 'w, 'z) bench_thread_scheme \<Rightarrow> ('g, 'h, 'm, 'c, 'q, 'w, 'z) bench_thread_scheme outcome" where
  "finished L F dbp n op T =
     bindO (FinishedOps (l_rdb L) (l_hist L) (l_now L) F dbp n op (th_stats T) (th_env T)) (\<lambda>(S, E).
       Inr (T\<lparr>th_stats := S, th_env := E\<rparr>))"

definition read_timestamp ::
  "'g random64 \<Rightarrow> int \<Rightarrow> bool \<Rightarrow> ('g, 'h, 'm, 'c, 'q, 'w, 'z) bench_thread_scheme \<Rightarrow>
   ('g, 'h, 'm, 'c, 'q, 'w, 'z) bench_thread_scheme outcome" where
  "read_timestamp R width with_latest T =
     (if 0 < width
      then bindO (GetTimestampForRead with_latest (r64_next R) (th_rand T) (th_timestamp T)) (\<lambda>(_, rand, clock).
             Inr (T\<lparr>th_rand := rand, th_timestamp := clock\<rparr>))
      else Inr T)"

definition found_message :: "int \<Rightarrow> int \<Rightarrow> bytes" where
  "found_message found read =
     bytes_of ''('' @ to_string (unat (of_int found :: u64)) @ bytes_of '' of '' @ to_string (unat (of_int read :: u64)) @
     bytes_of '' found)'' @ [10]"

section \<open>Drawn numbers\<close>

text \<open>
  The numbers that \<open>n\<close> turns draw with \<open>GetRandomKey\<close>, each turn drawing once before to select a database, and the
  random engine after them.
\<close>

fun read_draws :: "'g random64 \<Rightarrow> int \<Rightarrow> nat \<Rightarrow> 'g \<Rightarrow> int list \<times> 'g" where
  "read_draws R num 0 g = ([], g)"
| "read_draws R num (Suc n) g =
     (let (xs, g) = read_draws R num n g; (_, g) = r64_next R g; (x, g) = r64_next R g
      in (xs @ [sint (x mod of_int num)], g))"

lemma sint_mod_range:
  assumes "0 < num" and "in_i64 num"
  shows "0 \<le> sint ((x :: u64) mod of_int num)" and "sint (x mod of_int num) < num"
proof -
  have n: "uint (of_int num :: u64) = num"
    using assms by (simp add: in_i64_def uint_word_of_int_eq take_bit_int_eq_self)
  have u: "uint (x mod of_int num) = uint x mod num"
    by (simp add: uint_mod n)
  have r: "0 \<le> uint x mod num" "uint x mod num < num"
    using assms(1) by simp_all
  then have "in_i64 (uint x mod num)"
    using assms(2) by (auto simp: in_i64_def)
  moreover have "x mod of_int num = of_int (uint x mod num)"
    using word_of_int_uint [of "x mod of_int num"] unfolding u by simp
  ultimately have "sint (x mod of_int num) = uint x mod num"
    using sint_of_int64 by simp
  then show "0 \<le> sint (x mod of_int num)" "sint (x mod of_int num) < num"
    using r by simp_all
qed

lemma read_draws_range:
  assumes "0 < num" and "in_i64 num"
  shows "\<forall>x\<in>set (fst (read_draws R num n g)). 0 \<le> x \<and> x < num"
  by (induction n) (use sint_mod_range [OF assms] in \<open>auto simp: Let_def split_beta\<close>)

lemma length_read_draws [simp]: "length (fst (read_draws R num n g)) = n"
  by (induction n) (simp_all add: Let_def split_beta)

lemma finished_plain:
  assumes "s_reporter (th_stats T) \<noteq> None" and "fl_stats_interval F = 0"
  shows "\<exists>S E. finished L F dbp n op T = Inr (T\<lparr>th_stats := S, th_env := E\<rparr>) \<and> s_reporter S \<noteq> None"
proof -
  obtain S E where "FinishedOps (l_rdb L) (l_hist L) (l_now L) F dbp n op (th_stats T) (th_env T) = Inr (S, E)"
    "s_reporter S = s_reporter (th_stats T)"
    using FinishedOps_plain [OF assms] by blast
  then have "finished L F dbp n op T = Inr (T\<lparr>th_stats := S, th_env := E\<rparr>) \<and> s_reporter S \<noteq> None"
    using assms(1) by (simp add: finished_def)
  then show ?thesis by blast
qed

section \<open>Counted loops\<close>

text \<open>
  A body that takes every state at position \<open>i\<close> to one at position \<open>i + 1\<close> and leaves the duration alone, and
  positions that do not depend on duration and clock.
\<close>

locale counted_body =
  fixes body :: "('g, 'h, 'm, 'c, 'q, 'w, 'z) bench_thread_scheme \<Rightarrow> ('g, 'h, 'm, 'c, 'q, 'w, 'z) bench_thread_scheme outcome"
    and pos :: "nat \<Rightarrow> ('g, 'h, 'm, 'c, 'q, 'w, 'z) bench_thread_scheme \<Rightarrow> bool"
  assumes body_step: "pos i T \<Longrightarrow> \<exists>T'. body T = Inr T' \<and> pos (Suc i) T' \<and> th_duration T' = th_duration T"
    and pos_clock: "pos i T \<Longrightarrow> pos i (T\<lparr>th_duration := D, th_env := (th_env T)\<lparr>clk := c\<rparr>\<rparr>)"
begin

lemma loop_from:
  assumes "pos i T" and "max_seconds (th_duration T) = 0" and "max_ops (th_duration T) = n" and "0 < k"
    and "d_ops (th_duration T) \<le> n" and "in_i64 (d_ops (th_duration T))" and "in_i64 (n + k)"
    and "t = nat ((n - d_ops (th_duration T)) div k)" and "t < fuel"
  shows "\<exists>T'. bench_loop now g k body fuel T = Inr T' \<and> pos (i + t) T'"
  using assms(1-3,5,6,8,9)
proof (induction fuel arbitrary: T i t)
  case (Suc fuel)
  let ?D = "th_duration T" and ?d = "d_ops (th_duration T)"
  have in64: "in_i64 (?d + k)"
    using assms(4,7) Suc.prems(4,5) by (auto simp: in_i64_def)
  have D: "Done now g k ?D c = Inr (n < ?d + k, ?D\<lparr>d_ops := ?d + k\<rparr>, c)" for c
    using Done_count [of ?D k now g c] Suc.prems(2,3) assms(4) in64 by simp
  let ?T = "T\<lparr>th_duration := ?D\<lparr>d_ops := ?d + k\<rparr>, th_env := (th_env T)\<lparr>clk := clk (th_env T)\<rparr>\<rparr>"
  have P: "pos i ?T"
    using Suc.prems(1) by (rule pos_clock)
  show ?case
  proof (cases "n < ?d + k")
    case True
    then have "t = 0"
      using Suc.prems(4,6) by (simp add: div_pos_pos_trivial)
    then show ?thesis
      using True D P by (simp add: Let_def)
  next
    case False
    obtain T1 where T1: "body ?T = Inr T1" "pos (Suc i) T1" "th_duration T1 = th_duration ?T"
      using body_step [OF P] by blast
    define u where "u = nat ((n - (?d + k)) div k)"
    have "(n - ?d) div k = (n - (?d + k)) div k + 1"
      using assms(4) div_add_self2 [of k "n - (?d + k)"] by (simp add: algebra_simps)
    moreover have "0 \<le> (n - (?d + k)) div k"
      using False assms(4) by (simp add: pos_imp_zdiv_nonneg_iff)
    ultimately have t: "t = Suc u"
      using Suc.prems(6) by (simp add: u_def nat_add_distrib)
    obtain T' where "bench_loop now g k body fuel T1 = Inr T'" "pos (Suc i + u) T'"
      using Suc.IH [OF T1(2), of u] T1(3) Suc.prems(2,3,7) False in64 t by (auto simp: u_def)
    then show ?thesis
      using False D T1(1) t by (simp add: Let_def)
  qed
qed simp

text \<open>The loop as the benchmarks enter it, with a fresh duration of \<open>n\<close> operations and no time limit.\<close>

lemma loop_runs:
  assumes "pos 0 T" and "th_duration T = fst (Duration_new now 0 n per_stage c)" and "0 \<le> n" and "0 < k"
    and "in_i64 (n + k)" and "nat n < fuel"
  shows "\<exists>T'. bench_loop now g k body fuel T = Inr T' \<and> pos (nat (n div k)) T'"
proof -
  have d: "max_seconds (th_duration T) = 0" "max_ops (th_duration T) = n" "d_ops (th_duration T) = 0"
    using assms(2) by (simp_all add: Duration_new_def split_beta)
  have "nat (n div k) \<le> nat n"
    using assms(3,4) by (simp add: nat_div_distrib)
  then show ?thesis
    using loop_from [OF assms(1) d(1,2) assms(4), of "nat (n div k)" fuel now g] d(3) assms(3,5,6)
    by (simp add: in_i64_def)
qed

end

section \<open>Loads\<close>

text \<open>A load succeeds when every put does, and afterwards the Main-LSM has the keys put and those it had.\<close>

lemma fill_loads:
  assumes "valid_cfg (wc_keys C)" and "keys_per_prefix (wc_keys C) \<le> 0" and "uniform_laws (l_sampler L)"
    and "main_laws (l_rdb L)" and "\<forall>k v m. fst (rdb_put (l_rdb L) k v m) = OK"
    and "kache_flag M = 0" and "monitor_L0_status_arr M \<noteq> LEVEL_HIGH" and "dbptr M = Some m"
    and "gen_inv G" and "rsize buf = nat (key_size (wc_keys C))"
  shows "\<exists>M' G' buf' m'. fill L C n k (M, G, buf) = Inr (M', G', buf') \<and> kache_flag M' = 0 \<and> dbptr M' = Some m' \<and>
    num_instances M' = num_instances M \<and>
    {x. fst (rdb_get (l_rdb L) x m') = OK} = {x. fst (rdb_get (l_rdb L) x m) = OK} \<union>
      (\<lambda>j. key_bytes (wc_keys C) (of_nat j) (wc_flags_num C)) ` {k..<k + n}"
  using assms(6-10)
proof (induction n arbitrary: k M G buf m)
  case (Suc n)
  let ?rdb = "l_rdb L" and ?key = "key_bytes (wc_keys C) (of_nat k) (wc_flags_num C)"
  obtain buf1 where b: "GenerateKeyFromInt (wc_keys C) (of_nat k) (wc_flags_num C) buf = Inr (?key, buf1)"
    "rsize buf1 = nat (key_size (wc_keys C))"
    using GenerateKeyFromInt_layout [OF assms(1) Suc.prems(5)] assms(2) by force
  obtain v G1 where v: "Generate (l_sampler L) G = Inr (v, G1)" "gen_inv G1"
    using Generate_ok [OF assms(3) Suc.prems(4)] by blast
  define m1 where "m1 = snd (rdb_put ?rdb ?key v m)"
  have "master_Put ?rdb (l_murmur L) (l_os L) ?key v M = Inr (OK, M\<lparr>dbptr := Some m1\<rparr>)"
    using main_put_ok [OF Suc.prems(3)] assms(5) Suc.prems(1,2) by (simp add: master_Put_def m1_def)
  then have s: "fill_step L C k (M, G, buf) = Inr (M\<lparr>dbptr := Some m1\<rparr>, G1, buf1)"
    using b(1) v(1) by (simp add: fill_step_def)
  have g: "rdb_get ?rdb x m1 = (if x = ?key then (OK, v) else rdb_get ?rdb x m)" for x
    using assms(4,5) by (simp add: main_laws_def m1_def)
  let ?S = "\<lambda>m. {x. fst (rdb_get ?rdb x m) = OK}" and ?f = "\<lambda>j. key_bytes (wc_keys C) (of_nat j) (wc_flags_num C)"
  obtain M' G' buf' m' where r: "fill L C n (Suc k) (M\<lparr>dbptr := Some m1\<rparr>, G1, buf1) = Inr (M', G', buf')"
    "kache_flag M' = 0" "dbptr M' = Some m'" "num_instances M' = num_instances M"
    "?S m' = ?S m1 \<union> ?f ` {Suc k..<Suc k + n}"
    using Suc.IH [of "M\<lparr>dbptr := Some m1\<rparr>" m1 G1 buf1 "Suc k"] Suc.prems(1,2) v(2) b(2) by auto
  have "?S m1 = insert ?key (?S m)"
    using g by auto
  moreover have "{k..<k + Suc n} = insert k {Suc k..<Suc k + n}"
    by auto
  ultimately have "?S m' = ?S m \<union> ?f ` {k..<k + Suc n}"
    using r(5) by auto
  then show ?case
    using s r(1-4) by (intro exI [of _ M'] exI [of _ G'] exI [of _ buf'] exI [of _ m']) simp
qed auto

lemma load_runs:
  assumes "plain_write C" and "num_ops_of C = n" and "0 < n" and "0 < wc_entries_per_batch C"
    and "in_i64 (n + wc_entries_per_batch C)" and "(of_int (wc_num C + wc_max_tombstones C) :: u64) \<noteq> 0"
    and "db (bdb (ws_dbs W)) = Some d" and "s_reporter (ws_stats W) \<noteq> None" and "nat n < fuel"
    and "valid_cfg (wc_keys C)" and "keys_per_prefix (wc_keys C) \<le> 0" and "uniform_laws (l_sampler L)"
    and "main_laws (l_rdb L)" and "\<forall>k v m. fst (rdb_put (l_rdb L) k v m) = OK"
    and "kache_flag (ws_master W) = 0" and "monitor_L0_status_arr (ws_master W) \<noteq> LEVEL_HIGH"
    and "dbptr (ws_master W) = Some m" and "gen_inv gen"
  shows "\<exists>W' m'. DoWrite L C gen strings overwriter fuel W = Inr W' \<and> kache_flag (ws_master W') = 0 \<and>
    dbptr (ws_master W') = Some m' \<and> num_instances (ws_master W') = num_instances (ws_master W) \<and>
    db (bdb (ws_dbs W')) = Some d \<and>
    {x. fst (rdb_get (l_rdb L) x m') = OK} = {x. fst (rdb_get (l_rdb L) x m) = OK} \<union>
      (\<lambda>j. key_bytes (wc_keys C) (of_nat j) (wc_flags_num C)) `
        {0..<nat (n div wc_entries_per_batch C) * nat (wc_entries_per_batch C)}"
proof -
  let ?k = "nat (n div wc_entries_per_batch C) * nat (wc_entries_per_batch C)"
  have "rsize (AllocateKey (wc_keys C)) = nat (key_size (wc_keys C))"
    by (simp add: AllocateKey_def)
  from fill_loads [OF assms(10-18) this, of ?k 0] obtain M' G' buf' m' where
    f: "fill L C ?k 0 (ws_master W, gen, AllocateKey (wc_keys C)) = Inr (M', G', buf')" "kache_flag M' = 0" "dbptr M' = Some m'"
      "num_instances M' = num_instances (ws_master W)"
      "{x. fst (rdb_get (l_rdb L) x m') = OK} = {x. fst (rdb_get (l_rdb L) x m) = OK} \<union>
         (\<lambda>j. key_bytes (wc_keys C) (of_nat j) (wc_flags_num C)) ` {0..<0 + ?k}"
    by blast
  obtain W' where "DoWrite L C gen strings overwriter fuel W = Inr W'" "at_pos ?k n d (M', G', buf') W'"
    using DoWrite_plain [OF assms(1-9) f(1)] by blast
  then show ?thesis
    using f(2-5) by (intro exI [of _ W'] exI [of _ m']) (auto simp: at_pos_def)
qed

end
