(* ===== verification/Bench_Read.thy ===== *)
theory Bench_Read
  imports Bench_Thread
begin

text \<open>
  The read benchmarks that go through \<open>DB_MASTER\<close>: \<open>ReadRandom\<close> and \<open>SeekRandom\<close> of \<open>db_bench_tool.cc\<close>.
\<close>

section \<open>Random reads\<close>

record read_cfg =
  rc_keys :: key_cfg
  rc_num :: int
  rc_reads :: int
  rc_duration :: int
  rc_granularity :: int
  rc_entries_per_batch :: int
  rc_stride :: int
  rc_exp_range :: real
  rc_num_cf :: int
  rc_operands :: bool
  rc_timestamp_size :: int
  rc_latest :: bool
  rc_stats :: stats_flags

record ('g, 'h, 'm, 'c, 'q, 'w) rstate = "('g, 'h, 'm, 'c, 'q, 'w) bench_thread" +
  rs_key :: region
  rs_vals :: "nat list"
  rs_num_keys :: int
  rs_key_rand :: int
  rs_read :: int
  rs_found :: int
  rs_bytes :: int

text \<open>The next number: with a stride, batches of equidistant numbers from a random one on.\<close>

definition read_number ::
  "'g random64 \<Rightarrow> read_cfg \<Rightarrow> ('g, 'h, 'm, 'c, 'q, 'w) rstate \<Rightarrow> ('g, 'h, 'm, 'c, 'q, 'w) rstate outcome" where
  "read_number R C T =
     (if 1 < rc_entries_per_batch C \<and> rc_stride C \<noteq> 0
      then bindO (int_add (rs_num_keys T) 1) (\<lambda>k.
             if k = rc_entries_per_batch C
             then bindO (GetRandomKey R (rc_exp_range C) (rc_num C) (th_rand T)) (\<lambda>(x, rand).
                  bindO (i64 ((rc_entries_per_batch C - 1) * rc_stride C)) (\<lambda>span.
                  bindO (i64 (x + span)) (\<lambda>e.
                  bindO (if rc_num C \<le> e then bindO (i64 (rc_entries_per_batch C * rc_stride C)) (\<lambda>w. i64 (rc_num C - w))
                         else Inr x) (\<lambda>x.
                    Inr (T\<lparr>rs_num_keys := 0, rs_key_rand := x, th_rand := rand\<rparr>)))))
             else bindO (i64 (rs_key_rand T + rc_stride C)) (\<lambda>x. Inr (T\<lparr>rs_num_keys := k, rs_key_rand := x\<rparr>)))
      else bindO (GetRandomKey R (rc_exp_range C) (rc_num C) (th_rand T)) (\<lambda>(x, rand).
             Inr (T\<lparr>rs_key_rand := x, th_rand := rand\<rparr>)))"

text \<open>\<open>GetMergeOperands\<close>, once more with enough slices when there were too few.\<close>

definition merge_operands ::
  "('g, 'h, 'm, 'c, 'q, 'w, 'i) rlib \<Rightarrow> 'h option option \<Rightarrow> bytes \<Rightarrow> 'm \<Rightarrow> nat list \<Rightarrow> Status \<times> nat list" where
  "merge_operands L h key m vals =
     (let ((s, more), n, vals) = l_operands L h key vals m
      in if more
         then let ((s, _), _, vals) = l_operands L h key (take n vals @ replicate (n - length vals) 0) m in (s, vals)
         else (s, vals))"

text \<open>The status of the read and the bytes the value and the operands have.\<close>

definition fetch ::
  "('g, 'h, 'm, 'c, 'q, 'w, 'i) rlib \<Rightarrow> read_cfg \<Rightarrow> nat option \<Rightarrow> bytes \<Rightarrow> ('g, 'h, 'm, 'c, 'q, 'w) rstate \<Rightarrow>
   (Status \<times> int \<times> ('g, 'h, 'm, 'c, 'q, 'w) rstate) outcome" where
  "fetch L C i key T =
     (let d = selected (th_dbs T) i
      in bindO (if 1 < rc_num_cf C then bindO (GetCfh (rs_key_rand T) d) (\<lambda>h. Inr (Some h))
                else bindO (deref (db d)) (\<lambda>_. Inr None)) (\<lambda>h.
           if rc_operands C
           then bindO (deref (db d)) (\<lambda>m.
                  let (s, vals) = merge_operands L h key m (rs_vals T)
                  in Inr (s, int (sum_list vals), T\<lparr>rs_vals := vals\<rparr>))
           else bindO (master_Get (l_rdb L) (l_murmur L) (l_os L) key [] (th_master T)) (\<lambda>(s, v, M).
                  Inr (s, int (length v), T\<lparr>th_master := M\<rparr>))))"

definition read_turn ::
  "('g, 'h, 'm, 'c, 'q, 'w, 'i) rlib \<Rightarrow> read_cfg \<Rightarrow> ('g, 'h, 'm, 'c, 'q, 'w) rstate \<Rightarrow>
   ('g, 'h, 'm, 'c, 'q, 'w) rstate outcome" where
  "read_turn L C T =
     bindO (select_db (l_random L) T) (\<lambda>(i, T).
     bindO (read_number (l_random L) C T) (\<lambda>T.
     bindO (GenerateKeyFromInt (rc_keys C) (of_int (rs_key_rand T)) (rc_num C) (rs_key T)) (\<lambda>(key, buf).
     bindO (read_timestamp (l_random L) (rc_timestamp_size C) (rc_latest C) (T\<lparr>rs_key := buf, rs_read := rs_read T + 1\<rparr>)) (\<lambda>T.
     bindO (fetch L C i key (T\<lparr>rs_vals := map (\<lambda>_. 0) (rs_vals T)\<rparr>)) (\<lambda>(s, n, T).
     bindO (if s = OK
            then Inr (T\<lparr>rs_found := rs_found T + 1, rs_bytes := rs_bytes T + int (length key) + n + rc_timestamp_size C,
                        rs_vals := map (\<lambda>_. 0) (rs_vals T)\<rparr>)
            else if s = NotFound then Inr T else Inl Process_Abort) (\<lambda>T.
       finished L (rc_stats C) (db (selected (th_dbs T) i)) 1 kRead T))))))"

definition ReadRandom ::
  "('g, 'h, 'm, 'c, 'q, 'w, 'i) rlib \<Rightarrow> read_cfg \<Rightarrow> nat \<Rightarrow> ('g, 'h, 'm, 'c, 'q, 'w) bench_thread \<Rightarrow>
   ('g, 'h, 'm, 'c, 'q, 'w) rstate outcome" where
  "ReadRandom L C fuel T =
     (let (D, c) = Duration_new (l_now L) (of_int (rc_duration C)) (rc_reads C) 0 (clk (th_env T));
          T = bench_thread.extend (T\<lparr>th_duration := D, th_env := (th_env T)\<lparr>clk := c\<rparr>\<rparr>)
                (rstate.fields (AllocateKey (rc_keys C)) (if rc_operands C then replicate 8 0 else []) 0 0 0 0 0)
      in bindO (bench_loop (l_now L) (rc_granularity C) 1 (read_turn L C) fuel T) (\<lambda>T.
           Inr (T\<lparr>th_stats := AddMessage (found_message (rs_found T) (rs_read T)) (AddBytes (rs_bytes T) (th_stats T))\<rparr>)))"

section \<open>Random seeks\<close>

record seek_cfg =
  sc_num :: int
  sc_reads :: int
  sc_duration :: int
  sc_granularity :: int
  sc_seek_nexts :: int
  sc_max_scan_distance :: int
  sc_reverse :: bool
  sc_auto_prefix :: bool
  sc_prefix_extractor :: bool
  sc_tailing :: bool
  sc_timestamp_size :: int
  sc_latest :: bool
  sc_stats :: stats_flags

record ('g, 'h, 'm, 'c, 'q, 'w) sstate = "('g, 'h, 'm, 'c, 'q, 'w) bench_thread" +
  sk_cfg :: key_cfg
  sk_key :: region
  sk_lower :: region
  sk_upper :: region
  sk_read :: int
  sk_found :: int
  sk_bytes :: int

text \<open>
  The bounds of the scan, in buffers of their own: a distance from the seek position, or the next prefix,
  which is the key's prefix with its last byte increased.
\<close>

definition scan_bounds ::
  "seek_cfg \<Rightarrow> int \<Rightarrow> bytes \<Rightarrow> ('g, 'h, 'm, 'c, 'q, 'w) sstate \<Rightarrow>
   ((bytes option \<times> bytes option) \<times> ('g, 'h, 'm, 'c, 'q, 'w) sstate) outcome" where
  "scan_bounds C seek_pos key T =
     (if sc_max_scan_distance C \<noteq> 0
      then if sc_reverse C
           then bindO (i64 (seek_pos - sc_max_scan_distance C)) (\<lambda>x.
                bindO (GenerateKeyFromInt (sk_cfg T) (of_int (max 0 x)) (sc_num C) (sk_lower T)) (\<lambda>(b, buf).
                  Inr ((Some b, None), T\<lparr>sk_lower := buf\<rparr>)))
           else bindO (i64 (seek_pos + sc_max_scan_distance C)) (\<lambda>x.
                bindO (GenerateKeyFromInt (sk_cfg T) (of_int (min (sc_num C) x)) (sc_num C) (sk_upper T)) (\<lambda>(b, buf).
                  Inr ((None, Some b), T\<lparr>sk_upper := buf\<rparr>)))
      else if sc_auto_prefix C \<and> sc_prefix_extractor C \<and> \<not> sc_reverse C
      then let p = nat (prefix_size (sk_cfg T))
           in if p = 0 \<or> length key < p then Inl Out_Of_Bounds
              else let b = (take p key)[p - 1 := key ! (p - 1) + 1]
                   in bindO (rstore (sk_upper T) 0 b) (\<lambda>buf. Inr ((None, Some b), T\<lparr>sk_upper := buf\<rparr>))
      else Inr ((None, None), T))"

text \<open>
  The iterator of the turn.  Only \<open>IteratorReset\<close> makes one; with a tailing iterator, or without \<open>db_\<close>, the
  array handed to \<open>DB_MASTER\<close> holds a null pointer.
\<close>

definition seek_iter ::
  "('g, 'h, 'm, 'c, 'q, 'w, 'i) rlib \<Rightarrow> seek_cfg \<Rightarrow> bytes option \<times> bytes option \<Rightarrow> ('g, 'h, 'm, 'c, 'q, 'w) sstate \<Rightarrow>
   ('i option \<times> ('g, 'h, 'm, 'c, 'q, 'w) sstate) outcome" where
  "seek_iter L C bounds T =
     bindO (if db (bdb (th_dbs T)) \<noteq> None then Inr T
            else let (x, rand) = r64_next (l_random L) (th_rand T)
                 in if multi_dbs (th_dbs T) = [] then Inl Div_By_Zero else Inr (T\<lparr>th_rand := rand\<rparr>)) (\<lambda>T.
       if \<not> sc_tailing C \<and> db (bdb (th_dbs T)) \<noteq> None
       then bindO (IteratorReset (l_iter L bounds) (l_os L) (th_master T)) (\<lambda>(it, M).
              Inr (IteratorGet (Some it), T\<lparr>th_master := M\<rparr>))
       else Inr (IteratorGet None, T))"

fun seek_steps ::
  "('m, 'i) rocks_iter \<Rightarrow> 'w os \<Rightarrow> bool \<Rightarrow> nat \<Rightarrow> 'i \<Rightarrow> ('w, 'm) master \<Rightarrow> int \<Rightarrow> (int \<times> ('w, 'm) master) outcome" where
  "seek_steps it os reverse 0 iter M bytes = Inr (bytes, M)"
| "seek_steps it os reverse (Suc j) iter M bytes =
     bindO (IteratorValue it iter M) (\<lambda>v.
     bindO (IteratorKey it iter M) (\<lambda>k.
     bindO (if reverse then Inr (IteratorPrev it iter, M) else IteratorNext it os iter M) (\<lambda>(iter, M).
       seek_steps it os reverse j iter M (bytes + int (length k) + int (length v)))))"

definition seek_turn ::
  "('g, 'h, 'm, 'c, 'q, 'w, 'i) rlib \<Rightarrow> seek_cfg \<Rightarrow> ('g, 'h, 'm, 'c, 'q, 'w) sstate \<Rightarrow>
   ('g, 'h, 'm, 'c, 'q, 'w) sstate outcome" where
  "seek_turn L C T =
     (let (x, rand) = r64_next (l_random L) (th_rand T)
      in if (of_int (sc_num C) :: u64) = 0 then Inl Div_By_Zero
         else let seek_pos = sint (x mod of_int (sc_num C))
         in bindO (GenerateKeyFromIntForSeek (sk_cfg T) (of_int seek_pos) (sc_num C) (sk_key T)) (\<lambda>(key, buf, K).
            bindO (scan_bounds C seek_pos key (T\<lparr>th_rand := rand, sk_key := buf, sk_cfg := K\<rparr>)) (\<lambda>(bounds, T).
            bindO (seek_iter L C bounds T) (\<lambda>(it, T).
            bindO (deref it) (\<lambda>iter.
            bindO (IteratorSeek (l_iter L bounds) (l_os L) key iter (th_master T)) (\<lambda>(iter, M).
            bindO (IteratorCompare (l_iter L bounds) iter key M) (\<lambda>b.
            bindO (seek_steps (l_iter L bounds) (l_os L) (sc_reverse C) (nat (sc_seek_nexts C)) iter M (sk_bytes T)) (\<lambda>(n, M).
              finished L (sc_stats C) (db (bdb (th_dbs T))) 1 kSeek
                (T\<lparr>th_master := M, sk_read := sk_read T + 1, sk_found := sk_found T + (if b then 1 else 0),
                   sk_bytes := n\<rparr>)))))))))"

definition SeekRandom ::
  "('g, 'h, 'm, 'c, 'q, 'w, 'i) rlib \<Rightarrow> seek_cfg \<Rightarrow> key_cfg \<Rightarrow> nat \<Rightarrow> ('g, 'h, 'm, 'c, 'q, 'w) bench_thread \<Rightarrow>
   ('g, 'h, 'm, 'c, 'q, 'w) sstate outcome" where
  "SeekRandom L C K fuel T =
     bindO (read_timestamp (l_random L) (sc_timestamp_size C) (sc_latest C) T) (\<lambda>T.
     bindO (guardO (sc_tailing C \<and> db (bdb (th_dbs T)) = None \<longrightarrow> (\<forall>d\<in>set (multi_dbs (th_dbs T)). db d \<noteq> None)) Null_Deref) (\<lambda>_.
       let (D, c) = Duration_new (l_now L) (of_int (sc_duration C)) (sc_reads C) 0 (clk (th_env T));
           T = bench_thread.extend (T\<lparr>th_duration := D, th_env := (th_env T)\<lparr>clk := c\<rparr>\<rparr>)
                 (sstate.fields K (AllocateKey K) (AllocateKey K) (AllocateKey K) 0 0 0)
       in bindO (bench_loop (l_now L) (sc_granularity C) 1 (seek_turn L C) fuel T) (\<lambda>T.
          bindO (master_DestroyIter (l_os L) (th_master T)) (\<lambda>M.
            Inr (T\<lparr>th_master := M,
                   th_stats := AddMessage (found_message (sk_found T) (sk_read T)) (AddBytes (sk_bytes T) (th_stats T))\<rparr>)))))"

section \<open>What random reads find\<close>

text \<open>The plain configuration, and the keys the Main-LSM has.\<close>

definition plain_read :: "read_cfg \<Rightarrow> bool" where
  "plain_read C \<longleftrightarrow> valid_cfg (rc_keys C) \<and> keys_per_prefix (rc_keys C) \<le> 0 \<and> 0 < rc_num C \<and> in_i64 (rc_num C) \<and>
     rc_exp_range C = 0 \<and> (rc_entries_per_batch C \<le> 1 \<or> rc_stride C = 0) \<and> rc_num_cf C \<le> 1 \<and> \<not> rc_operands C \<and>
     rc_timestamp_size C \<le> 0 \<and> rc_duration C = 0 \<and> fl_stats_interval (rc_stats C) = 0"

definition present :: "('w, 'm) rocksdb \<Rightarrow> key_cfg \<Rightarrow> int \<Rightarrow> 'm \<Rightarrow> int \<Rightarrow> bool" where
  "present rdb K num m x \<longleftrightarrow> fst (rdb_get rdb (key_bytes K (of_int x) num) m) = OK"

definition read_pos ::
  "('g, 'h, 'm, 'c, 'q, 'w, 'i) rlib \<Rightarrow> read_cfg \<Rightarrow> ('w, 'm) master \<Rightarrow> 'm \<Rightarrow> 'g \<Rightarrow> nat \<Rightarrow> ('g, 'h, 'm, 'c, 'q, 'w) rstate \<Rightarrow> bool" where
  "read_pos L C M m g i T \<longleftrightarrow>
     plain_read C \<and> kache_flag M = 0 \<and> dbptr M = Some m \<and> th_master T = M \<and> db (bdb (th_dbs T)) \<noteq> None \<and>
     s_reporter (th_stats T) \<noteq> None \<and> rsize (rs_key T) = nat (key_size (rc_keys C)) \<and> rs_vals T = [] \<and>
     th_rand T = snd (read_draws (l_random L) (rc_num C) i g) \<and> rs_read T = int i \<and>
     rs_found T = int (length (filter (present (l_rdb L) (rc_keys C) (rc_num C) m) (fst (read_draws (l_random L) (rc_num C) i g))))"

lemma read_turn_pos:
  assumes "read_pos L C M m g i T"
  shows "\<exists>T'. read_turn L C T = Inr T' \<and> read_pos L C M m g (Suc i) T' \<and> th_duration T' = th_duration T"
proof -
  let ?R = "l_random L" and ?num = "rc_num C" and ?K = "rc_keys C"
  have C: "plain_read C" "kache_flag M = 0" "dbptr M = Some m" "th_master T = M" "s_reporter (th_stats T) \<noteq> None"
    "rs_vals T = []" "rs_read T = int i" "rsize (rs_key T) = nat (key_size ?K)"
    using assms by (simp_all add: read_pos_def)
  obtain d where d: "db (bdb (th_dbs T)) = Some d"
    using assms by (auto simp: read_pos_def)
  obtain y g1 where y: "r64_next ?R (th_rand T) = (y, g1)" by (rule prod.exhaust)
  obtain z g2 where z: "r64_next ?R g1 = (z, g2)" by (rule prod.exhaust)
  define x where "x = sint (z mod of_int ?num)"
  have nz: "(of_int ?num :: u64) \<noteq> 0"
    using C(1) sint_of_int64 [of ?num] by (auto simp: plain_read_def)
  obtain buf where k: "GenerateKeyFromInt ?K (of_int x) ?num (rs_key T) = Inr (key_bytes ?K (of_int x) ?num, buf)"
    "rsize buf = nat (key_size ?K)"
    using GenerateKeyFromInt_layout [of ?K "rs_key T" ?num "of_int x"] C(1,8) by (auto simp: plain_read_def)
  obtain st v where v: "rdb_get (l_rdb L) (key_bytes ?K (of_int x) ?num) m = (st, v)" by (rule prod.exhaust)
  define T1 where "T1 = T\<lparr>th_rand := g2, rs_key_rand := x, rs_key := buf, rs_read := rs_read T + 1, rs_vals := [], th_master := M\<rparr>"
  define T2 where "T2 = (if st = OK then T1\<lparr>rs_found := rs_found T + 1,
      rs_bytes := rs_bytes T + int (length (key_bytes ?K (of_int x) ?num)) + int (length v) + rc_timestamp_size C,
      rs_vals := []\<rparr> else T1)"
  have "s_reporter (th_stats T2) \<noteq> None" "fl_stats_interval (rc_stats C) = 0"
    using C(1,5) by (simp_all add: plain_read_def T2_def T1_def)
  then obtain S E where f: "finished L (rc_stats C) (Some d) 1 kRead T2 = Inr (T2\<lparr>th_stats := S, th_env := E\<rparr>)"
    "s_reporter S \<noteq> None"
    using finished_plain by blast
  have b: "select_db ?R T = Inr (None, T\<lparr>th_rand := g1\<rparr>)"
    using d y by (simp add: select_db_def SelectDBWithCfh_def)
  have n: "read_number ?R C (T\<lparr>th_rand := g1\<rparr>) = Inr (T\<lparr>th_rand := g2, rs_key_rand := x\<rparr>)"
    using C(1) z nz by (auto simp: read_number_def GetRandomKey_def plain_read_def x_def)
  have "read_turn L C T = finished L (rc_stats C) (Some d) 1 kRead T2"
    using C(1-4,6) k(1) v d
    by (cases "st = OK") (simp_all add: read_turn_def b n read_timestamp_def plain_read_def fetch_def selected_def
        master_Get_def main_get_def T1_def T2_def)
  then have t: "read_turn L C T = Inr (T2\<lparr>th_stats := S, th_env := E\<rparr>)"
    using f(1) by simp
  have "read_draws ?R ?num (Suc i) g = (fst (read_draws ?R ?num i g) @ [x], g2)"
    using assms y z by (simp add: read_pos_def x_def split_beta)
  then have "read_pos L C M m g (Suc i) (T2\<lparr>th_stats := S, th_env := E\<rparr>)"
    using assms k(2) f(2) v d by (simp add: read_pos_def T2_def T1_def present_def)
  then show ?thesis
    using t by (simp add: T2_def T1_def)
qed

interpretation reads: counted_body "read_turn L C" "read_pos L C M m g"
  by (unfold_locales, erule read_turn_pos, simp add: read_pos_def)

lemma ReadRandom_runs:
  assumes "plain_read C" and "kache_flag (th_master T) = 0" and "dbptr (th_master T) = Some m"
    and "db (bdb (th_dbs T)) \<noteq> None" and "s_reporter (th_stats T) \<noteq> None"
    and "0 \<le> rc_reads C" and "in_i64 (rc_reads C + 1)" and "nat (rc_reads C) < fuel"
  shows "\<exists>T' xs. ReadRandom L C fuel T = Inr T' \<and> th_master T' = th_master T \<and> rs_read T' = rc_reads C \<and>
    length xs = nat (rc_reads C) \<and> (\<forall>x\<in>set xs. 0 \<le> x \<and> x < rc_num C) \<and>
    rs_found T' = int (length (filter (present (l_rdb L) (rc_keys C) (rc_num C) m) xs))"
proof -
  let ?M = "th_master T" and ?n = "rc_reads C" and ?g = "th_rand T"
  obtain D c where D: "Duration_new (l_now L) 0 ?n 0 (clk (th_env T)) = (D, c)" by (rule prod.exhaust)
  let ?T = "bench_thread.extend (T\<lparr>th_duration := D, th_env := (th_env T)\<lparr>clk := c\<rparr>\<rparr>)
    (rstate.fields (AllocateKey (rc_keys C)) [] 0 0 0 0 0)"
  have p0: "read_pos L C ?M m ?g 0 ?T"
    using assms(1-5) by (simp add: read_pos_def bench_thread.defs rstate.defs AllocateKey_def)
  have d0: "th_duration ?T = fst (Duration_new (l_now L) 0 ?n 0 (clk (th_env T)))"
    by (simp add: bench_thread.defs rstate.defs D)
  obtain T1 where T1: "bench_loop (l_now L) (rc_granularity C) 1 (read_turn L C) fuel ?T = Inr T1"
    "read_pos L C ?M m ?g (nat (?n div 1)) T1"
    using reads.loop_runs [OF p0 d0 assms(6) zero_less_one assms(7,8)] by blast
  let ?T' = "T1\<lparr>th_stats := AddMessage (found_message (rs_found T1) (rs_read T1)) (AddBytes (rs_bytes T1) (th_stats T1))\<rparr>"
  have "ReadRandom L C fuel T = Inr ?T'"
    using assms(1) T1(1) D by (simp add: ReadRandom_def plain_read_def)
  moreover have "\<forall>x\<in>set (fst (read_draws (l_random L) (rc_num C) (nat ?n) ?g)). 0 \<le> x \<and> x < rc_num C"
    by (rule read_draws_range) (use assms(1) in \<open>simp_all add: plain_read_def\<close>)
  ultimately show ?thesis
    using T1(2) assms(6)
    by (intro exI [of _ ?T'] exI [of _ "fst (read_draws (l_random L) (rc_num C) (nat ?n) ?g)"]) (simp add: read_pos_def)
qed

text \<open>
  In its plain configuration, while no data is on the device, \<open>ReadRandom\<close> ends after
  exactly \<open>reads\<close> reads, leaves \<open>DB_MASTER\<close> as it is, and counts as found exactly the drawn keys that the Main-LSM
  has; every drawn number is below the number of keys.
\<close>

theorem ReadRandom_counts:
  assumes "plain_read C" and "kache_flag (th_master T) = 0" and "dbptr (th_master T) = Some m"
    and "db (bdb (th_dbs T)) \<noteq> None" and "s_reporter (th_stats T) \<noteq> None"
    and "0 \<le> rc_reads C" and "in_i64 (rc_reads C + 1)" and "nat (rc_reads C) < fuel"
  shows "\<exists>T' xs. ReadRandom L C fuel T = Inr T' \<and> th_master T' = th_master T \<and> rs_read T' = rc_reads C \<and>
    length xs = nat (rc_reads C) \<and> (\<forall>x\<in>set xs. 0 \<le> x \<and> x < rc_num C) \<and>
    rs_found T' = int (length (filter (present (l_rdb L) (rc_keys C) (rc_num C) m) xs))"
  by (rule ReadRandom_runs [OF assms])

text \<open>Three reads of keys 0 to 9 from a Main-LSM that holds key 1, with a random engine that always gives 1.\<close>

definition read_lib :: "(unit, nat, (bytes \<times> bytes) list, unit, unit, unit, nat) rlib" where
  "read_lib = wlib.extend sample_lib
     (rlib.fields (\<lambda>_. \<lparr>it_new = length, it_seek = (\<lambda>_ i. i), it_valid = (\<lambda>i. 0 < i), it_next = (\<lambda>i. i - 1),
        it_prev = (\<lambda>i. i), it_key = (\<lambda>_. []), it_value = (\<lambda>_. [])\<rparr>)
        (\<lambda>_ _ vs _. ((NotFound, False), 0, vs)))"

definition three_reads :: read_cfg where
  "three_reads =
     \<lparr>rc_keys = four_byte_keys, rc_num = 10, rc_reads = 3, rc_duration = 0, rc_granularity = 1000, rc_entries_per_batch = 1,
      rc_stride = 0, rc_exp_range = 0, rc_num_cf = 1, rc_operands = False, rc_timestamp_size = 0, rc_latest = False,
      rc_stats = wc_stats one_write\<rparr>"

definition reader :: "(unit, nat, (bytes \<times> bytes) list, unit, unit, unit) bench_thread" where
  "reader =
     \<lparr>th_dbs = ws_dbs write_start, th_master = started\<lparr>dbptr := Some [(key_bytes four_byte_keys 1 10, [7])]\<rparr>,
      th_rand = (), th_env = ws_env write_start, th_stats = idle_stats, th_timestamp = 0,
      th_duration = ws_duration write_start\<rparr>"

lemma reader_ready:
  "plain_read three_reads" "kache_flag (th_master reader) = 0"
  "dbptr (th_master reader) = Some [(key_bytes four_byte_keys 1 10, [7])]"
  "db (bdb (th_dbs reader)) \<noteq> None" "s_reporter (th_stats reader) \<noteq> None"
  by (simp_all add: plain_read_def three_reads_def reader_def write_start_def idle_stats_def one_write_def in_i64_def
      four_byte_keys_def valid_cfg_def started_simps)

theorem ReadRandom_counts_witness:
  "\<exists>T'. ReadRandom read_lib three_reads 4 reader = Inr T' \<and> rs_read T' = 3 \<and> th_master T' = th_master reader"
  using ReadRandom_counts [OF reader_ready, of 4 read_lib] by (auto simp: three_reads_def in_i64_def)

section \<open>Seeks without an iterator\<close>

text \<open>
  \<open>SeekRandom\<close> with tailing iterators, or over several databases, dereferences a null pointer
  at its first seek: the iterators it makes are not the ones it hands to \<open>DB_MASTER\<close>.
\<close>

theorem SeekRandom_null:
  assumes "sc_tailing C \<or> db (bdb (th_dbs T)) = None"
    and "db (bdb (th_dbs T)) = None \<longrightarrow> multi_dbs (th_dbs T) \<noteq> [] \<and> (\<forall>d\<in>set (multi_dbs (th_dbs T)). db d \<noteq> None)"
    and "valid_cfg K" and "keys_per_prefix K \<le> 0" and "\<not> seek_missing_prefix K"
    and "sc_max_scan_distance C = 0" and "\<not> sc_auto_prefix C" and "sc_timestamp_size C \<le> 0"
    and "0 < sc_num C" and "in_i64 (sc_num C)" and "sc_duration C = 0" and "0 < sc_reads C" and "0 < fuel"
  shows "SeekRandom L C K fuel T = Inl Null_Deref"
proof -
  obtain D c where D: "Duration_new (l_now L) 0 (sc_reads C) 0 (clk (th_env T)) = (D, c)" by (rule prod.exhaust)
  then have d: "max_seconds D = 0" "max_ops D = sc_reads C" "d_ops D = 0"
    by (auto simp: Duration_new_def split: prod.splits)
  have nz: "(of_int (sc_num C) :: u64) \<noteq> 0"
    using assms(9,10) sint_of_int64 [of "sc_num C"] by auto
  let ?T = "bench_thread.extend (T\<lparr>th_duration := D, th_env := (th_env T)\<lparr>clk := c\<rparr>\<rparr>)
    (sstate.fields K (AllocateKey K) (AllocateKey K) (AllocateKey K) 0 0 0)"
  have t: "seek_turn L C U = Inl Null_Deref" if U: "th_dbs U = th_dbs T" "sk_cfg U = K" "sk_key U = AllocateKey K" for U
  proof -
    obtain x g where x: "r64_next (l_random L) (th_rand U) = (x, g)" by (rule prod.exhaust)
    obtain buf where "GenerateKeyFromInt K (x mod of_int (sc_num C)) (sc_num C) (AllocateKey K) =
        Inr (key_bytes K (x mod of_int (sc_num C)) (sc_num C), buf)"
      using GenerateKeyFromInt_plain [OF assms(3,4)] by (fastforce simp: AllocateKey_def)
    then show ?thesis
      using assms(1,2,5-7) nz x U
      by (auto simp: seek_turn_def GenerateKeyFromIntForSeek_def scan_bounds_def seek_iter_def IteratorGet_def split_beta)
  qed
  obtain f where f: "fuel = Suc f"
    using assms(13) by (cases fuel) auto
  have "Done (l_now L) (sc_granularity C) 1 D c = Inr (False, D\<lparr>d_ops := 1\<rparr>, c)"
    using Done_count [of D 1 "l_now L" "sc_granularity C" c] d assms(12) by (simp add: in_i64_def)
  then have "bench_loop (l_now L) (sc_granularity C) 1 (seek_turn L C) fuel ?T = Inl Null_Deref"
    by (simp add: f t bench_thread.defs sstate.defs Let_def)
  then show ?thesis
    using assms(1,2,8,11) D by (simp add: SeekRandom_def read_timestamp_def bench_thread.defs sstate.defs)
qed

definition tailing_seeks :: seek_cfg where
  "tailing_seeks =
     \<lparr>sc_num = 10, sc_reads = 3, sc_duration = 0, sc_granularity = 1000, sc_seek_nexts = 0, sc_max_scan_distance = 0,
      sc_reverse = False, sc_auto_prefix = False, sc_prefix_extractor = False, sc_tailing = True, sc_timestamp_size = 0,
      sc_latest = False, sc_stats = wc_stats one_write\<rparr>"

theorem SeekRandom_null_witness:
  "SeekRandom read_lib tailing_seeks four_byte_keys 1 reader = Inl Null_Deref"
  by (rule SeekRandom_null)
     (simp_all add: tailing_seeks_def reader_def write_start_def four_byte_keys_def valid_cfg_def in_i64_def)

end
