(* ===== verification/Bench_Mixgraph.thy ===== *)
theory Bench_Mixgraph
  imports Bench_Read
begin

text \<open>
  The mixed workload \<open>MixGraph\<close> of \<open>db_bench_tool.cc\<close>: gets, puts and short scans in configured proportion, with
  keys and sizes from the distributions of \<open>Bench_Mix\<close>.
\<close>

section \<open>Configuration and state\<close>

text \<open>Besides the read benchmarks' libraries: \<open>Get\<close> from a column family into the caller's slice, and \<open>%.1f\<close>.\<close>

record ('g, 'h, 'm, 'c, 'q, 'w, 'i) mlib = "('g, 'h, 'm, 'c, 'q, 'w, 'i) rlib" +
  l_cf_get :: "'h option \<Rightarrow> bytes \<Rightarrow> bytes \<Rightarrow> 'm \<Rightarrow> Status \<times> bytes"
  l_fmt :: "real option \<Rightarrow> bytes"

record mix_cfg =
  mc_keys :: key_cfg
  mc_num :: int
  mc_reads :: int
  mc_duration :: int
  mc_granularity :: int
  mc_exp_range :: real
  mc_num_cf :: int
  mc_ratios :: "real list"
  mc_only_put :: bool
  mc_min_value :: int
  mc_max_value :: int
  mc_max_scan :: int
  mc_value :: "real \<times> real \<times> real"
  mc_iter :: "real \<times> real \<times> real"
  mc_key_dist :: "real \<times> real"
  mc_keyrange :: "real \<times> real \<times> real \<times> real"
  mc_keyrange_num :: int
  mc_sine_rate :: bool
  mc_sine_interval_ms :: u64
  mc_sine :: "real \<times> real \<times> real \<times> real"
  mc_noise :: real
  mc_stats :: stats_flags

record ('g, 'h, 'm, 'c, 'q, 'w) mstate = "('g, 'h, 'm, 'c, 'q, 'w) bench_thread" +
  mx_key :: region
  mx_values :: "'g RandomGenerator"
  mx_pinned :: bytes
  mx_query :: QueryDecider
  mx_exp :: "GenerateTwoTermExpKeys option"
  mx_gets :: int
  mx_puts :: int
  mx_seeks :: int
  mx_get_found :: int
  mx_seek_found :: int
  mx_bytes :: int
  mx_scan_length :: int
  mx_val_size :: int

section \<open>One query\<close>

text \<open>
  The key: uniform, hot by range, or hot by key.  In the last case the remainder is a signed one, and
  negative for half of the random numbers.
\<close>

definition mix_key ::
  "'g random64 \<Rightarrow> mix_cfg \<Rightarrow> GenerateTwoTermExpKeys option \<Rightarrow> int \<Rightarrow> real \<Rightarrow> int outcome" where
  "mix_key R C G ini_rand u =
     (let (a, b) = mc_key_dist C
      in if a = 0 \<or> b = 0 then Inr ini_rand
         else case G of
           Some G \<Rightarrow> DistGetKeyID R G ini_rand a b
         | None \<Rightarrow> bindO (PowerCdfInversion u a b) (\<lambda>key_seed.
             Inr (sint (fst (r64_next R (r64_seed R (of_int key_seed)))) smod mc_num C)))"

definition value_max :: "mix_cfg \<Rightarrow> int" where
  "value_max C = (if mc_max_value C < 1048576 then mc_max_value C else 1048576)"

definition mix_value_size :: "mix_cfg \<Rightarrow> real \<Rightarrow> int outcome" where
  "mix_value_size C u =
     (let (theta, k, sigma) = mc_value C
      in bindO (ParetoCdfInversion u theta k sigma) (\<lambda>n.
           if n < mc_min_value C then Inr (mc_min_value C)
           else if value_max C < n then if value_max C = 0 then Inl Div_By_Zero else Inr (n smod value_max C)
           else Inr n))"

definition mix_rate ::
  "('g, 'h, 'm, 'c, 'q, 'w, 'y) wlib_scheme \<Rightarrow> mix_cfg \<Rightarrow> ('g, 'h, 'm, 'c, 'q, 'w) mstate \<Rightarrow>
   ('g, 'h, 'm, 'c, 'q, 'w) mstate outcome" where
  "mix_rate L C T =
     (let (now, c) = l_now L (clk (th_env T));
          T = T\<lparr>th_env := (th_env T)\<lparr>clk := c\<rparr>\<rparr>;
          S = th_stats T;
          since = (if sine_interval S < now then now - sine_interval S else 0)
      in if mc_sine_rate C \<and> mc_sine_interval_ms C * 1000 < since
         then let secs = real (unat (now - s_start S)) / 1000000;
                  (S, c) = ResetSineInterval (l_now L) S (clk (th_env T));
                  (r, c) = (if mc_noise C < 0 \<or> 1 < mc_noise C then (0, c) else l_rand L c);
                  T = T\<lparr>th_stats := S, th_env := (th_env T)\<lparr>clk := c\<rparr>\<rparr>;
                  (sa, sb, sc, sd) = mc_sine C
              in bindO (AddNoise sa r (SineRate sa sb sc sd secs) (mc_noise C)) (\<lambda>x.
                 bindO (at_index (qd_ratio (mx_query T)) 0) (\<lambda>r0.
                 bindO (at_index (qd_ratio (mx_query T)) 1) (\<lambda>r1.
                 bindO (at_index (qd_ratio (mx_query T)) 2) (\<lambda>r2.
                 bindO (if 0 < x * (r0 + r2) then to_i64 (x * (r0 + r2)) else Inr 0) (\<lambda>_.
                 bindO (if 0 < x * r1 then to_i64 (x * r1) else Inr 0) (\<lambda>_. Inr T))))))
         else Inr T)"

definition mix_get ::
  "('g, 'h, 'm, 'c, 'q, 'w, 'i) mlib \<Rightarrow> mix_cfg \<Rightarrow> nat option \<Rightarrow> int \<Rightarrow> bytes \<Rightarrow> ('g, 'h, 'm, 'c, 'q, 'w) mstate \<Rightarrow>
   ('g, 'h, 'm, 'c, 'q, 'w) mstate outcome" where
  "mix_get L C i x key T =
     bindO (if 1 < mc_num_cf C
            then bindO (deref (db (selected (th_dbs T) i))) (\<lambda>m.
                 bindO (GetCfh x (selected (th_dbs T) i)) (\<lambda>h. Inr (l_cf_get L h key (mx_pinned T) m)))
            else GetPin (l_rdb L) key (mx_pinned T) (th_master T)) (\<lambda>(s, v).
     let T = T\<lparr>mx_gets := mx_gets T + 1, mx_pinned := v\<rparr>
     in bindO (if s = OK
               then Inr (T\<lparr>mx_get_found := mx_get_found T + 1, mx_bytes := mx_bytes T + int (length key) + int (length v)\<rparr>)
               else if s = NotFound then Inr T else Inl Process_Abort) (\<lambda>T.
        finished L (mc_stats C) (db (selected (th_dbs T) i)) 1 kRead T))"

definition mix_put ::
  "('g, 'h, 'm, 'c, 'q, 'w, 'i) mlib \<Rightarrow> mix_cfg \<Rightarrow> nat option \<Rightarrow> real \<Rightarrow> bytes \<Rightarrow> ('g, 'h, 'm, 'c, 'q, 'w) mstate \<Rightarrow>
   ('g, 'h, 'm, 'c, 'q, 'w) mstate outcome" where
  "mix_put L C i u key T =
     bindO (mix_value_size C u) (\<lambda>n.
     bindO (Generate_len (of_int n) (mx_values T)) (\<lambda>(v, G).
     bindO (master_Put (l_rdb L) (l_murmur L) (l_os L) key v (th_master T)) (\<lambda>(s, M).
       let T = T\<lparr>mx_puts := mx_puts T + 1, mx_val_size := mx_val_size T + n, mx_values := G, th_master := M\<rparr>
       in if s \<noteq> OK then Inl Process_Exit
          else finished L (mc_stats C) (db (selected (th_dbs T) i)) 1 kWrite T)))"

text \<open>A scan of at most \<open>j\<close> entries: the bytes and the entries passed.\<close>

fun mix_scan :: "('m, 'i) rocks_iter \<Rightarrow> nat \<Rightarrow> 'i \<Rightarrow> int \<times> int" where
  "mix_scan it 0 iter = (0, 0)"
| "mix_scan it (Suc j) iter =
     (if it_valid it iter
      then let (b, n) = mix_scan it j (it_next it iter)
           in (int (length (it_key it iter)) + int (length (it_value it iter)) + b, n + 1)
      else (0, 0))"

definition mix_seek ::
  "('g, 'h, 'm, 'c, 'q, 'w, 'i) mlib \<Rightarrow> mix_cfg \<Rightarrow> nat option \<Rightarrow> real \<Rightarrow> bytes \<Rightarrow> ('g, 'h, 'm, 'c, 'q, 'w) mstate \<Rightarrow>
   ('g, 'h, 'm, 'c, 'q, 'w) mstate outcome" where
  "mix_seek L C i u key T =
     bindO (case db (selected (th_dbs T) i) of
              None \<Rightarrow> Inr T
            | Some m \<Rightarrow>
                let it = l_iter L (None, None); iter = it_seek it key (it_new it m); (theta, k, sigma) = mc_iter C
                in bindO (ParetoCdfInversion u theta k sigma) (\<lambda>n.
                     if mc_max_scan C = 0 then Inl Div_By_Zero
                     else let (b, l) = mix_scan it (nat (n smod mc_max_scan C)) iter
                          in Inr (T\<lparr>mx_seeks := mx_seeks T + 1,
                                    mx_seek_found := mx_seek_found T +
                                      (if it_valid it iter \<and> slice_compare (it_key it iter) key = 0 then 1 else 0),
                                    mx_bytes := mx_bytes T + b, mx_scan_length := mx_scan_length T + l\<rparr>))) (\<lambda>T.
       finished L (mc_stats C) (db (selected (th_dbs T) i)) 1 kSeek T)"

definition mix_turn ::
  "('g, 'h, 'm, 'c, 'q, 'w, 'i) mlib \<Rightarrow> mix_cfg \<Rightarrow> ('g, 'h, 'm, 'c, 'q, 'w) mstate \<Rightarrow>
   ('g, 'h, 'm, 'c, 'q, 'w) mstate outcome" where
  "mix_turn L C T =
     bindO (select_db (l_random L) T) (\<lambda>(i, T).
     bindO (GetRandomKey (l_random L) (mc_exp_range C) (mc_num C) (th_rand T)) (\<lambda>(ini_rand, rand).
       let rand_v = ini_rand smod mc_num C;
           u = real_of_int rand_v / real_of_int (mc_num C)
       in bindO (mix_key (l_random L) C (mx_exp T) ini_rand u) (\<lambda>x.
          bindO (GenerateKeyFromInt (mc_keys C) (of_int x) (mc_num C) (mx_key T)) (\<lambda>(key, buf).
          bindO (GetType (mx_query T) rand_v) (\<lambda>t.
          bindO (mix_rate L C (T\<lparr>th_rand := rand, mx_key := buf\<rparr>)) (\<lambda>T.
            let t = (if mc_only_put C then 1 else t)
            in if t = 0 then mix_get L C i x key T
               else if t = 1 then mix_put L C i u key T
               else if t = 2 then mix_seek L C i u key T
               else Inr T))))))"

section \<open>The benchmark\<close>

definition mix_message :: "('g, 'h, 'm, 'c, 'q, 'w, 'i) mlib \<Rightarrow> ('g, 'h, 'm, 'c, 'q, 'w) mstate \<Rightarrow> bytes" where
  "mix_message L T =
     (let num = (\<lambda>x. to_string (unat (of_int x :: u64)));
          avg = (\<lambda>a b. l_fmt L (if b = 0 then None else Some (real_of_int a / real_of_int b)))
      in take 255 (bytes_of ''( Gets:'' @ num (mx_gets T) @ bytes_of '' Puts:'' @ num (mx_puts T) @ bytes_of '' Seek:'' @
           num (mx_seeks T) @ bytes_of '', reads '' @ num (mx_get_found T + mx_seek_found T) @ bytes_of '' in '' @
           num (mx_gets T + mx_seeks T) @ bytes_of '' found, avg size: '' @ avg (mx_val_size T) (mx_puts T) @
           bytes_of '' value, '' @ avg (mx_scan_length T) (mx_seeks T) @ bytes_of '' scan)'' @ [10]))"

definition MixGraph ::
  "('g, 'h, 'm, 'c, 'q, 'w, 'i) mlib \<Rightarrow> mix_cfg \<Rightarrow> 'g RandomGenerator \<Rightarrow> nat \<Rightarrow> ('g, 'h, 'm, 'c, 'q, 'w) bench_thread \<Rightarrow>
   ('g, 'h, 'm, 'c, 'q, 'w) mstate outcome" where
  "MixGraph L C gen fuel T =
     (let (a, b, c, d) = mc_keyrange C
      in bindO (Initiate (mc_ratios C) \<lparr>qd_type = [], qd_ratio = [], qd_range = 0\<rparr>) (\<lambda>Q.
         bindO (if a \<noteq> 0 \<or> b \<noteq> 0 \<or> c \<noteq> 0 \<or> d \<noteq> 0
                then bindO (InitiateExpDistribution (l_random L) (mc_keyrange_num C) (mc_num C) a b c d) (\<lambda>G. Inr (Some G))
                else Inr None) (\<lambda>G.
           let (D, ck) = Duration_new (l_now L) (of_int (mc_duration C)) (mc_reads C) 0 (clk (th_env T));
               T = bench_thread.extend (T\<lparr>th_duration := D, th_env := (th_env T)\<lparr>clk := ck\<rparr>\<rparr>)
                     (mstate.fields (AllocateKey (mc_keys C)) gen [] Q G 0 0 0 0 0 0 0 0)
           in bindO (bench_loop (l_now L) (mc_granularity C) 1 (mix_turn L C) fuel T) (\<lambda>T.
                Inr (T\<lparr>th_stats := AddMessage (mix_message L T) (AddBytes (mx_bytes T) (th_stats T))\<rparr>)))))"

section \<open>Numbers without a size\<close>

text \<open>
  With a positive shape parameter, as by default, the number 0 has no value size and no scan
  length: the power is infinite and its conversion to an integer undefined.  A put or a seek for which a
  multiple of the number of keys is drawn faults.
\<close>

theorem mix_zero_undefined:
  assumes "0 < fst (snd (mc_value C))" and "0 < fst (snd (mc_iter C))" and "db (selected (th_dbs T) i) \<noteq> None"
  shows "mix_put L C i 0 key T = Inl Not_Finite \<and> mix_seek L C i 0 key T = Inl Not_Finite"
proof -
  have "ParetoCdfInversion 0 theta k sigma = Inl Not_Finite" if "0 < k" for theta k sigma
    using that by (simp add: ParetoCdfInversion_def c_pow_def)
  then show ?thesis
    using assms by (auto simp: mix_put_def mix_value_size_def mix_seek_def Let_def split_beta)
qed

definition mix_lib :: "(unit, nat, (bytes \<times> bytes) list, unit, unit, unit, nat) mlib" where
  "mix_lib = rlib.extend read_lib (mlib.fields (\<lambda>_ _ v _. (NotFound, v)) (\<lambda>_. []))"

text \<open>A mix of one get to one put to one seek over ten keys, sizes growing from 1 to 2.\<close>

definition even_mix :: mix_cfg where
  "even_mix =
     \<lparr>mc_keys = four_byte_keys, mc_num = 10, mc_reads = 3, mc_duration = 0, mc_granularity = 1000, mc_exp_range = 0,
      mc_num_cf = 1, mc_ratios = [1, 1, 1], mc_only_put = False, mc_min_value = 1, mc_max_value = 3, mc_max_scan = 100,
      mc_value = (1, - 1, 1), mc_iter = (1, - 1, 1), mc_key_dist = (0, 0), mc_keyrange = (0, 0, 0, 0), mc_keyrange_num = 1,
      mc_sine_rate = False, mc_sine_interval_ms = 10000, mc_sine = (1, 1, 0, 1), mc_noise = 0, mc_stats = wc_stats one_write\<rparr>"

definition mix_state :: "(unit, nat, (bytes \<times> bytes) list, unit, unit, unit) mstate" where
  "mix_state = bench_thread.extend reader
     (mstate.fields (AllocateKey four_byte_keys) byte_values [] \<lparr>qd_type = [], qd_ratio = [], qd_range = 0\<rparr> None 0 0 0 0 0 0 0 0)"

theorem mix_zero_undefined_witness:
  "mix_put mix_lib (even_mix\<lparr>mc_value := (0, 1, 25), mc_iter := (0, 2, 14)\<rparr>) None 0 [] mix_state = Inl Not_Finite"
  using mix_zero_undefined [of "even_mix\<lparr>mc_value := (0, 1, 25), mc_iter := (0, 2, 14)\<rparr>" mix_state None mix_lib "[]"]
  by (simp add: mix_state_def bench_thread.defs mstate.defs reader_def write_start_def selected_def)

section \<open>What a mixed run does\<close>

definition plain_mix :: "mix_cfg \<Rightarrow> bool" where
  "plain_mix C \<longleftrightarrow> valid_cfg (mc_keys C) \<and> keys_per_prefix (mc_keys C) \<le> 0 \<and> 0 < mc_num C \<and> in_i64 (mc_num C) \<and>
     mc_exp_range C = 0 \<and> mc_num_cf C \<le> 1 \<and> (fst (mc_key_dist C) = 0 \<or> snd (mc_key_dist C) = 0) \<and>
     mc_keyrange C = (0, 0, 0, 0) \<and> \<not> mc_sine_rate C \<and> mc_max_scan C \<noteq> 0 \<and> mc_duration C = 0 \<and>
     fl_stats_interval (mc_stats C) = 0"

text \<open>Every number has a value size that fits the generator's block, and a scan length.\<close>

definition sizes_defined :: "mix_cfg \<Rightarrow> nat \<Rightarrow> bool" where
  "sizes_defined C len \<longleftrightarrow>
     (\<forall>x. 0 \<le> x \<and> x < mc_num C \<longrightarrow>
        (\<exists>n. mix_value_size C (real_of_int x / real_of_int (mc_num C)) = Inr n \<and> 0 \<le> n \<and> n \<le> int len) \<and>
        (\<exists>n. ParetoCdfInversion (real_of_int x / real_of_int (mc_num C)) (fst (mc_iter C)) (fst (snd (mc_iter C)))
               (snd (snd (mc_iter C))) = Inr n))"

definition mix_kind :: "mix_cfg \<Rightarrow> QueryDecider \<Rightarrow> int \<Rightarrow> nat" where
  "mix_kind C Q x = (if mc_only_put C then 1 else first_above (x mod qd_range Q) 0 (qd_type Q))"

definition mix_inv :: "QueryDecider \<Rightarrow> mix_cfg \<Rightarrow> bytes \<Rightarrow> ('g, 'h, 'm, 'c, 'q, 'w) mstate \<Rightarrow> bool" where
  "mix_inv Q C ds T \<longleftrightarrow>
     mx_query T = Q \<and> mx_exp T = None \<and> db (bdb (th_dbs T)) \<noteq> None \<and> s_reporter (th_stats T) \<noteq> None \<and>
     rsize (mx_key T) = nat (key_size (mc_keys C)) \<and> kache_flag (th_master T) = 0 \<and>
     monitor_L0_status_arr (th_master T) \<noteq> LEVEL_HIGH \<and> dbptr (th_master T) \<noteq> None \<and>
     gen_data (mx_values T) = ds \<and> unat (gen_pos (mx_values T)) \<le> length ds"

text \<open>The effect of one query on the counters.\<close>

definition counted ::
  "nat \<Rightarrow> ('g, 'h, 'm, 'c, 'q, 'w) mstate \<Rightarrow> ('g, 'h, 'm, 'c, 'q, 'w) mstate \<Rightarrow> bool" where
  "counted t T T' \<longleftrightarrow>
     mx_gets T' = mx_gets T + of_bool (t = 0) \<and> mx_puts T' = mx_puts T + of_bool (t = 1) \<and>
     mx_seeks T' = mx_seeks T + of_bool (t = 2) \<and> th_rand T' = th_rand T \<and> th_duration T' = th_duration T"

lemma mix_get_ok:
  assumes "plain_mix C" and "mix_inv Q C ds T"
  shows "\<exists>T'. mix_get L C None x key T = Inr T' \<and> mix_inv Q C ds T' \<and> counted 0 T T'"
proof -
  obtain m where m: "dbptr (th_master T) = Some m"
    using assms(2) by (auto simp: mix_inv_def)
  obtain s v where g: "GetPin (l_rdb L) key (mx_pinned T) (th_master T) = Inr (s, v)" "s = OK \<or> s = NotFound"
    using assms(2) m by (cases "fst (rdb_get (l_rdb L) key m) = OK") (simp_all add: GetPin_def mix_inv_def split_beta)
  let ?T = "T\<lparr>mx_gets := mx_gets T + 1, mx_pinned := v\<rparr>"
  define U where "U = (if s = OK then ?T\<lparr>mx_get_found := mx_get_found T + 1,
    mx_bytes := mx_bytes T + int (length key) + int (length v)\<rparr> else ?T)"
  have U: "mix_inv Q C ds U" "counted 0 T U" "s_reporter (th_stats U) \<noteq> None" "fl_stats_interval (mc_stats C) = 0"
    using assms by (simp_all add: mix_inv_def U_def counted_def plain_mix_def)
  obtain S E where f: "finished L (mc_stats C) (db (selected (th_dbs U) None)) 1 kRead U = Inr (U\<lparr>th_stats := S, th_env := E\<rparr>)"
    "s_reporter S \<noteq> None"
    using finished_plain [OF U(3,4)] by blast
  have "mix_get L C None x key T = finished L (mc_stats C) (db (selected (th_dbs U) None)) 1 kRead U"
    using assms(1) g by (auto simp: mix_get_def plain_mix_def U_def)
  then show ?thesis
    using f U(1,2) by (simp add: mix_inv_def counted_def)
qed

lemma mix_put_ok:
  assumes "plain_mix C" and "mix_inv Q C ds T" and "length ds < 2147483648" and "\<forall>k v m. fst (rdb_put (l_rdb L) k v m) = OK"
    and "mix_value_size C u = Inr n" and "0 \<le> n" and "n \<le> int (length ds)"
  shows "\<exists>T'. mix_put L C None u key T = Inr T' \<and> mix_inv Q C ds T' \<and> counted 1 T T'"
proof -
  obtain m where m: "dbptr (th_master T) = Some m"
    using assms(2) by (auto simp: mix_inv_def)
  have "unat (of_int n :: u32) \<le> length ds"
    using assms(3,6,7) by (simp add: unat_eq_nat_uint uint_word_of_int_eq take_bit_int_eq_self)
  then have "\<exists>v p. Generate_len (of_int n) (mx_values T) = Inr (v, (mx_values T)\<lparr>gen_pos := p\<rparr>) \<and> unat p \<le> length ds"
    using Generate_len_ok [of "mx_values T" "of_int n"] assms(2,3) by (auto simp: mix_inv_def)
  then obtain v p where v: "Generate_len (of_int n) (mx_values T) = Inr (v, (mx_values T)\<lparr>gen_pos := p\<rparr>)" "unat p \<le> length ds"
    by blast
  let ?M = "(th_master T)\<lparr>dbptr := Some (snd (rdb_put (l_rdb L) key v m))\<rparr>"
  have p: "master_Put (l_rdb L) (l_murmur L) (l_os L) key v (th_master T) = Inr (OK, ?M)"
    using main_put_ok [OF m] assms(2,4) by (simp add: master_Put_def mix_inv_def)
  define U where "U = T\<lparr>mx_puts := mx_puts T + 1, mx_val_size := mx_val_size T + n,
    mx_values := (mx_values T)\<lparr>gen_pos := p\<rparr>, th_master := ?M\<rparr>"
  have U: "mix_inv Q C ds U" "counted 1 T U" "s_reporter (th_stats U) \<noteq> None" "fl_stats_interval (mc_stats C) = 0"
    using assms(1,2) v(2) by (simp_all add: mix_inv_def U_def counted_def plain_mix_def)
  obtain S E where f: "finished L (mc_stats C) (db (selected (th_dbs U) None)) 1 kWrite U = Inr (U\<lparr>th_stats := S, th_env := E\<rparr>)"
    "s_reporter S \<noteq> None"
    using finished_plain [OF U(3,4)] by blast
  have "mix_put L C None u key T = finished L (mc_stats C) (db (selected (th_dbs U) None)) 1 kWrite U"
    using v(1) p assms(5) by (simp add: mix_put_def U_def)
  then show ?thesis
    using f U(1,2) by (simp add: mix_inv_def counted_def)
qed

lemma mix_seek_ok:
  assumes "plain_mix C" and "mix_inv Q C ds T"
    and "ParetoCdfInversion u (fst (mc_iter C)) (fst (snd (mc_iter C))) (snd (snd (mc_iter C))) = Inr n"
  shows "\<exists>T'. mix_seek L C None u key T = Inr T' \<and> mix_inv Q C ds T' \<and> counted 2 T T'"
proof -
  obtain m where m: "db (bdb (th_dbs T)) = Some m"
    using assms(2) by (auto simp: mix_inv_def)
  let ?it = "l_iter L (None, None)"
  let ?iter = "it_seek ?it key (it_new ?it m)"
  let ?s = "mix_scan ?it (nat (n smod mc_max_scan C)) ?iter"
  define U where "U = T\<lparr>mx_seeks := mx_seeks T + 1,
    mx_seek_found := mx_seek_found T + (if it_valid ?it ?iter \<and> slice_compare (it_key ?it ?iter) key = 0 then 1 else 0),
    mx_bytes := mx_bytes T + fst ?s, mx_scan_length := mx_scan_length T + snd ?s\<rparr>"
  have U: "mix_inv Q C ds U" "counted 2 T U" "s_reporter (th_stats U) \<noteq> None" "fl_stats_interval (mc_stats C) = 0"
    using assms(1,2) by (simp_all add: mix_inv_def U_def counted_def plain_mix_def)
  obtain S E where f: "finished L (mc_stats C) (db (selected (th_dbs U) None)) 1 kSeek U = Inr (U\<lparr>th_stats := S, th_env := E\<rparr>)"
    "s_reporter S \<noteq> None"
    using finished_plain [OF U(3,4)] by blast
  have "mix_seek L C None u key T = finished L (mc_stats C) (db (selected (th_dbs U) None)) 1 kSeek U"
    using assms(1,3) m by (simp add: mix_seek_def plain_mix_def selected_def Let_def split_beta U_def)
  then show ?thesis
    using f U(1,2) by (simp add: mix_inv_def counted_def)
qed

definition kinds :: "mix_cfg \<Rightarrow> QueryDecider \<Rightarrow> nat \<Rightarrow> int list \<Rightarrow> int" where
  "kinds C Q t xs = int (length (filter (\<lambda>x. mix_kind C Q x = t) xs))"

lemma kinds_snoc: "kinds C Q t (xs @ [x]) = kinds C Q t xs + of_bool (mix_kind C Q x = t)"
  by (simp add: kinds_def)

definition mix_pos ::
  "('g, 'h, 'm, 'c, 'q, 'w, 'i) mlib \<Rightarrow> mix_cfg \<Rightarrow> QueryDecider \<Rightarrow> bytes \<Rightarrow> 'g \<Rightarrow> nat \<Rightarrow> ('g, 'h, 'm, 'c, 'q, 'w) mstate \<Rightarrow> bool" where
  "mix_pos L C Q ds g i T \<longleftrightarrow>
     plain_mix C \<and> sizes_defined C (length ds) \<and> length ds < 2147483648 \<and> (\<forall>k v m. fst (rdb_put (l_rdb L) k v m) = OK) \<and>
     0 < qd_range Q \<and> mix_inv Q C ds T \<and> th_rand T = snd (read_draws (l_random L) (mc_num C) i g) \<and>
     mx_gets T = kinds C Q 0 (fst (read_draws (l_random L) (mc_num C) i g)) \<and>
     mx_puts T = kinds C Q 1 (fst (read_draws (l_random L) (mc_num C) i g)) \<and>
     mx_seeks T = kinds C Q 2 (fst (read_draws (l_random L) (mc_num C) i g))"

text \<open>The query of a turn, whatever its kind.\<close>

lemma mix_query_ok:
  assumes "mix_pos L C Q ds g i T0" and "mix_inv Q C ds T" and "0 \<le> x" and "x < mc_num C"
  shows "\<exists>T'. (if t = 0 then mix_get L C None x key T
      else if t = 1 then mix_put L C None (real_of_int x / real_of_int (mc_num C)) key T
      else if t = 2 then mix_seek L C None (real_of_int x / real_of_int (mc_num C)) key T else Inr T) = Inr T' \<and>
    mix_inv Q C ds T' \<and> counted t T T'"
proof -
  let ?u = "real_of_int x / real_of_int (mc_num C)"
  have C: "plain_mix C" "length ds < 2147483648" "\<forall>k v m. fst (rdb_put (l_rdb L) k v m) = OK"
    using assms(1) by (simp_all add: mix_pos_def)
  obtain n l where "mix_value_size C ?u = Inr n" "0 \<le> n" "n \<le> int (length ds)"
    "ParetoCdfInversion ?u (fst (mc_iter C)) (fst (snd (mc_iter C))) (snd (snd (mc_iter C))) = Inr l"
    using assms(1,3,4) by (auto simp: mix_pos_def sizes_defined_def)
  then have "\<exists>T'. mix_put L C None ?u key T = Inr T' \<and> mix_inv Q C ds T' \<and> counted 1 T T'"
    "\<exists>T'. mix_seek L C None ?u key T = Inr T' \<and> mix_inv Q C ds T' \<and> counted 2 T T'"
    using mix_put_ok [OF C(1) assms(2) C(2,3)] mix_seek_ok [OF C(1) assms(2)] by blast+
  moreover have "counted t T T" if "2 < t"
    using that by (simp add: counted_def)
  moreover consider "t = 0" | "t = 1" | "t = 2" | "2 < t"
    by linarith
  ultimately show ?thesis
    using mix_get_ok [OF C(1) assms(2), of L x key] assms(2) by cases auto
qed

lemma mix_turn_pos:
  assumes "mix_pos L C Q ds g i T"
  shows "\<exists>T'. mix_turn L C T = Inr T' \<and> mix_pos L C Q ds g (Suc i) T' \<and> th_duration T' = th_duration T"
proof -
  let ?R = "l_random L" and ?num = "mc_num C" and ?K = "mc_keys C"
  have C: "plain_mix C" "mix_inv Q C ds T" "0 < qd_range Q"
    using assms by (simp_all add: mix_pos_def)
  obtain d where d: "db (bdb (th_dbs T)) = Some d"
    using C(2) by (auto simp: mix_inv_def)
  obtain y g1 where y: "r64_next ?R (th_rand T) = (y, g1)" by (rule prod.exhaust)
  obtain z g2 where z: "r64_next ?R g1 = (z, g2)" by (rule prod.exhaust)
  define x where "x = sint (z mod of_int ?num)"
  have x: "0 \<le> x" "x < ?num"
    using C(1) sint_mod_range [of ?num z] by (auto simp: plain_mix_def x_def)
  have nz: "(of_int ?num :: u64) \<noteq> 0"
    using C(1) sint_of_int64 [of ?num] by (auto simp: plain_mix_def)
  obtain buf where k: "GenerateKeyFromInt ?K (of_int x) ?num (mx_key T) = Inr (key_bytes ?K (of_int x) ?num, buf)"
    "rsize buf = nat (key_size ?K)"
    using GenerateKeyFromInt_layout [of ?K "mx_key T" ?num "of_int x"] C(1,2) by (auto simp: plain_mix_def mix_inv_def)
  let ?T1 = "T\<lparr>th_rand := g2, mx_key := buf\<rparr>"
  let ?U = "?T1\<lparr>th_env := (th_env T)\<lparr>clk := snd (l_now L (clk (th_env T)))\<rparr>\<rparr>"
  have U: "mix_inv Q C ds ?U"
    using C(2) k(2) by (simp add: mix_inv_def)
  let ?t = "mix_kind C Q x"
  obtain T' where T': "(if ?t = 0 then mix_get L C None x (key_bytes ?K (of_int x) ?num) ?U
      else if ?t = 1 then mix_put L C None (real_of_int x / real_of_int ?num) (key_bytes ?K (of_int x) ?num) ?U
      else if ?t = 2 then mix_seek L C None (real_of_int x / real_of_int ?num) (key_bytes ?K (of_int x) ?num) ?U
      else Inr ?U) = Inr T'" "mix_inv Q C ds T'" "counted ?t ?U T'"
    using mix_query_ok [OF assms U x] by blast
  have b: "select_db ?R T = Inr (None, T\<lparr>th_rand := g1\<rparr>)"
    using d y by (simp add: select_db_def SelectDBWithCfh_def)
  have n: "GetRandomKey ?R (mc_exp_range C) ?num g1 = Inr (x, g2)"
    using C(1) z nz by (simp add: GetRandomKey_def plain_mix_def x_def)
  have v: "x smod ?num = x"
    using x by (simp add: smod_pos)
  have key: "mix_key ?R C G x u = Inr x" for G u
    using C(1) by (simp add: mix_key_def plain_mix_def split_beta)
  have ty: "GetType Q x = Inr (first_above (x mod qd_range Q) 0 (qd_type Q))"
    using x(1) C(3) by (simp add: GetType_def smod_pos)
  have rt: "mix_rate L C T1 = Inr (T1\<lparr>th_env := (th_env T1)\<lparr>clk := snd (l_now L (clk (th_env T1)))\<rparr>\<rparr>)" for T1
    using C(1) by (simp add: mix_rate_def plain_mix_def Let_def split_beta)
  have tk: "(if mc_only_put C then 1 else first_above (x mod qd_range Q) 0 (qd_type Q)) = ?t"
    by (simp add: mix_kind_def)
  have q: "mx_query T = Q"
    using C(2) by (simp add: mix_inv_def)
  have "mix_turn L C T = Inr T'"
    using T'(1) k(1) by (simp add: mix_turn_def b n v key q ty rt tk Let_def split: if_splits)
  moreover have "read_draws ?R ?num (Suc i) g = (fst (read_draws ?R ?num i g) @ [x], g2)"
    using assms y z by (simp add: mix_pos_def x_def split_beta)
  then have "mix_pos L C Q ds g (Suc i) T'"
    using assms T'(2,3) by (simp add: mix_pos_def counted_def kinds_snoc)
  moreover have "th_duration T' = th_duration T"
    using T'(3) by (simp add: counted_def)
  ultimately show ?thesis by blast
qed

interpretation mixes: counted_body "mix_turn L C" "mix_pos L C Q ds g"
  by (unfold_locales, erule mix_turn_pos, simp add: mix_pos_def mix_inv_def)


lemma even_mix_sizes: "sizes_defined even_mix 3"
proof -
  have "ParetoCdfInversion (real_of_int x / 10) 1 (- 1) 1 = Inr \<lceil>2 - real_of_int x / 10\<rceil> \<and>
      1 \<le> \<lceil>2 - real_of_int x / 10\<rceil> \<and> \<lceil>2 - real_of_int x / 10\<rceil> \<le> 2" if "0 \<le> x" "x < 10" for x
  proof -
    have "1 \<le> \<lceil>2 - real_of_int x / 10\<rceil>" "\<lceil>2 - real_of_int x / 10\<rceil> \<le> 2"
      using that by (simp_all add: one_le_ceiling ceiling_le_iff)
    moreover have "real_of_int x / 10 powr 1 = real_of_int x / 10" "c_pow (real_of_int x / 10) 1 = Inr (real_of_int x / 10)"
      using that by (auto simp: c_pow_def)
    ultimately show ?thesis
      by (simp add: ParetoCdfInversion_def to_i64_def in_i64_def)
  qed
  then show ?thesis
    by (fastforce simp: sizes_defined_def even_mix_def mix_value_size_def value_max_def)
qed

lemma even_mix_query:
  "Initiate [1, 1, 1] \<lparr>qd_type = [], qd_ratio = [], qd_range = 0\<rparr> =
     Inr \<lparr>qd_type = [334, 668, 1002], qd_ratio = [1 / 3, 1 / 3, 1 / 3], qd_range = 1002\<rparr>"
proof -
  have "\<lceil>1000 / 3 :: real\<rceil> = 334"
    by (simp add: ceiling_eq_iff)
  then show ?thesis
    by (simp add: Initiate_def int_add_def int_range_def)
qed


end
