(* ===== verification/Bench_Update.thy ===== *)
theory Bench_Update
  imports Bench_Read
begin

text \<open>
  The benchmarks of \<open>db_bench_tool.cc\<close> that read and write in one thread: \<open>ReadRandomWriteRandom\<close> over \<open>DB_MASTER\<close>, and
  over the benchmark's own database \<open>UpdateRandom\<close>, \<open>XORUpdateRandom\<close>, \<open>AppendRandom\<close>, \<open>MergeRandom\<close> and
  \<open>ReadRandomMergeRandom\<close>.
\<close>

section \<open>Libraries, configuration and state\<close>

text \<open>
  RocksDB's batched writes, merges, reads and writes at a timestamp, and the XOR of \<open>BytesXOROperator\<close>.
\<close>

record ('g, 'h, 'm, 'c, 'q, 'w, 'i) ulib = "('g, 'h, 'm, 'c, 'q, 'w, 'i) rlib" +
  l_write :: "'h batch_op list \<Rightarrow> 'm \<Rightarrow> Status \<times> 'm"
  l_merge :: "'h option option \<Rightarrow> bytes \<Rightarrow> bytes \<Rightarrow> 'm \<Rightarrow> Status \<times> 'm"
  l_get_ts :: "u64 \<Rightarrow> bytes \<Rightarrow> 'm \<Rightarrow> Status \<times> bytes"
  l_put_ts :: "u64 \<Rightarrow> bytes \<Rightarrow> bytes \<Rightarrow> 'm \<Rightarrow> Status \<times> 'm"
  l_xor :: "bytes option \<Rightarrow> bytes \<Rightarrow> bytes"

record update_cfg =
  uc_keys :: key_cfg
  uc_num :: int
  uc_numdistinct :: int
  uc_merge_keys :: int
  uc_readwrites :: int
  uc_duration :: int
  uc_granularity :: int
  uc_readwritepercent :: int
  uc_deletepercent :: int
  uc_mergereadpercent :: int
  uc_num_cf :: int
  uc_timestamp_size :: int
  uc_latest :: bool
  uc_stats :: stats_flags

text \<open>The locals of these benchmarks: buffers, the string read into, and counters.\<close>

record ('g, 'h, 'm, 'c, 'q, 'w) ustate = "('g, 'h, 'm, 'c, 'q, 'w) bench_thread" +
  us_key :: region
  us_values :: "'g RandomGenerator"
  us_value :: bytes
  us_get_weight :: int
  us_put_weight :: int
  us_delete_weight :: int
  us_found :: int
  us_reads :: int
  us_writes :: int
  us_deletes :: int
  us_bytes :: int
  us_max_length :: nat

text \<open>\<open>thread->rand.Next () % num\<close> and the key of that number.\<close>

definition draw_key ::
  "'g random64 \<Rightarrow> key_cfg \<Rightarrow> int \<Rightarrow> ('g, 'h, 'm, 'c, 'q, 'w, 'z) ustate_scheme \<Rightarrow>
   (u64 \<times> bytes \<times> ('g, 'h, 'm, 'c, 'q, 'w, 'z) ustate_scheme) outcome" where
  "draw_key R K num T =
     (let (x, rand) = r64_next R (th_rand T)
      in if (of_int num :: u64) = 0 then Inl Div_By_Zero
         else bindO (GenerateKeyFromInt K (x mod of_int num) num (us_key T)) (\<lambda>(key, buf).
                Inr (x mod of_int num, key, T\<lparr>th_rand := rand, us_key := buf\<rparr>)))"

definition new_value ::
  "('g, 'h, 'm, 'c, 'q, 'w, 'y) wlib_scheme \<Rightarrow> ('g, 'h, 'm, 'c, 'q, 'w) ustate \<Rightarrow>
   (bytes \<times> ('g, 'h, 'm, 'c, 'q, 'w) ustate) outcome" where
  "new_value L T = bindO (Generate (l_sampler L) (us_values T)) (\<lambda>(v, G). Inr (v, T\<lparr>us_values := G\<rparr>))"

text \<open>\<open>db->Get\<close> of the selected database, at a new timestamp if there are any.\<close>

definition db_get ::
  "('g, 'h, 'm, 'c, 'q, 'w, 'i) ulib \<Rightarrow> update_cfg \<Rightarrow> nat option \<Rightarrow> bytes \<Rightarrow> ('g, 'h, 'm, 'c, 'q, 'w) ustate \<Rightarrow>
   (Status \<times> ('g, 'h, 'm, 'c, 'q, 'w) ustate) outcome" where
  "db_get L C i key T =
     bindO (deref (db (selected (th_dbs T) i))) (\<lambda>m.
       let ((s, v), clock) =
             (if 0 < uc_timestamp_size C
              then let (ts, clock) = Allocate (th_timestamp T) in (l_get_ts L ts key m, clock)
              else (rdb_get (l_rdb L) key m, th_timestamp T))
       in Inr (s, T\<lparr>th_timestamp := clock, us_value := (if s = OK then v else us_value T)\<rparr>))"

definition db_put ::
  "('g, 'h, 'm, 'c, 'q, 'w, 'i) ulib \<Rightarrow> update_cfg \<Rightarrow> nat option \<Rightarrow> bytes \<Rightarrow> bytes \<Rightarrow> ('g, 'h, 'm, 'c, 'q, 'w) ustate \<Rightarrow>
   ('g, 'h, 'm, 'c, 'q, 'w) ustate outcome" where
  "db_put L C i key v T =
     bindO (deref (db (selected (th_dbs T) i))) (\<lambda>m.
       let ((s, m), clock) =
             (if 0 < uc_timestamp_size C
              then let (ts, clock) = Allocate (th_timestamp T) in (l_put_ts L ts key v m, clock)
              else (rdb_put (l_rdb L) key v m, th_timestamp T))
       in if s \<noteq> OK then Inl Process_Exit
          else Inr (T\<lparr>th_timestamp := clock, th_dbs := put_selected i m (th_dbs T)\<rparr>))"

definition db_merge ::
  "('g, 'h, 'm, 'c, 'q, 'w, 'i) ulib \<Rightarrow> nat option \<Rightarrow> 'h option option \<Rightarrow> bytes \<Rightarrow> bytes \<Rightarrow> ('g, 'h, 'm, 'c, 'q, 'w) ustate \<Rightarrow>
   ('g, 'h, 'm, 'c, 'q, 'w) ustate outcome" where
  "db_merge L i h key v T =
     bindO (deref (db (selected (th_dbs T) i))) (\<lambda>m.
       let (s, m) = l_merge L h key v m
       in if s \<noteq> OK then Inl Process_Exit else Inr (T\<lparr>th_dbs := put_selected i m (th_dbs T)\<rparr>))"

definition db_finished ::
  "('g, 'h, 'm, 'c, 'q, 'w, 'i) ulib \<Rightarrow> update_cfg \<Rightarrow> nat option \<Rightarrow> OperationType \<Rightarrow> ('g, 'h, 'm, 'c, 'q, 'w) ustate \<Rightarrow>
   ('g, 'h, 'm, 'c, 'q, 'w) ustate outcome" where
  "db_finished L C i op T = finished L (uc_stats C) (db (selected (th_dbs T) i)) 1 op T"

section \<open>Reads and writes through DB\_MASTER\<close>

text \<open>A batch of a hundred operations: gets first, then puts.\<close>

definition refill_weights :: "update_cfg \<Rightarrow> ('g, 'h, 'm, 'c, 'q, 'w) ustate \<Rightarrow> ('g, 'h, 'm, 'c, 'q, 'w) ustate" where
  "refill_weights C T =
     (if us_get_weight T = 0 \<and> us_put_weight T = 0
      then T\<lparr>us_get_weight := uc_readwritepercent C, us_put_weight := 100 - uc_readwritepercent C\<rparr> else T)"

definition rw_get ::
  "('g, 'h, 'm, 'c, 'q, 'w, 'i) ulib \<Rightarrow> update_cfg \<Rightarrow> nat option \<Rightarrow> bytes \<Rightarrow> ('g, 'h, 'm, 'c, 'q, 'w) ustate \<Rightarrow>
   ('g, 'h, 'm, 'c, 'q, 'w) ustate outcome" where
  "rw_get L C i key T =
     bindO (read_timestamp (l_random L) (uc_timestamp_size C) (uc_latest C) T) (\<lambda>T.
     bindO (master_Get (l_rdb L) (l_murmur L) (l_os L) key (us_value T) (th_master T)) (\<lambda>(s, v, M).
       db_finished L C i kRead
         (T\<lparr>th_master := M, us_value := v, us_found := us_found T + of_bool (s = OK),
            us_get_weight := us_get_weight T - 1, us_reads := us_reads T + 1\<rparr>)))"

definition rw_put ::
  "('g, 'h, 'm, 'c, 'q, 'w, 'i) ulib \<Rightarrow> update_cfg \<Rightarrow> nat option \<Rightarrow> bytes \<Rightarrow> ('g, 'h, 'm, 'c, 'q, 'w) ustate \<Rightarrow>
   ('g, 'h, 'm, 'c, 'q, 'w) ustate outcome" where
  "rw_put L C i key T =
     bindO (new_value L T) (\<lambda>(v, T).
     bindO (if 0 < uc_timestamp_size C then db_put L C i key v T
            else bindO (master_Put (l_rdb L) (l_murmur L) (l_os L) key v (th_master T)) (\<lambda>(s, M).
                   if s \<noteq> OK then Inl Process_Exit else Inr (T\<lparr>th_master := M\<rparr>))) (\<lambda>T.
       db_finished L C i kWrite (T\<lparr>us_put_weight := us_put_weight T - 1, us_writes := us_writes T + 1\<rparr>)))"

definition rw_turn ::
  "('g, 'h, 'm, 'c, 'q, 'w, 'i) ulib \<Rightarrow> update_cfg \<Rightarrow> ('g, 'h, 'm, 'c, 'q, 'w) ustate \<Rightarrow>
   ('g, 'h, 'm, 'c, 'q, 'w) ustate outcome" where
  "rw_turn L C T =
     bindO (select_db (l_random L) T) (\<lambda>(i, T).
     bindO (draw_key (l_random L) (uc_keys C) (uc_num C) T) (\<lambda>(_, key, T).
       let T = refill_weights C T
       in if 0 < us_get_weight T then rw_get L C i key T
          else if 0 < us_put_weight T then rw_put L C i key T
          else Inr T))"

section \<open>Read-modify-write\<close>

text \<open>The common beginning: a database, a key, and what is stored under it; errors end the process.\<close>

definition rmw_read ::
  "('g, 'h, 'm, 'c, 'q, 'w, 'i) ulib \<Rightarrow> update_cfg \<Rightarrow> fault \<Rightarrow> ('g, 'h, 'm, 'c, 'q, 'w) ustate \<Rightarrow>
   (nat option \<times> bytes \<times> Status \<times> ('g, 'h, 'm, 'c, 'q, 'w) ustate) outcome" where
  "rmw_read L C e T =
     bindO (select_db (l_random L) T) (\<lambda>(i, T).
     bindO (draw_key (l_random L) (uc_keys C) (uc_num C) T) (\<lambda>(_, key, T).
     bindO (db_get L C i key T) (\<lambda>(s, T).
       if s = OK then Inr (i, key, s, T\<lparr>us_found := us_found T + 1\<rparr>)
       else if s = NotFound then Inr (i, key, s, T) else Inl e)))"

definition moved :: "update_cfg \<Rightarrow> bytes \<Rightarrow> bytes \<Rightarrow> ('g, 'h, 'm, 'c, 'q, 'w) ustate \<Rightarrow> ('g, 'h, 'm, 'c, 'q, 'w) ustate" where
  "moved C key v T = T\<lparr>us_bytes := us_bytes T + int (length key) + int (length v) + uc_timestamp_size C\<rparr>"

definition update_turn ::
  "('g, 'h, 'm, 'c, 'q, 'w, 'i) ulib \<Rightarrow> update_cfg \<Rightarrow> ('g, 'h, 'm, 'c, 'q, 'w) ustate \<Rightarrow>
   ('g, 'h, 'm, 'c, 'q, 'w) ustate outcome" where
  "update_turn L C T =
     bindO (rmw_read L C Process_Abort T) (\<lambda>(i, key, s, T).
     bindO (new_value L (if s = OK then moved C key (us_value T) T else T)) (\<lambda>(v, T).
     bindO (db_put L C i key v T) (\<lambda>T. db_finished L C i kUpdate (moved C key v T))))"

definition xor_turn ::
  "('g, 'h, 'm, 'c, 'q, 'w, 'i) ulib \<Rightarrow> update_cfg \<Rightarrow> ('g, 'h, 'm, 'c, 'q, 'w) ustate \<Rightarrow>
   ('g, 'h, 'm, 'c, 'q, 'w) ustate outcome" where
  "xor_turn L C T =
     bindO (rmw_read L C Process_Exit T) (\<lambda>(i, key, s, T).
     bindO (Generate_len (of_nat (length (us_value T))) (us_values T)) (\<lambda>(v, G).
     bindO (db_put L C i key (l_xor L (if s = OK then Some (us_value T) else None) v) (T\<lparr>us_values := G\<rparr>)) (\<lambda>T.
       db_finished L C i kOthers T)))"

text \<open>The appended value: a comma between what was there and what is new.\<close>

definition append_value :: "bytes \<Rightarrow> bytes \<Rightarrow> bytes" where
  "append_value v x = (if v \<noteq> [] then v @ [of_char CHR '',''] else v) @ x"

definition append_turn ::
  "('g, 'h, 'm, 'c, 'q, 'w, 'i) ulib \<Rightarrow> update_cfg \<Rightarrow> ('g, 'h, 'm, 'c, 'q, 'w) ustate \<Rightarrow>
   ('g, 'h, 'm, 'c, 'q, 'w) ustate outcome" where
  "append_turn L C T =
     bindO (rmw_read L C Process_Abort T) (\<lambda>(i, key, s, T).
     bindO (new_value L (if s = OK then moved C key (us_value T) T else T\<lparr>us_value := []\<rparr>)) (\<lambda>(x, T).
       let v = append_value (us_value T) x
       in bindO (db_put L C i key v (T\<lparr>us_value := v\<rparr>)) (\<lambda>T. db_finished L C i kUpdate (moved C key v T))))"

definition merge_turn ::
  "('g, 'h, 'm, 'c, 'q, 'w, 'i) ulib \<Rightarrow> update_cfg \<Rightarrow> ('g, 'h, 'm, 'c, 'q, 'w) ustate \<Rightarrow>
   ('g, 'h, 'm, 'c, 'q, 'w) ustate outcome" where
  "merge_turn L C T =
     bindO (select_db (l_random L) T) (\<lambda>(i, T).
     bindO (draw_key (l_random L) (uc_keys C) (uc_merge_keys C) T) (\<lambda>(x, key, T).
     bindO (new_value L T) (\<lambda>(v, T).
     bindO (if 1 < uc_num_cf C then bindO (GetCfh (sint x) (selected (th_dbs T) i)) (\<lambda>h. Inr (Some h)) else Inr None) (\<lambda>h.
     bindO (db_merge L i h key v T) (\<lambda>T.
       db_finished L C i kMerge (T\<lparr>us_bytes := us_bytes T + int (length key) + int (length v)\<rparr>))))))"

definition read_merge_turn ::
  "('g, 'h, 'm, 'c, 'q, 'w, 'i) ulib \<Rightarrow> update_cfg \<Rightarrow> ('g, 'h, 'm, 'c, 'q, 'w) ustate \<Rightarrow>
   ('g, 'h, 'm, 'c, 'q, 'w) ustate outcome" where
  "read_merge_turn L C T =
     bindO (select_db (l_random L) T) (\<lambda>(i, T).
     bindO (draw_key (l_random L) (uc_keys C) (uc_merge_keys C) T) (\<lambda>(_, key, T).
       let (x, rand) = r64_next (l_random L) (th_rand T);
           T = T\<lparr>th_rand := rand\<rparr>
       in if int (unat (x mod 100)) < uc_mergereadpercent C
          then bindO (new_value L T) (\<lambda>(v, T).
               bindO (db_merge L i None key v T) (\<lambda>T. db_finished L C i kMerge (T\<lparr>us_writes := us_writes T + 1\<rparr>)))
          else bindO (deref (db (selected (th_dbs T) i))) (\<lambda>m.
                 let (s, v) = rdb_get (l_rdb L) key m;
                     v = (if s = OK then v else us_value T)
                 in db_finished L C i kRead
                      (T\<lparr>us_value := v, us_max_length := max (us_max_length T) (length v),
                         us_found := us_found T + of_bool (s = OK), us_reads := us_reads T + 1\<rparr>))))"

section \<open>The benchmarks\<close>

definition update_start ::
  "('g, 'h, 'm, 'c, 'q, 'w, 'i) ulib \<Rightarrow> update_cfg \<Rightarrow> 'g RandomGenerator \<Rightarrow> ('g, 'h, 'm, 'c, 'q, 'w) bench_thread \<Rightarrow>
   ('g, 'h, 'm, 'c, 'q, 'w) ustate" where
  "update_start L C gen T =
     (let (D, c) = Duration_new (l_now L) (of_int (uc_duration C)) (uc_readwrites C) 0 (clk (th_env T))
      in bench_thread.extend (T\<lparr>th_duration := D, th_env := (th_env T)\<lparr>clk := c\<rparr>\<rparr>)
           (ustate.fields (AllocateKey (uc_keys C)) gen [] 0 0 0 0 0 0 0 0 0))"

definition u64_text :: "int \<Rightarrow> bytes" where
  "u64_text x = to_string (unat (of_int x :: u64))"

definition ReadRandomWriteRandom ::
  "('g, 'h, 'm, 'c, 'q, 'w, 'i) ulib \<Rightarrow> update_cfg \<Rightarrow> 'g RandomGenerator \<Rightarrow> nat \<Rightarrow> ('g, 'h, 'm, 'c, 'q, 'w) bench_thread \<Rightarrow>
   ('g, 'h, 'm, 'c, 'q, 'w) ustate outcome" where
  "ReadRandomWriteRandom L C gen fuel T =
     bindO (bench_loop (l_now L) (uc_granularity C) 1 (rw_turn L C) fuel (update_start L C gen T)) (\<lambda>T.
       Inr (T\<lparr>th_stats := AddMessage (take 99 (bytes_of ''( reads:'' @ u64_text (us_reads T) @ bytes_of '' writes:'' @
         u64_text (us_writes T) @ bytes_of '' total:'' @ u64_text (uc_readwrites C) @ bytes_of '' found:'' @
         u64_text (us_found T) @ bytes_of '')'')) (th_stats T)\<rparr>))"

text \<open>The message \<open>UpdateRandom\<close>, \<open>XORUpdateRandom\<close> and \<open>AppendRandom\<close> end with.\<close>

definition updates_message :: "update_cfg \<Rightarrow> ('g, 'h, 'm, 'c, 'q, 'w) ustate \<Rightarrow> bytes" where
  "updates_message C T =
     bytes_of ''( updates:'' @ u64_text (uc_readwrites C) @ bytes_of '' found:'' @ u64_text (us_found T) @ bytes_of '')''"

definition UpdateRandom ::
  "('g, 'h, 'm, 'c, 'q, 'w, 'i) ulib \<Rightarrow> update_cfg \<Rightarrow> 'g RandomGenerator \<Rightarrow> nat \<Rightarrow> ('g, 'h, 'm, 'c, 'q, 'w) bench_thread \<Rightarrow>
   ('g, 'h, 'm, 'c, 'q, 'w) ustate outcome" where
  "UpdateRandom L C gen fuel T =
     bindO (bench_loop (l_now L) (uc_granularity C) 1 (update_turn L C) fuel (update_start L C gen T)) (\<lambda>T.
       Inr (T\<lparr>th_stats := AddMessage (updates_message C T) (AddBytes (us_bytes T) (th_stats T))\<rparr>))"

definition XORUpdateRandom ::
  "('g, 'h, 'm, 'c, 'q, 'w, 'i) ulib \<Rightarrow> update_cfg \<Rightarrow> 'g RandomGenerator \<Rightarrow> nat \<Rightarrow> ('g, 'h, 'm, 'c, 'q, 'w) bench_thread \<Rightarrow>
   ('g, 'h, 'm, 'c, 'q, 'w) ustate outcome" where
  "XORUpdateRandom L C gen fuel T =
     bindO (bench_loop (l_now L) (uc_granularity C) 1 (xor_turn L C) fuel (update_start L C gen T)) (\<lambda>T.
       Inr (T\<lparr>th_stats := AddMessage (updates_message C T) (th_stats T)\<rparr>))"

definition AppendRandom ::
  "('g, 'h, 'm, 'c, 'q, 'w, 'i) ulib \<Rightarrow> update_cfg \<Rightarrow> 'g RandomGenerator \<Rightarrow> nat \<Rightarrow> ('g, 'h, 'm, 'c, 'q, 'w) bench_thread \<Rightarrow>
   ('g, 'h, 'm, 'c, 'q, 'w) ustate outcome" where
  "AppendRandom L C gen fuel T =
     bindO (bench_loop (l_now L) (uc_granularity C) 1 (append_turn L C) fuel (update_start L C gen T)) (\<lambda>T.
       Inr (T\<lparr>th_stats := AddMessage (updates_message C T) (AddBytes (us_bytes T) (th_stats T))\<rparr>))"

definition MergeRandom ::
  "('g, 'h, 'm, 'c, 'q, 'w, 'i) ulib \<Rightarrow> update_cfg \<Rightarrow> 'g RandomGenerator \<Rightarrow> nat \<Rightarrow> ('g, 'h, 'm, 'c, 'q, 'w) bench_thread \<Rightarrow>
   ('g, 'h, 'm, 'c, 'q, 'w) ustate outcome" where
  "MergeRandom L C gen fuel T =
     bindO (bench_loop (l_now L) (uc_granularity C) 1 (merge_turn L C) fuel (update_start L C gen T)) (\<lambda>T.
       Inr (T\<lparr>th_stats := AddMessage (bytes_of ''( updates:'' @ u64_text (uc_readwrites C) @ bytes_of '')'')
         (AddBytes (us_bytes T) (th_stats T))\<rparr>))"

definition ReadRandomMergeRandom ::
  "('g, 'h, 'm, 'c, 'q, 'w, 'i) ulib \<Rightarrow> update_cfg \<Rightarrow> 'g RandomGenerator \<Rightarrow> nat \<Rightarrow> ('g, 'h, 'm, 'c, 'q, 'w) bench_thread \<Rightarrow>
   ('g, 'h, 'm, 'c, 'q, 'w) ustate outcome" where
  "ReadRandomMergeRandom L C gen fuel T =
     bindO (bench_loop (l_now L) (uc_granularity C) 1 (read_merge_turn L C) fuel (update_start L C gen T)) (\<lambda>T.
       Inr (T\<lparr>th_stats := AddMessage (take 99 (bytes_of ''(reads:'' @ u64_text (us_reads T) @ bytes_of '' merges:'' @
         u64_text (us_writes T) @ bytes_of '' total:'' @ u64_text (uc_readwrites C) @ bytes_of '' hits:'' @
         u64_text (us_found T) @ bytes_of '' maxlength:'' @ to_string (us_max_length T) @ bytes_of '')'')) (th_stats T)\<rparr>))"

section \<open>How many reads and writes\<close>

definition plain_update :: "update_cfg \<Rightarrow> bool" where
  "plain_update C \<longleftrightarrow> valid_cfg (uc_keys C) \<and> keys_per_prefix (uc_keys C) \<le> 0 \<and> 0 < uc_num C \<and> in_i64 (uc_num C) \<and>
     uc_timestamp_size C \<le> 0 \<and> uc_duration C = 0 \<and> fl_stats_interval (uc_stats C) = 0 \<and>
     0 \<le> uc_readwritepercent C \<and> uc_readwritepercent C \<le> 100"

definition update_inv :: "update_cfg \<Rightarrow> ('g, 'h, 'm, 'c, 'q, 'w) ustate \<Rightarrow> bool" where
  "update_inv C T \<longleftrightarrow>
     db (bdb (th_dbs T)) \<noteq> None \<and> s_reporter (th_stats T) \<noteq> None \<and> rsize (us_key T) = nat (key_size (uc_keys C)) \<and>
     kache_flag (th_master T) = 0 \<and> monitor_L0_status_arr (th_master T) \<noteq> LEVEL_HIGH \<and> dbptr (th_master T) \<noteq> None \<and>
     gen_inv (us_values T)"

text \<open>Every key has been loaded into the Main-LSM.\<close>

definition loaded :: "('w, 'm) rocksdb \<Rightarrow> update_cfg \<Rightarrow> ('w, 'm) master \<Rightarrow> bool" where
  "loaded rdb C M \<longleftrightarrow> (\<exists>m. dbptr M = Some m \<and> (\<forall>x. 0 \<le> x \<and> x < uc_num C \<longrightarrow> present rdb (uc_keys C) (uc_num C) m x))"

text \<open>The weights \<open>r\<close> turns into a batch of a hundred with \<open>p\<close> reads, and the reads in \<open>n\<close> turns.\<close>

definition weights :: "int \<Rightarrow> int \<Rightarrow> int \<times> int" where
  "weights p r = (max 0 (p - r), 100 - max p r)"

definition reads_in :: "int \<Rightarrow> int \<Rightarrow> int" where
  "reads_in p n = p * (n div 100) + min p (n mod 100)"

definition rw_counts :: "update_cfg \<Rightarrow> bool \<Rightarrow> int \<Rightarrow> ('g, 'h, 'm, 'c, 'q, 'w) ustate \<Rightarrow> bool" where
  "rw_counts C full n T \<longleftrightarrow>
     (us_get_weight T, us_put_weight T) = (if n mod 100 = 0 then (0, 0) else weights (uc_readwritepercent C) (n mod 100)) \<and>
     us_reads T = reads_in (uc_readwritepercent C) n \<and> us_writes T = n - us_reads T \<and> (full \<longrightarrow> us_found T = us_reads T)"

lemma next_in_batch:
  fixes n :: int
  shows "(n + 1) mod 100 = (if n mod 100 = 99 then 0 else n mod 100 + 1)"
    and "(n + 1) div 100 = (if n mod 100 = 99 then n div 100 + 1 else n div 100)"
proof -
  have r: "0 \<le> n mod 100" "n mod 100 < 100" by simp_all
  have "(n + 1) mod 100 = (n mod 100 + 1) mod 100" by (simp add: mod_simps)
  then show "(n + 1) mod 100 = (if n mod 100 = 99 then 0 else n mod 100 + 1)"
    using r by (auto simp: mod_pos_pos_trivial)
  have "(n + 1) div 100 = n div 100 + (n mod 100 + 1) div 100"
    using div_add1_eq [of n 1 100] by simp
  then show "(n + 1) div 100 = (if n mod 100 = 99 then n div 100 + 1 else n div 100)"
    using r by (auto simp: div_pos_pos_trivial)
qed

lemma reads_in_next:
  assumes "0 \<le> p" and "p \<le> 100"
  shows "reads_in p (n + 1) = reads_in p n + of_bool (n mod 100 < p)"
proof -
  have "0 \<le> n mod 100" "n mod 100 < 100" by simp_all
  then show ?thesis
    unfolding reads_in_def next_in_batch using assms by (auto simp: distrib_left min_def)
qed

lemma weights_next:
  assumes "0 \<le> p" and "p \<le> 100"
  shows "(if n mod 100 < p then (fst (weights p (n mod 100)) - 1, snd (weights p (n mod 100)))
          else (fst (weights p (n mod 100)), snd (weights p (n mod 100)) - 1)) =
    (if (n + 1) mod 100 = 0 then (0, 0) else weights p ((n + 1) mod 100))"
proof -
  have "0 \<le> n mod 100" "n mod 100 < 100" by simp_all
  then show ?thesis
    using assms by (auto simp: weights_def next_in_batch)
qed

lemma refilled:
  assumes "0 \<le> p" and "p \<le> 100" and "uc_readwritepercent C = p" and "rw_counts C full n T"
  shows "us_get_weight (refill_weights C T) = max 0 (p - n mod 100)"
    and "us_put_weight (refill_weights C T) = 100 - max p (n mod 100)"
proof -
  have "0 \<le> n mod 100" "n mod 100 < 100" by simp_all
  then show "us_get_weight (refill_weights C T) = max 0 (p - n mod 100)"
    "us_put_weight (refill_weights C T) = 100 - max p (n mod 100)"
    using assms by (auto simp: refill_weights_def rw_counts_def weights_def split: if_splits)
qed

lemma draw_key_plain:
  assumes "valid_cfg K" and "keys_per_prefix K \<le> 0" and "0 < num" and "in_i64 num" and "rsize (us_key T) = nat (key_size K)"
    and "x = sint (fst (r64_next R (th_rand T)) mod of_int num)"
  shows "\<exists>buf. rsize buf = nat (key_size K) \<and>
    draw_key R K num T = Inr (of_int x, key_bytes K (of_int x) num, T\<lparr>th_rand := snd (r64_next R (th_rand T)), us_key := buf\<rparr>)"
proof -
  have nz: "(of_int num :: u64) \<noteq> 0"
    using assms(3,4) sint_of_int64 [of num] by auto
  obtain buf where "GenerateKeyFromInt K (of_int x) num (us_key T) = Inr (key_bytes K (of_int x) num, buf)"
    "rsize buf = nat (key_size K)"
    using GenerateKeyFromInt_layout [of K "us_key T" num "of_int x"] assms(1,2,5) by auto
  then show ?thesis
    using nz assms(6) by (intro exI [of _ buf]) (simp add: draw_key_def split_beta)
qed

lemma draw_key_ok:
  assumes "plain_update C" and "rsize (us_key T) = nat (key_size (uc_keys C))"
  shows "\<exists>x g buf. 0 \<le> x \<and> x < uc_num C \<and> rsize buf = nat (key_size (uc_keys C)) \<and>
    draw_key R (uc_keys C) (uc_num C) T =
      Inr (of_int x, key_bytes (uc_keys C) (of_int x) (uc_num C), T\<lparr>th_rand := g, us_key := buf\<rparr>)"
  using draw_key_plain [OF _ _ _ _ assms(2) refl, of "uc_num C" R] sint_mod_range [of "uc_num C"] assms(1)
  unfolding plain_update_def by blast

lemma db_finished_ok:
  assumes "plain_update C" and "update_inv C U"
  shows "\<exists>S E. db_finished L C i op U = Inr (U\<lparr>th_stats := S, th_env := E\<rparr>) \<and> update_inv C (U\<lparr>th_stats := S, th_env := E\<rparr>)"
proof -
  have "s_reporter (th_stats U) \<noteq> None" "fl_stats_interval (uc_stats C) = 0"
    using assms by (simp_all add: plain_update_def update_inv_def)
  then obtain S E where "finished L (uc_stats C) (db (selected (th_dbs U) i)) 1 op U = Inr (U\<lparr>th_stats := S, th_env := E\<rparr>)"
    "s_reporter S \<noteq> None"
    using finished_plain by blast
  then show ?thesis
    using assms(2) by (auto simp: db_finished_def update_inv_def)
qed

text \<open>A get and a put of \<open>ReadRandomWriteRandom\<close>.\<close>

lemma rw_get_ok:
  assumes "plain_update C" and "update_inv C T" and "full \<longrightarrow> loaded (l_rdb L) C (th_master T)" and "0 \<le> x" and "x < uc_num C"
  shows "\<exists>T'. rw_get L C i (key_bytes (uc_keys C) (of_int x) (uc_num C)) T = Inr T' \<and> update_inv C T' \<and>
    us_get_weight T' = us_get_weight T - 1 \<and> us_put_weight T' = us_put_weight T \<and> us_reads T' = us_reads T + 1 \<and>
    us_writes T' = us_writes T \<and> (full \<longrightarrow> us_found T' = us_found T + 1 \<and> loaded (l_rdb L) C (th_master T')) \<and>
    th_duration T' = th_duration T"
proof -
  let ?key = "key_bytes (uc_keys C) (of_int x) (uc_num C)"
  obtain m where m: "dbptr (th_master T) = Some m"
    using assms(2) by (auto simp: update_inv_def)
  obtain st v where v: "rdb_get (l_rdb L) ?key m = (st, v)" by (rule prod.exhaust)
  have found: "full \<longrightarrow> st = OK"
    using assms(3-5) m v by (auto simp: loaded_def present_def)
  have "\<exists>s w. master_Get (l_rdb L) (l_murmur L) (l_os L) ?key (us_value T) (th_master T) = Inr (s, w, th_master T) \<and>
      (st = OK \<longrightarrow> s = OK)"
    using assms(2) m v by (auto simp: master_Get_def main_get_def update_inv_def)
  then obtain s w where g: "master_Get (l_rdb L) (l_murmur L) (l_os L) ?key (us_value T) (th_master T) = Inr (s, w, th_master T)"
    "st = OK \<longrightarrow> s = OK" by blast
  define U where "U = T\<lparr>us_value := w, us_found := us_found T + of_bool (s = OK), us_get_weight := us_get_weight T - 1,
    us_reads := us_reads T + 1\<rparr>"
  have "update_inv C U"
    using assms(2) by (simp add: update_inv_def U_def)
  then obtain S E where f: "db_finished L C i kRead U = Inr (U\<lparr>th_stats := S, th_env := E\<rparr>)" "update_inv C (U\<lparr>th_stats := S, th_env := E\<rparr>)"
    using db_finished_ok [OF assms(1)] by blast
  have "rw_get L C i ?key T = db_finished L C i kRead U"
    using g(1) assms(1) by (simp add: rw_get_def read_timestamp_def plain_update_def U_def)
  then show ?thesis
    using f g(2) found assms(3) by (simp add: U_def)
qed

lemma rw_put_ok:
  assumes "plain_update C" and "update_inv C T" and "full \<longrightarrow> loaded (l_rdb L) C (th_master T)"
    and "uniform_laws (l_sampler L)" and "main_laws (l_rdb L)" and "\<forall>k v m. fst (rdb_put (l_rdb L) k v m) = OK"
  shows "\<exists>T'. rw_put L C i key T = Inr T' \<and> update_inv C T' \<and>
    us_get_weight T' = us_get_weight T \<and> us_put_weight T' = us_put_weight T - 1 \<and> us_reads T' = us_reads T \<and>
    us_writes T' = us_writes T + 1 \<and> us_found T' = us_found T \<and> (full \<longrightarrow> loaded (l_rdb L) C (th_master T')) \<and>
    th_duration T' = th_duration T"
proof -
  obtain m where m: "dbptr (th_master T) = Some m"
    using assms(2) by (auto simp: update_inv_def)
  have "gen_inv (us_values T)"
    using assms(2) by (simp add: update_inv_def)
  then obtain v G where v: "Generate (l_sampler L) (us_values T) = Inr (v, G)" "gen_inv G"
    using Generate_ok [OF assms(4)] by blast
  let ?m = "snd (rdb_put (l_rdb L) key v m)"
  let ?M = "(th_master T)\<lparr>dbptr := Some ?m\<rparr>"
  have p: "master_Put (l_rdb L) (l_murmur L) (l_os L) key v (th_master T) = Inr (OK, ?M)"
    using main_put_ok [OF m] assms(2,6) by (simp add: master_Put_def update_inv_def)
  have "present (l_rdb L) (uc_keys C) (uc_num C) m x \<Longrightarrow> present (l_rdb L) (uc_keys C) (uc_num C) ?m x" for x
    using assms(5,6) by (auto simp: present_def main_laws_def)
  then have l: "full \<longrightarrow> loaded (l_rdb L) C ?M"
    using assms(3) m by (auto simp: loaded_def)
  define U where "U = T\<lparr>us_values := G, th_master := ?M, us_put_weight := us_put_weight T - 1, us_writes := us_writes T + 1\<rparr>"
  have "update_inv C U"
    using assms(2) v(2) by (simp add: update_inv_def U_def)
  then obtain S E where f: "db_finished L C i kWrite U = Inr (U\<lparr>th_stats := S, th_env := E\<rparr>)" "update_inv C (U\<lparr>th_stats := S, th_env := E\<rparr>)"
    using db_finished_ok [OF assms(1)] by blast
  have "rw_put L C i key T = db_finished L C i kWrite U"
    using v(1) p assms(1) by (simp add: rw_put_def new_value_def plain_update_def U_def)
  then show ?thesis
    using f l by (simp add: U_def)
qed

definition rw_pos :: "('g, 'h, 'm, 'c, 'q, 'w, 'i) ulib \<Rightarrow> update_cfg \<Rightarrow> bool \<Rightarrow> nat \<Rightarrow> ('g, 'h, 'm, 'c, 'q, 'w) ustate \<Rightarrow> bool" where
  "rw_pos L C full i T \<longleftrightarrow>
     plain_update C \<and> uniform_laws (l_sampler L) \<and> main_laws (l_rdb L) \<and> (\<forall>k v m. fst (rdb_put (l_rdb L) k v m) = OK) \<and>
     update_inv C T \<and> (full \<longrightarrow> loaded (l_rdb L) C (th_master T)) \<and> rw_counts C full (int i) T"

lemma rw_turn_pos:
  assumes "rw_pos L C full i T"
  shows "\<exists>T'. rw_turn L C T = Inr T' \<and> rw_pos L C full (Suc i) T' \<and> th_duration T' = th_duration T"
proof -
  let ?p = "uc_readwritepercent C" and ?r = "int i mod 100"
  have C: "plain_update C" "uniform_laws (l_sampler L)" "main_laws (l_rdb L)" "\<forall>k v m. fst (rdb_put (l_rdb L) k v m) = OK"
    "update_inv C T" "full \<longrightarrow> loaded (l_rdb L) C (th_master T)" "rw_counts C full (int i) T"
    using assms by (simp_all add: rw_pos_def)
  have p: "0 \<le> ?p" "?p \<le> 100"
    using C(1) by (simp_all add: plain_update_def)
  obtain g where b: "select_db (l_random L) T = Inr (None, T\<lparr>th_rand := g\<rparr>)"
    using C(5) by (auto simp: select_db_def SelectDBWithCfh_def update_inv_def split_beta)
  obtain x g' buf where x: "0 \<le> x" "x < uc_num C" "rsize buf = nat (key_size (uc_keys C))"
    "draw_key (l_random L) (uc_keys C) (uc_num C) (T\<lparr>th_rand := g\<rparr>) =
      Inr (of_int x, key_bytes (uc_keys C) (of_int x) (uc_num C), T\<lparr>th_rand := g', us_key := buf\<rparr>)"
    using draw_key_ok [OF C(1), of "T\<lparr>th_rand := g\<rparr>" "l_random L"] C(5) by (auto simp: update_inv_def)
  let ?key = "key_bytes (uc_keys C) (of_int x) (uc_num C)"
  define U where "U = refill_weights C (T\<lparr>th_rand := g', us_key := buf\<rparr>)"
  have U: "update_inv C U" "full \<longrightarrow> loaded (l_rdb L) C (th_master U)" "th_duration U = th_duration T"
    "us_reads U = us_reads T" "us_writes U = us_writes T" "us_found U = us_found T"
    using C(5,6) x(3) by (simp_all add: U_def refill_weights_def update_inv_def)
  have "rw_counts C full (int i) (T\<lparr>th_rand := g', us_key := buf\<rparr>)"
    using C(7) by (simp add: rw_counts_def)
  then have w: "us_get_weight U = fst (weights ?p ?r)" "us_put_weight U = snd (weights ?p ?r)"
    unfolding U_def weights_def fst_conv snd_conv by (rule refilled [OF p refl])+
  have t: "rw_turn L C T = (if ?r < ?p then rw_get L C None ?key U else rw_put L C None ?key U)"
    using b x(4) p w by (simp add: rw_turn_def U_def Let_def weights_def)
  note n = reads_in_next [OF p, of "int i"] weights_next [OF p, of "int i"]
  show ?thesis
  proof (cases "?r < ?p")
    case True
    obtain T' where "rw_get L C None ?key U = Inr T'" "update_inv C T'" "us_get_weight T' = us_get_weight U - 1"
      "us_put_weight T' = us_put_weight U" "us_reads T' = us_reads U + 1" "us_writes T' = us_writes U"
      "full \<longrightarrow> us_found T' = us_found U + 1 \<and> loaded (l_rdb L) C (th_master T')" "th_duration T' = th_duration U"
      using rw_get_ok [OF C(1) U(1,2) x(1,2)] by blast
    then show ?thesis
      using t True C U n w by (simp add: rw_pos_def rw_counts_def add.commute)
  next
    case False
    obtain T' where "rw_put L C None ?key U = Inr T'" "update_inv C T'" "us_get_weight T' = us_get_weight U"
      "us_put_weight T' = us_put_weight U - 1" "us_reads T' = us_reads U" "us_writes T' = us_writes U + 1" "us_found T' = us_found U"
      "full \<longrightarrow> loaded (l_rdb L) C (th_master T')" "th_duration T' = th_duration U"
      using rw_put_ok [OF C(1) U(1,2) C(2-4)] by blast
    then show ?thesis
      using t False C U n w by (simp add: rw_pos_def rw_counts_def add.commute)
  qed
qed

interpretation rws: counted_body "rw_turn L C" "rw_pos L C full"
  by (unfold_locales, erule rw_turn_pos, simp add: rw_pos_def update_inv_def rw_counts_def)


text \<open>Three operations with one per cent of reads: a read and two writes.\<close>

fun list_apply :: "'h batch_op \<Rightarrow> (bytes \<times> bytes) list \<Rightarrow> (bytes \<times> bytes) list" where
  "list_apply (BPut _ k v) m = (k, v) # m"
| "list_apply (BDelete _ k) m = filter (\<lambda>(a, _). a \<noteq> k) m"
| "list_apply (BDeleteRange _ _ _) m = m"

definition update_lib :: "(unit, nat, (bytes \<times> bytes) list, unit, unit, unit, nat) ulib" where
  "update_lib = rlib.extend read_lib
     (ulib.fields (\<lambda>bs m. (OK, fold list_apply bs m)) (\<lambda>_ k v m. (OK, (k, v) # m)) (\<lambda>_. rdb_get list_rdb)
        (\<lambda>_ k v m. (OK, (k, v) # m)) (\<lambda>_ v. v))"

definition three_updates :: update_cfg where
  "three_updates =
     \<lparr>uc_keys = four_byte_keys, uc_num = 10, uc_numdistinct = 5, uc_merge_keys = 10, uc_readwrites = 3, uc_duration = 0,
      uc_granularity = 1000, uc_readwritepercent = 1, uc_deletepercent = 2, uc_mergereadpercent = 70, uc_num_cf = 1,
      uc_timestamp_size = 0, uc_latest = False, uc_stats = wc_stats one_write\<rparr>"

lemmas update_lib_simps = update_lib_def read_lib_def sample_lib_def wlib.defs rlib.defs ulib.defs list_rdb_def

lemma updater_ready:
  "plain_update three_updates" "uniform_laws (l_sampler update_lib)" "main_laws (l_rdb update_lib)"
  "\<forall>k v m. fst (rdb_put (l_rdb update_lib) k v m) = OK" "kache_flag (th_master reader) = 0"
  "monitor_L0_status_arr (th_master reader) \<noteq> LEVEL_HIGH" "dbptr (th_master reader) \<noteq> None"
  "db (bdb (th_dbs reader)) \<noteq> None" "s_reporter (th_stats reader) \<noteq> None" "gen_inv byte_values"
  using list_rdb_laws
  by (simp_all add: plain_update_def three_updates_def uniform_laws_def low_sampler_def update_lib_simps reader_def
      write_start_def idle_stats_def one_write_def in_i64_def four_byte_keys_def valid_cfg_def started_simps gen_inv_def byte_values_def)


section \<open>Updates do not reach DB\_MASTER\<close>

text \<open>
  The benchmark's own database holds exactly the keys written so far, a read succeeds when its key is among
  them, and \<open>DB_MASTER\<close> is left alone.
\<close>

definition number_key :: "update_cfg \<Rightarrow> int \<Rightarrow> bytes" where
  "number_key C x = key_bytes (uc_keys C) (of_int x) (uc_num C)"

definition holds_keys :: "('w, 'm) rocksdb \<Rightarrow> bytes set \<Rightarrow> 'm \<Rightarrow> bool" where
  "holds_keys rdb A m \<longleftrightarrow> (\<forall>k. fst (rdb_get rdb k m) = (if k \<in> A then OK else NotFound))"

definition update_pos ::
  "('g, 'h, 'm, 'c, 'q, 'w, 'i) ulib \<Rightarrow> update_cfg \<Rightarrow> ('w, 'm) master \<Rightarrow> 'g \<Rightarrow> nat \<Rightarrow> ('g, 'h, 'm, 'c, 'q, 'w) ustate \<Rightarrow> bool" where
  "update_pos L C M g i T \<longleftrightarrow>
     plain_update C \<and> uniform_laws (l_sampler L) \<and> main_laws (l_rdb L) \<and> (\<forall>k v m. fst (rdb_put (l_rdb L) k v m) = OK) \<and>
     th_master T = M \<and> s_reporter (th_stats T) \<noteq> None \<and> rsize (us_key T) = nat (key_size (uc_keys C)) \<and> gen_inv (us_values T) \<and>
     th_rand T = snd (read_draws (l_random L) (uc_num C) i g) \<and>
     (\<exists>m. db (bdb (th_dbs T)) = Some m \<and>
        holds_keys (l_rdb L) (number_key C ` set (fst (read_draws (l_random L) (uc_num C) i g))) m) \<and>
     us_found T = int i - int (card (number_key C ` set (fst (read_draws (l_random L) (uc_num C) i g))))"

lemma rmw_read_plain:
  assumes "plain_update C" and "db (bdb (th_dbs T)) = Some m" and "rsize (us_key T) = nat (key_size (uc_keys C))"
    and "holds_keys (l_rdb L) A m" and "r64_next (l_random L) (th_rand T) = (y, g1)"
    and "r64_next (l_random L) g1 = (z, g2)" and "x = sint (z mod of_int (uc_num C))"
  shows "\<exists>buf v. rsize buf = nat (key_size (uc_keys C)) \<and>
    rmw_read L C e T = Inr (None, number_key C x, if number_key C x \<in> A then OK else NotFound,
      T\<lparr>th_rand := g2, us_key := buf, us_value := v, us_found := us_found T + of_bool (number_key C x \<in> A)\<rparr>)"
proof -
  have b: "select_db (l_random L) T = Inr (None, T\<lparr>th_rand := g1\<rparr>)"
    using assms(2,5) by (simp add: select_db_def SelectDBWithCfh_def)
  obtain buf where k: "rsize buf = nat (key_size (uc_keys C))"
    "draw_key (l_random L) (uc_keys C) (uc_num C) (T\<lparr>th_rand := g1\<rparr>) =
      Inr (of_int x, number_key C x, T\<lparr>th_rand := g2, us_key := buf\<rparr>)"
    using draw_key_plain [of "uc_keys C" "uc_num C" "T\<lparr>th_rand := g1\<rparr>" x "l_random L"] assms(1,3,6,7)
    by (auto simp: plain_update_def number_key_def)
  obtain s v where v: "rdb_get (l_rdb L) (number_key C x) m = (s, v)" by (rule prod.exhaust)
  then have s: "s = (if number_key C x \<in> A then OK else NotFound)"
    using assms(4) unfolding holds_keys_def by (metis fst_conv)
  have "rmw_read L C e T = Inr (None, number_key C x, s,
      T\<lparr>th_rand := g2, us_key := buf, us_value := (if s = OK then v else us_value T), us_found := us_found T + of_bool (s = OK)\<rparr>)"
    using assms(1,2) b k(2) v s by (simp add: rmw_read_def db_get_def plain_update_def selected_def)
  then show ?thesis
    using k(1) s by (intro exI [of _ buf] exI [of _ "if s = OK then v else us_value T"]) simp
qed

text \<open>Writing a key adds it to the keys held.\<close>

lemma holds_keys_put:
  assumes "main_laws rdb" and "fst (rdb_put rdb k v m) = OK" and "holds_keys rdb A m"
  shows "holds_keys rdb (insert k A) (snd (rdb_put rdb k v m))"
  using assms by (auto simp: holds_keys_def main_laws_def)

lemma update_turn_pos:
  assumes "update_pos L C M g i T"
  shows "\<exists>T'. update_turn L C T = Inr T' \<and> update_pos L C M g (Suc i) T' \<and> th_duration T' = th_duration T"
proof -
  define xs where "xs = fst (read_draws (l_random L) (uc_num C) i g)"
  define A where "A = number_key C ` set xs"
  have C: "plain_update C" "uniform_laws (l_sampler L)" "main_laws (l_rdb L)" "\<forall>k v m. fst (rdb_put (l_rdb L) k v m) = OK"
    "rsize (us_key T) = nat (key_size (uc_keys C))" "gen_inv (us_values T)" "s_reporter (th_stats T) \<noteq> None"
    using assms by (simp_all add: update_pos_def)
  obtain m where m: "db (bdb (th_dbs T)) = Some m" "holds_keys (l_rdb L) A m"
    using assms by (auto simp: update_pos_def A_def xs_def)
  obtain y g1 where y: "r64_next (l_random L) (th_rand T) = (y, g1)" by (rule prod.exhaust)
  obtain z g2 where z: "r64_next (l_random L) g1 = (z, g2)" by (rule prod.exhaust)
  define x where "x = sint (z mod of_int (uc_num C))"
  let ?k = "number_key C x"
  obtain buf v where r: "rsize buf = nat (key_size (uc_keys C))"
    "rmw_read L C Process_Abort T = Inr (None, ?k, if ?k \<in> A then OK else NotFound,
      T\<lparr>th_rand := g2, us_key := buf, us_value := v, us_found := us_found T + of_bool (?k \<in> A)\<rparr>)"
    using rmw_read_plain [OF C(1) m(1) C(5) m(2) y z x_def] by blast
  obtain w G where w: "Generate (l_sampler L) (us_values T) = Inr (w, G)" "gen_inv G"
    using Generate_ok [OF C(2,6)] by blast
  let ?m = "snd (rdb_put (l_rdb L) ?k w m)"
  define U where "U = moved C ?k w ((if ?k \<in> A then moved C ?k v else id)
    (T\<lparr>th_rand := g2, us_key := buf, us_value := v, us_found := us_found T + of_bool (?k \<in> A), us_values := G,
       th_dbs := put_selected None ?m (th_dbs T)\<rparr>))"
  have u: "update_turn L C T = db_finished L C None kUpdate U"
    using C(1,4) r(2) w(1) m(1)
    by (auto simp: update_turn_def new_value_def db_put_def moved_def selected_def plain_update_def U_def split_beta)
  have "s_reporter (th_stats U) \<noteq> None" "fl_stats_interval (uc_stats C) = 0"
    using C(1,7) by (simp_all add: plain_update_def U_def moved_def)
  then obtain S E where f: "finished L (uc_stats C) (db (selected (th_dbs U) None)) 1 kUpdate U = Inr (U\<lparr>th_stats := S, th_env := E\<rparr>)"
    "s_reporter S \<noteq> None"
    using finished_plain by blast
  have d: "read_draws (l_random L) (uc_num C) (Suc i) g = (xs @ [x], g2)"
    using assms y z by (simp add: update_pos_def x_def xs_def split_beta)
  have "holds_keys (l_rdb L) (insert ?k A) ?m"
    using holds_keys_put [OF C(3) _ m(2)] C(4) by simp
  moreover have "us_found T + of_bool (?k \<in> A) = int (Suc i) - int (card (insert ?k A))"
    using assms by (simp add: update_pos_def A_def xs_def card_insert_if)
  ultimately have "update_pos L C M g (Suc i) (U\<lparr>th_stats := S, th_env := E\<rparr>)"
    using assms r(1) w(2) f(2)
    by (auto simp del: read_draws.simps simp: update_pos_def d U_def moved_def put_selected_def A_def xs_def card_insert_if)
  then show ?thesis
    using u f(1) by (simp add: db_finished_def U_def moved_def)
qed

interpretation updates: counted_body "update_turn L C" "update_pos L C M g"
  by (unfold_locales, erule update_turn_pos, simp add: update_pos_def)



end
