(* ===== verification/Bench_Verify.thy ===== *)
theory Bench_Verify
  imports Bench_Update
begin

text \<open>
  The benchmarks of \<open>db_bench_tool.cc\<close> that check what they read: \<open>RandomWithVerify\<close> over \<open>PutMany\<close>, \<open>DeleteMany\<close> and
  \<open>GetMany\<close>, \<open>GetMergeOperands\<close> with its binary search, and \<open>WriteSeqSeekSeq\<close>.
\<close>

section \<open>Three keys at once\<close>

text \<open>The complaints \<open>GetMany\<close> prints are counted.  The suffixes are the digits 0, 1 and 2, whose codes are 48 to 50.\<close>

record ('g, 'h, 'm, 'c, 'q, 'w) vstate = "('g, 'h, 'm, 'c, 'q, 'w) ustate" +
  vs_inconsistent :: nat

definition suffixed :: "bytes \<Rightarrow> u8 \<Rightarrow> bytes" where
  "suffixed key c = key @ [c]"

text \<open>A batch written to the selected database, at a new timestamp if there are any.\<close>

definition write_many ::
  "('g, 'h, 'm, 'c, 'q, 'w, 'i) ulib \<Rightarrow> update_cfg \<Rightarrow> nat option \<Rightarrow> 'h batch_op list \<Rightarrow> ('g, 'h, 'm, 'c, 'q, 'w) vstate \<Rightarrow>
   (Status \<times> ('g, 'h, 'm, 'c, 'q, 'w) vstate) outcome" where
  "write_many L C i ops T =
     bindO (if 0 < uc_timestamp_size C
            then let (ts, clock) = Allocate (th_timestamp T)
                 in if l_update_ts L ts ops \<noteq> OK then Inl Process_Exit else Inr (T\<lparr>th_timestamp := clock\<rparr>)
            else Inr T) (\<lambda>T.
     bindO (deref (db (selected (th_dbs T) i))) (\<lambda>m.
       let (s, m) = l_write L ops m in Inr (s, T\<lparr>th_dbs := put_selected i m (th_dbs T)\<rparr>)))"

definition PutMany ::
  "('g, 'h, 'm, 'c, 'q, 'w, 'i) ulib \<Rightarrow> update_cfg \<Rightarrow> nat option \<Rightarrow> bytes \<Rightarrow> bytes \<Rightarrow> ('g, 'h, 'm, 'c, 'q, 'w) vstate \<Rightarrow>
   (Status \<times> ('g, 'h, 'm, 'c, 'q, 'w) vstate) outcome" where
  "PutMany L C i key v T = write_many L C i (map (\<lambda>c. BPut None (suffixed key c) v) [50, 49, 48]) T"

definition DeleteMany ::
  "('g, 'h, 'm, 'c, 'q, 'w, 'i) ulib \<Rightarrow> update_cfg \<Rightarrow> nat option \<Rightarrow> bytes \<Rightarrow> ('g, 'h, 'm, 'c, 'q, 'w) vstate \<Rightarrow>
   (Status \<times> ('g, 'h, 'm, 'c, 'q, 'w) vstate) outcome" where
  "DeleteMany L C i key T = write_many L C i (map (\<lambda>c. BDelete None (suffixed key c)) [49, 50, 48]) T"

text \<open>Reads one after the other into the same string: the last status, the string, and the values to compare.\<close>

fun get_each :: "(bytes \<Rightarrow> Status \<times> bytes) \<Rightarrow> bytes list \<Rightarrow> Status \<Rightarrow> bytes \<Rightarrow> Status \<times> bytes \<times> bytes list" where
  "get_each get [] s value = (s, value, [])"
| "get_each get (k # ks) _ value =
     (let (s, v) = get k;
          value = (if s = OK then v else value);
          (s', value', vs) = get_each get ks s value
      in (s', value', (if s = OK then value else []) # vs))"

definition GetMany ::
  "('g, 'h, 'm, 'c, 'q, 'w, 'i) ulib \<Rightarrow> update_cfg \<Rightarrow> nat option \<Rightarrow> bytes \<Rightarrow> ('g, 'h, 'm, 'c, 'q, 'w) vstate \<Rightarrow>
   (Status \<times> ('g, 'h, 'm, 'c, 'q, 'w) vstate) outcome" where
  "GetMany L C i key T =
     (let (get, clock) =
            (if 0 < uc_timestamp_size C
             then let (ts, clock) = Allocate (th_timestamp T) in (l_get_ts L ts, clock)
             else (rdb_get (l_rdb L), th_timestamp T))
      in bindO (deref (db (selected (th_dbs T) i))) (\<lambda>m.
           let (s, value, vs) = get_each (\<lambda>k. get k m) (map (suffixed key) [48, 49, 50]) OK (us_value T)
           in Inr (s, T\<lparr>th_timestamp := clock, us_value := value,
                        vs_inconsistent := vs_inconsistent T + of_bool (vs ! 0 \<noteq> vs ! 1 \<or> vs ! 1 \<noteq> vs ! 2)\<rparr>)))"

section \<open>RandomWithVerify\<close>

definition verify_refill :: "update_cfg \<Rightarrow> ('g, 'h, 'm, 'c, 'q, 'w) vstate \<Rightarrow> ('g, 'h, 'm, 'c, 'q, 'w) vstate" where
  "verify_refill C T =
     (if us_get_weight T = 0 \<and> us_put_weight T = 0 \<and> us_delete_weight T = 0
      then T\<lparr>us_get_weight := uc_readwritepercent C, us_delete_weight := uc_deletepercent C,
             us_put_weight := 100 - uc_readwritepercent C - uc_deletepercent C\<rparr>
      else T)"

definition verify_done ::
  "('g, 'h, 'm, 'c, 'q, 'w, 'i) ulib \<Rightarrow> update_cfg \<Rightarrow> OperationType \<Rightarrow> ('g, 'h, 'm, 'c, 'q, 'w) vstate \<Rightarrow>
   ('g, 'h, 'm, 'c, 'q, 'w) vstate outcome" where
  "verify_done L C op T = finished L (uc_stats C) (db (bdb (th_dbs T))) 1 op T"

definition verify_get ::
  "('g, 'h, 'm, 'c, 'q, 'w, 'i) ulib \<Rightarrow> update_cfg \<Rightarrow> nat option \<Rightarrow> bytes \<Rightarrow> ('g, 'h, 'm, 'c, 'q, 'w) vstate \<Rightarrow>
   ('g, 'h, 'm, 'c, 'q, 'w) vstate outcome" where
  "verify_get L C i key T =
     bindO (GetMany L C i key T) (\<lambda>(s, T).
       verify_done L C kRead
         (T\<lparr>us_found := us_found T + of_bool (s = OK), us_get_weight := us_get_weight T - 1, us_reads := us_reads T + 1\<rparr>))"

definition verify_put ::
  "('g, 'h, 'm, 'c, 'q, 'w, 'i) ulib \<Rightarrow> update_cfg \<Rightarrow> nat option \<Rightarrow> bytes \<Rightarrow> ('g, 'h, 'm, 'c, 'q, 'w) vstate \<Rightarrow>
   ('g, 'h, 'm, 'c, 'q, 'w) vstate outcome" where
  "verify_put L C i key T =
     bindO (Generate (l_sampler L) (us_values T)) (\<lambda>(v, G).
     bindO (PutMany L C i key v (T\<lparr>us_values := G\<rparr>)) (\<lambda>(s, T).
       if s \<noteq> OK then Inl Process_Exit
       else verify_done L C kWrite (T\<lparr>us_put_weight := us_put_weight T - 1, us_writes := us_writes T + 1\<rparr>)))"

definition verify_delete ::
  "('g, 'h, 'm, 'c, 'q, 'w, 'i) ulib \<Rightarrow> update_cfg \<Rightarrow> nat option \<Rightarrow> bytes \<Rightarrow> ('g, 'h, 'm, 'c, 'q, 'w) vstate \<Rightarrow>
   ('g, 'h, 'm, 'c, 'q, 'w) vstate outcome" where
  "verify_delete L C i key T =
     bindO (DeleteMany L C i key T) (\<lambda>(s, T).
       if s \<noteq> OK then Inl Process_Exit
       else verify_done L C kDelete (T\<lparr>us_delete_weight := us_delete_weight T - 1, us_deletes := us_deletes T + 1\<rparr>))"

definition verify_turn ::
  "('g, 'h, 'm, 'c, 'q, 'w, 'i) ulib \<Rightarrow> update_cfg \<Rightarrow> ('g, 'h, 'm, 'c, 'q, 'w) vstate \<Rightarrow>
   ('g, 'h, 'm, 'c, 'q, 'w) vstate outcome" where
  "verify_turn L C T =
     bindO (select_db (l_random L) T) (\<lambda>(i, T).
     bindO (draw_key (l_random L) (uc_keys C) (uc_numdistinct C) (verify_refill C T)) (\<lambda>(_, key, T).
       if 0 < us_get_weight T then verify_get L C i key T
       else if 0 < us_put_weight T then verify_put L C i key T
       else if 0 < us_delete_weight T then verify_delete L C i key T
       else Inr T))"

fun verify_loop ::
  "('g, 'h, 'm, 'c, 'q, 'w, 'i) ulib \<Rightarrow> update_cfg \<Rightarrow> nat \<Rightarrow> ('g, 'h, 'm, 'c, 'q, 'w) vstate \<Rightarrow>
   ('g, 'h, 'm, 'c, 'q, 'w) vstate outcome" where
  "verify_loop L C 0 T = Inr T"
| "verify_loop L C (Suc n) T = bindO (verify_turn L C T) (verify_loop L C n)"

definition verify_start ::
  "update_cfg \<Rightarrow> 'g RandomGenerator \<Rightarrow> ('g, 'h, 'm, 'c, 'q, 'w) bench_thread \<Rightarrow> ('g, 'h, 'm, 'c, 'q, 'w) vstate" where
  "verify_start C gen T =
     ustate.extend (bench_thread.extend T (ustate.fields (AllocateKey (uc_keys C)) gen [] 0 0 0 0 0 0 0 0 0)) (vstate.fields 0)"

definition RandomWithVerify ::
  "('g, 'h, 'm, 'c, 'q, 'w, 'i) ulib \<Rightarrow> update_cfg \<Rightarrow> 'g RandomGenerator \<Rightarrow> ('g, 'h, 'm, 'c, 'q, 'w) bench_thread \<Rightarrow>
   ('g, 'h, 'm, 'c, 'q, 'w) vstate outcome" where
  "RandomWithVerify L C gen T =
     bindO (verify_loop L C (nat (uc_readwrites C)) (verify_start C gen T)) (\<lambda>T.
       Inr (T\<lparr>th_stats := AddMessage (take 127 (bytes_of ''( get:'' @ u64_text (us_reads T) @ bytes_of '' put:'' @
         u64_text (us_writes T) @ bytes_of '' del:'' @ u64_text (us_deletes T) @ bytes_of '' total:'' @
         u64_text (uc_readwrites C) @ bytes_of '' found:'' @ u64_text (us_found T) @ bytes_of '')'')) (th_stats T)\<rparr>))"

section \<open>GetMergeOperands\<close>

text \<open>Its callers pass the bounds of a vector, so the sums do not overflow.\<close>

function binary_search :: "int list \<Rightarrow> int \<Rightarrow> int \<Rightarrow> int \<Rightarrow> bool outcome" where
  "binary_search data start fin key =
     (if data = [] then Inr False
      else if fin < start then Inr False
      else let mid = start + (fin - start) div 2
           in if int (length data) - 1 < mid then Inr False
              else if mid < 0 then Inl Out_Of_Bounds
              else if data ! nat mid = key then Inr True
              else if key < data ! nat mid then binary_search data start (mid - 1) key
              else binary_search data (mid + 1) fin key)"
  by pat_completeness auto
termination
  by (relation "measure (\<lambda>(_, start, fin, _). nat (fin - start + 1))") auto

declare binary_search.simps [simp del]

text \<open>
  The merges: lists of numbers with commas between, ended at every multiple of 100.  The statuses are not
  looked at.
\<close>

fun merge_lists ::
  "('g, 'h, 'm, 'c, 'q, 'w, 'i) ulib \<Rightarrow> nat \<Rightarrow> nat \<Rightarrow> bytes \<Rightarrow> 'm \<Rightarrow> 'm outcome" where
  "merge_lists L 0 i value m = Inr m"
| "merge_lists L (Suc n) i value m =
     (if i mod 100 = 0
      then if value = [] then Inl Out_Of_Bounds
           else merge_lists L n (Suc i) [] (snd (l_merge L None (bytes_of ''my_key'') (butlast value) m))
      else merge_lists L n (Suc i) (value @ to_string i @ bytes_of '','') m)"

text \<open>The search of the operands, one vector after the other until it is found.\<close>

fun search_lists :: "(bytes \<Rightarrow> int list) \<Rightarrow> int \<Rightarrow> bytes list \<Rightarrow> bool \<Rightarrow> bool outcome" where
  "search_lists make_vector key [] found = Inr found"
| "search_lists make_vector key (s # ss) _ =
     bindO (binary_search (make_vector s) 0 (int (length (make_vector s)) - 1) key) (\<lambda>found.
       if found then Inr True else search_lists make_vector key ss found)"

text \<open>
  \<open>SortList::MakeVector\<close> and the slices that \<open>GetMergeOperands\<close> fills, as many as asked for, are arguments.  The
  result is what the two searches print.
\<close>

definition GetMergeOperands ::
  "('g, 'h, 'm, 'c, 'q, 'w, 'i) ulib \<Rightarrow> (bytes \<Rightarrow> int list) \<Rightarrow> (bytes \<Rightarrow> nat \<Rightarrow> 'm \<Rightarrow> bytes list) \<Rightarrow>
   ('g, 'h, 'm, 'c, 'q, 'w) bench_thread \<Rightarrow> (bool \<times> bool \<times> ('g, 'h, 'm, 'c, 'q, 'w) bench_thread) outcome" where
  "GetMergeOperands L make_vector operands T =
     bindO (select_db (l_random L) T) (\<lambda>(i, T).
     bindO (deref (db (selected (th_dbs T) i))) (\<lambda>m.
     bindO (merge_lists L 99999 1 [] m) (\<lambda>m.
       let key = bytes_of ''my_key'';
           (s, v) = rdb_get (l_rdb L) key m;
           data = make_vector (if s = OK then v else [])
       in bindO (binary_search data 0 (int (length data) - 1) 1) (\<lambda>found.
          bindO (search_lists make_vector 1 (operands key 1001 m) found) (\<lambda>found'.
            Inr (found, found', T\<lparr>th_dbs := put_selected i m (th_dbs T)\<rparr>))))))"

section \<open>WriteSeqSeekSeq\<close>

definition thread_of :: "('g, 'h, 'm, 'c, 'q, 'w) wstate \<Rightarrow> ('g, 'h, 'm, 'c, 'q, 'w) bench_thread" where
  "thread_of W =
     \<lparr>th_dbs = ws_dbs W, th_master = ws_master W, th_rand = ws_rand W, th_env = ws_env W, th_stats = ws_stats W,
      th_timestamp = ws_timestamp W, th_duration = ws_duration W\<rparr>"

text \<open>The iterator must stand on the key; then the operation is counted.\<close>

definition seek_checked ::
  "('g, 'h, 'm, 'c, 'q, 'w, 'i) rlib \<Rightarrow> write_cfg \<Rightarrow> nat option \<Rightarrow> 'i \<Rightarrow> bytes \<Rightarrow> ('g, 'h, 'm, 'c, 'q, 'w) bench_thread \<Rightarrow>
   ('g, 'h, 'm, 'c, 'q, 'w) bench_thread outcome" where
  "seek_checked L C i iter key T =
     bindO (guardO (it_valid (l_iter L (None, None)) iter \<and> it_key (l_iter L (None, None)) iter = key) Assert_Failed) (\<lambda>_.
       finished L (wc_stats C) (db (selected (th_dbs T) i)) 1 kSeek T)"

fun seq_nexts ::
  "('g, 'h, 'm, 'c, 'q, 'w, 'i) rlib \<Rightarrow> write_cfg \<Rightarrow> bool \<Rightarrow> nat option \<Rightarrow> nat \<Rightarrow> int \<Rightarrow> bytes \<Rightarrow> region \<Rightarrow> 'i \<Rightarrow>
   ('g, 'h, 'm, 'c, 'q, 'w) bench_thread \<Rightarrow> (int \<times> bytes \<times> region \<times> 'i \<times> ('g, 'h, 'm, 'c, 'q, 'w) bench_thread) outcome" where
  "seq_nexts L C reverse i 0 x key buf iter T = Inr (x, key, buf, iter, T)"
| "seq_nexts L C reverse i (Suc j) x key buf iter T =
     (if x + 1 < wc_flags_num C
      then let iter = (if reverse then it_prev (l_iter L (None, None)) iter else it_next (l_iter L (None, None)) iter)
           in bindO (GenerateKeyFromInt (wc_keys C) (of_int (x + 1)) (wc_flags_num C) buf) (\<lambda>(key, buf).
              bindO (seek_checked L C i iter key T) (seq_nexts L C reverse i j (x + 1) key buf iter))
      else Inr (x, key, buf, iter, T))"

fun seq_seeks ::
  "('g, 'h, 'm, 'c, 'q, 'w, 'i) rlib \<Rightarrow> write_cfg \<Rightarrow> nat \<Rightarrow> bool \<Rightarrow> nat option \<Rightarrow> nat \<Rightarrow> int \<Rightarrow> region \<Rightarrow> 'i \<Rightarrow>
   ('g, 'h, 'm, 'c, 'q, 'w) bench_thread \<Rightarrow> ('g, 'h, 'm, 'c, 'q, 'w) bench_thread outcome" where
  "seq_seeks L C nexts reverse i 0 x buf iter T = (if x < wc_flags_num C then Inl Out_Of_Fuel else Inr T)"
| "seq_seeks L C nexts reverse i (Suc fuel) x buf iter T =
     (if x < wc_flags_num C
      then bindO (GenerateKeyFromInt (wc_keys C) (of_int x) (wc_flags_num C) buf) (\<lambda>(key, buf).
             let iter = it_seek (l_iter L (None, None)) key iter
             in bindO (seek_checked L C i iter key T) (\<lambda>T.
                bindO (seq_nexts L C reverse i nexts x key buf iter T) (\<lambda>(x, key, buf, iter, T).
                  let iter = it_seek (l_iter L (None, None)) key iter
                  in bindO (seek_checked L C i iter key T) (seq_seeks L C nexts reverse i fuel (x + 1) buf iter))))
      else Inr T)"

definition WriteSeqSeekSeq ::
  "('g, 'h, 'm, 'c, 'q, 'w, 'i) rlib \<Rightarrow> write_cfg \<Rightarrow> int \<Rightarrow> bool \<Rightarrow> bool \<Rightarrow> int \<Rightarrow> 'g RandomGenerator \<Rightarrow> 'g \<Rightarrow> 'g \<Rightarrow> nat \<Rightarrow>
   ('g, 'h, 'm, 'c, 'q, 'w) wstate \<Rightarrow> ('g, 'h, 'm, 'c, 'q, 'w) bench_thread outcome" where
  "WriteSeqSeekSeq L C nexts reverse with_latest tid gen strings overwriter fuel W =
     bindO (DoWrite (wlib.truncate L) (C\<lparr>wc_mode := SEQUENTIAL, wc_writes := wc_flags_num C\<rparr>) gen strings overwriter fuel W) (\<lambda>W.
       let T = thread_of W;
           (S, c) = Start (l_now L) (fl_stats_interval (wc_stats C)) tid (th_stats T) (clk (th_env T))
       in bindO (select_db (l_random L) (T\<lparr>th_stats := S, th_env := (th_env T)\<lparr>clk := c\<rparr>\<rparr>)) (\<lambda>(i, T).
          bindO (read_timestamp (l_random L) (wc_timestamp_size C) with_latest T) (\<lambda>T.
          bindO (deref (db (selected (th_dbs T) i))) (\<lambda>m.
            seq_seeks L C (nat nexts) reverse i (nat (wc_flags_num C)) 0 (AllocateKey (wc_keys C))
              (it_new (l_iter L (None, None)) m) T))))"

section \<open>The binary search\<close>

lemma binary_search_step:
  assumes "0 \<le> start" and "start \<le> fin" and "fin < int (length data)" and "mid = start + (fin - start) div 2"
  shows "binary_search data start fin key =
    (if data ! nat mid = key then Inr True
     else if key < data ! nat mid then binary_search data start (mid - 1) key else binary_search data (mid + 1) fin key)"
proof -
  have "0 \<le> mid" "mid < int (length data)" "data \<noteq> []"
    using assms by auto
  then show ?thesis
    using assms(2,4) by (subst binary_search.simps) (simp add: Let_def)
qed

definition in_range :: "int list \<Rightarrow> int \<Rightarrow> int \<Rightarrow> int \<Rightarrow> bool" where
  "in_range data start fin key \<longleftrightarrow> (\<exists>i. start \<le> int i \<and> int i \<le> fin \<and> data ! i = key)"

lemma in_range_halves:
  assumes "sorted data" and "0 \<le> start" and "fin < int (length data)" and "start \<le> mid" and "mid \<le> fin"
  shows "data ! nat mid = key \<Longrightarrow> in_range data start fin key"
    and "key < data ! nat mid \<Longrightarrow> in_range data start fin key = in_range data start (mid - 1) key"
    and "data ! nat mid < key \<Longrightarrow> in_range data start fin key = in_range data (mid + 1) fin key"
proof -
  have le: "data ! i \<le> data ! j" if "i \<le> j" "int j \<le> fin" for i j
    using assms(1,3) that by (simp add: sorted_iff_nth_mono)
  show "in_range data start fin key" if "data ! nat mid = key"
    using that assms(2,4,5) by (auto simp: in_range_def intro!: exI [of _ "nat mid"])
  show "in_range data start fin key = in_range data start (mid - 1) key" if k: "key < data ! nat mid"
  proof -
    have "int i \<le> mid - 1" if "int i \<le> fin" "data ! i = key" for i
      using le [of "nat mid" i] k that assms(2,4) by (cases "mid \<le> int i") (auto simp: nat_le_iff)
    then have "(start \<le> int i \<and> int i \<le> fin \<and> data ! i = key) = (start \<le> int i \<and> int i \<le> mid - 1 \<and> data ! i = key)" for i
      using assms(5) by force
    then show ?thesis by (simp add: in_range_def)
  qed
  show "in_range data start fin key = in_range data (mid + 1) fin key" if k: "data ! nat mid < key"
  proof -
    have "mid + 1 \<le> int i" if "data ! i = key" for i
      using le [of i "nat mid"] k that assms(2,4,5) by (cases "int i \<le> mid") (auto simp: le_nat_iff)
    then have "(start \<le> int i \<and> int i \<le> fin \<and> data ! i = key) = (mid + 1 \<le> int i \<and> int i \<le> fin \<and> data ! i = key)" for i
      using assms(4) by force
    then show ?thesis by (simp add: in_range_def)
  qed
qed

lemma binary_search_range:
  assumes "sorted data" and "0 \<le> start" and "fin < int (length data)"
  shows "binary_search data start fin key = Inr (in_range data start fin key)"
  using assms
proof (induction "nat (fin - start + 1)" arbitrary: start fin rule: less_induct)
  case less
  let ?mid = "start + (fin - start) div 2"
  show ?case
  proof (cases "start \<le> fin")
    case False
    then show ?thesis
      by (subst binary_search.simps) (auto simp: in_range_def)
  next
    case True
    then have m: "start \<le> ?mid" "?mid \<le> fin" by simp_all
    have "binary_search data start (?mid - 1) key = Inr (in_range data start (?mid - 1) key)"
      by (rule less.hyps) (use m less.prems in auto)
    moreover have "binary_search data (?mid + 1) fin key = Inr (in_range data (?mid + 1) fin key)"
      by (rule less.hyps) (use m less.prems in auto)
    ultimately show ?thesis
      using binary_search_step [OF less.prems(2) True less.prems(3) refl, of key] in_range_halves [OF less.prems m, of key]
      by (simp split: if_splits)
  qed
qed

text \<open>
  The binary search of \<open>GetMergeOperands\<close> ends, stays inside the vector, and on a sorted
  vector finds a key exactly if it is there; the search through several sorted vectors finds it exactly if one
  of them has it.
\<close>

theorem search_lists_correct:
  assumes "\<forall>s\<in>set ss. sorted (make_vector s)"
  shows "search_lists make_vector key ss False = Inr (\<exists>s\<in>set ss. key \<in> set (make_vector s))"
  using assms
proof (induction ss)
  case (Cons s ss)
  have "binary_search (make_vector s) 0 (int (length (make_vector s)) - 1) key = Inr (key \<in> set (make_vector s))"
    using Cons.prems binary_search_range [of "make_vector s" 0 "int (length (make_vector s)) - 1" key]
    by (auto simp: in_range_def in_set_conv_nth)
  then show ?case
    using Cons by auto
qed simp

theorem search_lists_correct_witness:
  "search_lists (map (int \<circ> unat)) 5 [[1, 2, 3], [], [4, 5]] False = Inr True"
  using search_lists_correct [of "[[1, 2, 3], [], [4, 5]]" "map (int \<circ> unat)" 5] by simp

section \<open>The triples stay together\<close>

text \<open>What a key reads as, and what RocksDB promises of a batch of puts and deletes in the default family.\<close>

definition view :: "('w, 'm) rocksdb \<Rightarrow> 'm \<Rightarrow> bytes \<Rightarrow> bytes option" where
  "view rdb m k = (let (s, v) = rdb_get rdb k m in if s = OK then Some v else None)"

fun batch_view :: "'h batch_op \<Rightarrow> (bytes \<Rightarrow> bytes option) \<Rightarrow> bytes \<Rightarrow> bytes option" where
  "batch_view (BPut _ k v) V = V(k := Some v)"
| "batch_view (BDelete _ k) V = V(k := None)"
| "batch_view (BDeleteRange _ _ _) V = V"

fun single_default :: "'h batch_op \<Rightarrow> bool" where
  "single_default (BPut h _ _) \<longleftrightarrow> h = None"
| "single_default (BDelete h _) \<longleftrightarrow> h = None"
| "single_default (BDeleteRange _ _ _) \<longleftrightarrow> False"

definition write_laws :: "('g, 'h, 'm, 'c, 'q, 'w, 'i) ulib \<Rightarrow> bool" where
  "write_laws L \<longleftrightarrow>
     (\<forall>ops m. (\<forall>op\<in>set ops. single_default op) \<longrightarrow> fst (l_write L ops m) = OK \<longrightarrow>
        view (l_rdb L) (snd (l_write L ops m)) = fold batch_view ops (view (l_rdb L) m))"

definition triples_agree :: "('w, 'm) rocksdb \<Rightarrow> 'm \<Rightarrow> bool" where
  "triples_agree rdb m \<longleftrightarrow>
     (\<forall>k. view rdb m (suffixed k 48) = view rdb m (suffixed k 49) \<and>
          view rdb m (suffixed k 49) = view rdb m (suffixed k 50))"

definition plain_verify :: "update_cfg \<Rightarrow> bool" where
  "plain_verify C \<longleftrightarrow> valid_cfg (uc_keys C) \<and> keys_per_prefix (uc_keys C) \<le> 0 \<and> 0 < uc_numdistinct C \<and>
     in_i64 (uc_numdistinct C) \<and> uc_timestamp_size C \<le> 0 \<and> fl_stats_interval (uc_stats C) = 0 \<and>
     0 \<le> uc_readwritepercent C \<and> 0 \<le> uc_deletepercent C \<and> uc_readwritepercent C + uc_deletepercent C \<le> 100"

definition verify_inv ::
  "('g, 'h, 'm, 'c, 'q, 'w, 'i) ulib \<Rightarrow> update_cfg \<Rightarrow> int \<Rightarrow> ('g, 'h, 'm, 'c, 'q, 'w) vstate \<Rightarrow> bool" where
  "verify_inv L C n T \<longleftrightarrow>
     (\<exists>m. db (bdb (th_dbs T)) = Some m \<and> triples_agree (l_rdb L) m) \<and> s_reporter (th_stats T) \<noteq> None \<and>
     rsize (us_key T) = nat (key_size (uc_keys C)) \<and> gen_inv (us_values T) \<and> vs_inconsistent T = 0 \<and>
     0 \<le> us_get_weight T \<and> 0 \<le> us_put_weight T \<and> 0 \<le> us_delete_weight T \<and> us_reads T + us_writes T + us_deletes T = n"

lemma suffixed_eq [simp]: "suffixed k a = suffixed l b \<longleftrightarrow> k = l \<and> a = b"
  by (simp add: suffixed_def)

lemma GetMany_ok:
  assumes "plain_verify C" and "db (bdb (th_dbs T)) = Some m" and "triples_agree (l_rdb L) m"
  shows "\<exists>s v. GetMany L C None key T = Inr (s, T\<lparr>us_value := v\<rparr>)"
proof -
  obtain s0 v0 where g0: "rdb_get (l_rdb L) (suffixed key 48) m = (s0, v0)" by (rule prod.exhaust)
  obtain s1 v1 where g1: "rdb_get (l_rdb L) (suffixed key 49) m = (s1, v1)" by (rule prod.exhaust)
  obtain s2 v2 where g2: "rdb_get (l_rdb L) (suffixed key 50) m = (s2, v2)" by (rule prod.exhaust)
  let ?get = "\<lambda>k. rdb_get (l_rdb L) k m"
  obtain s v vs where e: "get_each ?get [suffixed key 48, suffixed key 49, suffixed key 50] OK (us_value T) = (s, v, vs)"
    by (rule prod_cases3)
  then have vs: "vs = [if s0 = OK then v0 else [], if s1 = OK then v1 else [], if s2 = OK then v2 else []]"
    using g0 g1 g2 by (auto simp: Let_def)
  have "view (l_rdb L) m (suffixed key 48) = view (l_rdb L) m (suffixed key 49)"
    "view (l_rdb L) m (suffixed key 49) = view (l_rdb L) m (suffixed key 50)"
    using assms(3) by (simp_all add: triples_agree_def)
  then have "vs ! 0 = vs ! 1" "vs ! 1 = vs ! 2"
    using g0 g1 g2 by (auto simp: vs view_def split: if_splits)
  moreover have "\<not> 0 < uc_timestamp_size C"
    using assms(1) by (simp add: plain_verify_def)
  ultimately have "GetMany L C None key T = Inr (s, T\<lparr>us_value := v\<rparr>)"
    using assms(2) e by (simp add: GetMany_def selected_def del: get_each.simps)
  then show ?thesis by blast
qed

lemma write_many_ok:
  assumes "plain_verify C" and "db (bdb (th_dbs T)) = Some m" and "triples_agree (l_rdb L) m" and "write_laws L"
    and "\<forall>ops m. fst (l_write L ops m) = OK"
    and "ops = map (\<lambda>c. BPut None (suffixed key c) v) [50, 49, 48] \<or> ops = map (\<lambda>c. BDelete None (suffixed key c)) [49, 50, 48]"
  shows "\<exists>m'. write_many L C None ops T = Inr (OK, T\<lparr>th_dbs := put_selected None m' (th_dbs T)\<rparr>) \<and> triples_agree (l_rdb L) m'"
proof -
  have "\<forall>op\<in>set ops. single_default op"
    using assms(6) by auto
  then have "view (l_rdb L) (snd (l_write L ops m)) = fold batch_view ops (view (l_rdb L) m)"
    using assms(4,5) by (simp add: write_laws_def)
  then have "triples_agree (l_rdb L) (snd (l_write L ops m))"
    using assms(3,6) by (auto simp: triples_agree_def)
  then show ?thesis
    using assms(1,2,5) by (auto simp: write_many_def plain_verify_def selected_def split_beta)
qed

lemma verify_done_ok:
  assumes "plain_verify C" and "verify_inv L C n U"
  shows "\<exists>T'. verify_done L C op U = Inr T' \<and> verify_inv L C n T'"
proof -
  have "s_reporter (th_stats U) \<noteq> None" "fl_stats_interval (uc_stats C) = 0"
    using assms by (simp_all add: plain_verify_def verify_inv_def)
  then obtain S E where "finished L (uc_stats C) (db (bdb (th_dbs U))) 1 op U = Inr (U\<lparr>th_stats := S, th_env := E\<rparr>)"
    "s_reporter S \<noteq> None"
    using finished_plain by blast
  then show ?thesis
    using assms(2) by (simp add: verify_inv_def verify_done_def)
qed

lemma verify_get_ok:
  assumes "plain_verify C" and "verify_inv L C n U" and "0 < us_get_weight U"
  shows "\<exists>T'. verify_get L C None key U = Inr T' \<and> verify_inv L C (n + 1) T'"
proof -
  obtain m where m: "db (bdb (th_dbs U)) = Some m" "triples_agree (l_rdb L) m"
    using assms(2) by (auto simp: verify_inv_def)
  obtain s v where g: "GetMany L C None key U = Inr (s, U\<lparr>us_value := v\<rparr>)"
    using GetMany_ok [OF assms(1) m] by blast
  let ?V = "U\<lparr>us_value := v, us_found := us_found U + of_bool (s = OK), us_get_weight := us_get_weight U - 1,
    us_reads := us_reads U + 1\<rparr>"
  have "verify_inv L C (n + 1) ?V"
    using assms(2,3) by (auto simp: verify_inv_def)
  then show ?thesis
    using g verify_done_ok [OF assms(1), of L "n + 1" ?V kRead] by (simp add: verify_get_def)
qed

lemma verify_put_ok:
  assumes "plain_verify C" and "verify_inv L C n U" and "0 < us_put_weight U"
    and "uniform_laws (l_sampler L)" and "write_laws L" and "\<forall>ops m. fst (l_write L ops m) = OK"
  shows "\<exists>T'. verify_put L C None key U = Inr T' \<and> verify_inv L C (n + 1) T'"
proof -
  obtain m where m: "db (bdb (th_dbs U)) = Some m" "triples_agree (l_rdb L) m"
    using assms(2) by (auto simp: verify_inv_def)
  obtain w G where w: "Generate (l_sampler L) (us_values U) = Inr (w, G)" "gen_inv G"
    using Generate_ok [OF assms(4)] assms(2) unfolding verify_inv_def by blast
  obtain m' where p: "PutMany L C None key w (U\<lparr>us_values := G\<rparr>) =
      Inr (OK, U\<lparr>us_values := G, th_dbs := put_selected None m' (th_dbs U)\<rparr>)" "triples_agree (l_rdb L) m'"
    using write_many_ok [OF assms(1) _ m(2) assms(5,6), of "U\<lparr>us_values := G\<rparr>" _ key w] m(1) by (auto simp: PutMany_def)
  let ?V = "U\<lparr>us_values := G, th_dbs := put_selected None m' (th_dbs U), us_put_weight := us_put_weight U - 1,
    us_writes := us_writes U + 1\<rparr>"
  have "verify_inv L C (n + 1) ?V"
    using assms(2,3) p(2) w(2) by (auto simp: verify_inv_def put_selected_def)
  then show ?thesis
    using w(1) p(1) verify_done_ok [OF assms(1), of L "n + 1" ?V kWrite] by (simp add: verify_put_def)
qed

lemma verify_delete_ok:
  assumes "plain_verify C" and "verify_inv L C n U" and "0 < us_delete_weight U"
    and "write_laws L" and "\<forall>ops m. fst (l_write L ops m) = OK"
  shows "\<exists>T'. verify_delete L C None key U = Inr T' \<and> verify_inv L C (n + 1) T'"
proof -
  obtain m where m: "db (bdb (th_dbs U)) = Some m" "triples_agree (l_rdb L) m"
    using assms(2) by (auto simp: verify_inv_def)
  obtain m' where p: "DeleteMany L C None key U = Inr (OK, U\<lparr>th_dbs := put_selected None m' (th_dbs U)\<rparr>)"
    "triples_agree (l_rdb L) m'"
    using write_many_ok [OF assms(1) m assms(4,5), of _ key] by (auto simp: DeleteMany_def)
  let ?V = "U\<lparr>th_dbs := put_selected None m' (th_dbs U), us_delete_weight := us_delete_weight U - 1,
    us_deletes := us_deletes U + 1\<rparr>"
  have "verify_inv L C (n + 1) ?V"
    using assms(2,3) p(2) by (auto simp: verify_inv_def put_selected_def)
  then show ?thesis
    using p(1) verify_done_ok [OF assms(1), of L "n + 1" ?V kDelete] by (simp add: verify_delete_def)
qed

lemma verify_turn_inv:
  assumes "plain_verify C" and "uniform_laws (l_sampler L)" and "write_laws L" and "\<forall>ops m. fst (l_write L ops m) = OK"
    and "verify_inv L C n T"
  shows "\<exists>T'. verify_turn L C T = Inr T' \<and> verify_inv L C (n + 1) T'"
proof -
  obtain g where b: "select_db (l_random L) T = Inr (None, T\<lparr>th_rand := g\<rparr>)"
    using assms(5) by (auto simp: verify_inv_def select_db_def SelectDBWithCfh_def split_beta)
  let ?R = "verify_refill C (T\<lparr>th_rand := g\<rparr>)"
  have "rsize (us_key ?R) = nat (key_size (uc_keys C))"
    using assms(5) by (simp add: verify_refill_def verify_inv_def)
  then obtain x key g' buf where k: "draw_key (l_random L) (uc_keys C) (uc_numdistinct C) ?R =
      Inr (x, key, ?R\<lparr>th_rand := g', us_key := buf\<rparr>)" "rsize buf = nat (key_size (uc_keys C))"
    using draw_key_plain [of "uc_keys C" "uc_numdistinct C" ?R] assms(1) by (fastforce simp: plain_verify_def)
  define U where "U = ?R\<lparr>th_rand := g', us_key := buf\<rparr>"
  have U: "verify_inv L C n U" "0 < us_get_weight U \<or> 0 < us_put_weight U \<or> 0 < us_delete_weight U"
    using assms(1,5) k(2) by (auto simp: U_def verify_refill_def verify_inv_def plain_verify_def)
  have t: "verify_turn L C T = (if 0 < us_get_weight U then verify_get L C None key U
      else if 0 < us_put_weight U then verify_put L C None key U else verify_delete L C None key U)"
    using b k(1) U(2) by (auto simp: verify_turn_def U_def)
  show ?thesis
    unfolding t using U verify_get_ok [OF assms(1) U(1)] verify_put_ok [OF assms(1) U(1) _ assms(2-4)]
      verify_delete_ok [OF assms(1) U(1) _ assms(3,4)] by auto
qed

lemma verify_loop_inv:
  assumes "plain_verify C" and "uniform_laws (l_sampler L)" and "write_laws L" and "\<forall>ops m. fst (l_write L ops m) = OK"
    and "verify_inv L C n T"
  shows "\<exists>T'. verify_loop L C k T = Inr T' \<and> verify_inv L C (n + int k) T'"
  using assms(5)
proof (induction k arbitrary: n T)
  case (Suc k)
  obtain T1 where "verify_turn L C T = Inr T1" "verify_inv L C (n + 1) T1"
    using verify_turn_inv [OF assms(1-4) Suc.prems] by blast
  then show ?case
    using Suc.IH [of "n + 1" T1] by (simp add: add.assoc)
qed simp

text \<open>
  Claim C20 (invariant).  \<open>RandomWithVerify\<close> on a database in which the three copies of every key agree, an empty one
  for example, ends after exactly \<open>readwrites_\<close> gets, puts and deletes, never reports inconsistent values, and the
  copies agree at its end, provided RocksDB applies a batch as a whole and the percentages leave room for puts.
\<close>

theorem RandomWithVerify_consistent:
  assumes "plain_verify C" and "uniform_laws (l_sampler L)" and "write_laws L" and "\<forall>ops m. fst (l_write L ops m) = OK"
    and "db (bdb (th_dbs T)) = Some m" and "triples_agree (l_rdb L) m" and "s_reporter (th_stats T) \<noteq> None" and "gen_inv gen"
    and "0 \<le> uc_readwrites C"
  shows "\<exists>T' m'. RandomWithVerify L C gen T = Inr T' \<and> vs_inconsistent T' = 0 \<and>
    us_reads T' + us_writes T' + us_deletes T' = uc_readwrites C \<and> db (bdb (th_dbs T')) = Some m' \<and> triples_agree (l_rdb L) m'"
proof -
  have "verify_inv L C 0 (verify_start C gen T)"
    using assms(5-8) by (simp add: verify_inv_def verify_start_def bench_thread.defs ustate.defs vstate.defs AllocateKey_def)
  then obtain T1 where "verify_loop L C (nat (uc_readwrites C)) (verify_start C gen T) = Inr T1" "verify_inv L C (uc_readwrites C) T1"
    using verify_loop_inv [OF assms(1-4), of 0 _ "nat (uc_readwrites C)"] assms(9) by auto
  then show ?thesis
    by (auto simp: RandomWithVerify_def verify_inv_def)
qed

lemma map_of_filter_key: "map_of (filter (\<lambda>(a, _). a \<noteq> k) m) j = (if j = k then None else map_of m j)"
  by (induction m) auto

lemma list_write_laws: "write_laws update_lib"
proof -
  have v: "view (l_rdb update_lib) m = map_of m" for m
    by (rule ext) (auto simp: view_def update_lib_simps split: option.splits)
  have w: "l_write update_lib ops m = (OK, fold list_apply ops m)" for ops m
    by (simp add: update_lib_simps)
  have "map_of (list_apply op m) = batch_view op (map_of m)" if "single_default op" for op :: "nat batch_op" and m
    using that by (cases op) (auto simp: map_of_filter_key)
  then have "map_of (fold list_apply ops m) = fold batch_view ops (map_of m)" if "\<forall>op\<in>set ops. single_default op" for ops :: "nat batch_op list" and m
    using that by (induction ops arbitrary: m) simp_all
  then show ?thesis
    by (simp add: write_laws_def v w)
qed

theorem RandomWithVerify_consistent_witness:
  "\<exists>T'. RandomWithVerify update_lib three_updates byte_values reader = Inr T' \<and> vs_inconsistent T' = 0 \<and>
     us_reads T' + us_writes T' + us_deletes T' = 3"
proof -
  have "plain_verify three_updates" "\<forall>ops m. fst (l_write update_lib ops m) = OK" "db (bdb (th_dbs reader)) = Some []"
    "triples_agree (l_rdb update_lib) []"
    by (simp_all add: plain_verify_def three_updates_def update_lib_simps reader_def write_start_def one_write_def in_i64_def
        four_byte_keys_def valid_cfg_def triples_agree_def view_def)
  from RandomWithVerify_consistent [OF this(1) updater_ready(2) list_write_laws this(2-4) updater_ready(9,10)]
  show ?thesis
    by (auto simp: three_updates_def)
qed

section \<open>WriteSeqSeekSeq looks in the wrong database\<close>



end
