(* ===== verification/Bench_Background.thy ===== *)
theory Bench_Background
  imports Bench_Verify
begin

text \<open>
  Deletions and the benchmarks of \<open>db_bench_tool.cc\<close> in which thread 0 works in the background: \<open>DoDelete\<close>,
  \<open>BGWriter\<close>, \<open>BGScan\<close>, \<open>IteratorCreation\<close> and the members that choose between them by the number of the thread.
\<close>

section \<open>Deletions\<close>

record ('g, 'h, 'm, 'c, 'q, 'w) dstate = "('g, 'h, 'm, 'c, 'q, 'w) bench_thread" +
  ds_key :: region
  ds_i :: int

text \<open>The batch: numbers in order from \<open>i + j\<close> on, or random ones.\<close>

fun delete_batch ::
  "'g random64 \<Rightarrow> update_cfg \<Rightarrow> bool \<Rightarrow> nat \<Rightarrow> int \<Rightarrow> ('g, 'h, 'm, 'c, 'q, 'w) dstate \<Rightarrow>
   ('h batch_op list \<times> ('g, 'h, 'm, 'c, 'q, 'w) dstate) outcome" where
  "delete_batch R C seq 0 k T = Inr ([], T)"
| "delete_batch R C seq (Suc n) k T =
     bindO (if seq then Inr (of_int k, T)
            else let (x, rand) = r64_next R (th_rand T)
                 in if (of_int (uc_num C) :: u64) = 0 then Inl Div_By_Zero
                    else Inr (x mod of_int (uc_num C), T\<lparr>th_rand := rand\<rparr>)) (\<lambda>(x, T).
     bindO (GenerateKeyFromInt (uc_keys C) x (uc_num C) (ds_key T)) (\<lambda>(key, buf).
     bindO (delete_batch R C seq n (k + 1) (T\<lparr>ds_key := buf\<rparr>)) (\<lambda>(ops, T). Inr (BDelete None key # ops, T))))"

definition delete_turn ::
  "('g, 'h, 'm, 'c, 'q, 'w, 'i) ulib \<Rightarrow> update_cfg \<Rightarrow> int \<Rightarrow> bool \<Rightarrow> ('g, 'h, 'm, 'c, 'q, 'w) dstate \<Rightarrow>
   ('g, 'h, 'm, 'c, 'q, 'w) dstate outcome" where
  "delete_turn L C entries seq T =
     bindO (select_db (l_random L) T) (\<lambda>(i, T).
     bindO (delete_batch (l_random L) C seq (nat entries) (ds_i T) T) (\<lambda>(ops, T).
     bindO (if 0 < uc_timestamp_size C
            then let (ts, clock) = Allocate (th_timestamp T)
                 in if l_update_ts L ts ops \<noteq> OK then Inl Process_Exit else Inr (T\<lparr>th_timestamp := clock\<rparr>)
            else Inr T) (\<lambda>T.
     bindO (deref (db (selected (th_dbs T) i))) (\<lambda>m.
       let (s, m) = l_write L ops m;
           T = T\<lparr>th_dbs := put_selected i m (th_dbs T)\<rparr>
       in bindO (finished L (uc_stats C) (db (selected (th_dbs T) i)) entries kDelete T) (\<lambda>T.
            if s \<noteq> OK then Inl Process_Exit else Inr (T\<lparr>ds_i := ds_i T + entries\<rparr>))))))"

definition DoDelete ::
  "('g, 'h, 'm, 'c, 'q, 'w, 'i) ulib \<Rightarrow> update_cfg \<Rightarrow> int \<Rightarrow> int \<Rightarrow> bool \<Rightarrow> nat \<Rightarrow> ('g, 'h, 'm, 'c, 'q, 'w) bench_thread \<Rightarrow>
   ('g, 'h, 'm, 'c, 'q, 'w) dstate outcome" where
  "DoDelete L C entries deletes seq fuel T =
     (let (D, c) = Duration_new (l_now L) (of_int (if seq then 0 else uc_duration C)) deletes 0 (clk (th_env T))
      in bench_loop (l_now L) (uc_granularity C) entries (delete_turn L C entries seq) fuel
           (bench_thread.extend (T\<lparr>th_duration := D, th_env := (th_env T)\<lparr>clk := c\<rparr>\<rparr>) (dstate.fields (AllocateKey (uc_keys C)) 0)))"

section \<open>The background writer\<close>

record bg_cfg = update_cfg +
  gc_finish_after_writes :: bool
  gc_writes :: int
  gc_writes_per_tombstone :: int
  gc_before_delete_range :: int
  gc_max_tombstones :: int
  gc_tombstone_width :: int
  gc_expand_tombstones :: bool

record ('g, 'h, 'm, 'c, 'q, 'w) bgstate = "('g, 'h, 'm, 'c, 'q, 'w) ustate" +
  bg_begin :: region
  bg_end :: region
  bg_expanded :: "region list"
  bg_written :: u32
  bg_range_deletions :: u64

definition bg_tombstone_due :: "bg_cfg \<Rightarrow> u32 \<Rightarrow> bool" where
  "bg_tombstone_due C written \<longleftrightarrow>
     0 < gc_writes_per_tombstone C \<and> gc_before_delete_range C < uint written \<and>
     (uint written - gc_before_delete_range C) div gc_writes_per_tombstone C \<le> gc_max_tombstones C \<and>
     (uint written - gc_before_delete_range C) mod gc_writes_per_tombstone C = 0"

text \<open>The expanded tombstone deletes key after key; each has a buffer of its own.\<close>

fun bg_expand ::
  "('g, 'h, 'm, 'c, 'q, 'w, 'i) ulib \<Rightarrow> bg_cfg \<Rightarrow> nat option \<Rightarrow> int \<Rightarrow> nat \<Rightarrow> nat \<Rightarrow> ('g, 'h, 'm, 'c, 'q, 'w) bgstate \<Rightarrow>
   ('g, 'h, 'm, 'c, 'q, 'w) bgstate outcome" where
  "bg_expand L C i x 0 k T = Inr T"
| "bg_expand L C i x (Suc n) k T =
     bindO (at_index (bg_expanded T) k) (\<lambda>buf.
     bindO (GenerateKeyFromInt (uc_keys C) (of_int (x + int k)) (uc_num C) buf) (\<lambda>(key, buf).
     bindO (deref (db (selected (th_dbs T) i))) (\<lambda>m.
       let (s, m) = l_delete L key m
       in if s \<noteq> OK then Inl Process_Exit
          else bg_expand L C i x n (Suc k)
                 (T\<lparr>bg_expanded := (bg_expanded T)[k := buf], th_dbs := put_selected i m (th_dbs T)\<rparr>))))"

definition bg_tombstone ::
  "('g, 'h, 'm, 'c, 'q, 'w, 'i) ulib \<Rightarrow> bg_cfg \<Rightarrow> nat option \<Rightarrow> ('g, 'h, 'm, 'c, 'q, 'w) bgstate \<Rightarrow>
   ('g, 'h, 'm, 'c, 'q, 'w) bgstate outcome" where
  "bg_tombstone L C i T =
     (let (x, rand) = r64_next (l_random L) (th_rand T);
          T = T\<lparr>th_rand := rand, bg_range_deletions := bg_range_deletions T + 1\<rparr>
      in if (of_int (uc_num C) :: u64) = 0 then Inl Div_By_Zero
         else let begin_num = sint (x mod of_int (uc_num C))
         in bindO (if gc_expand_tombstones C then bg_expand L C i begin_num (nat (gc_tombstone_width C)) 0 T
              else bindO (GenerateKeyFromInt (uc_keys C) (of_int begin_num) (uc_num C) (bg_begin T)) (\<lambda>(a, abuf).
                   bindO (i64 (begin_num + gc_tombstone_width C)) (\<lambda>e.
                   bindO (GenerateKeyFromInt (uc_keys C) (of_int e) (uc_num C) (bg_end T)) (\<lambda>(b, bbuf).
                   bindO (deref (db (selected (th_dbs T) i))) (\<lambda>m.
                     let (s, m) = l_delete_range L a b m
                     in if s \<noteq> OK then Inl Process_Exit
                        else Inr (T\<lparr>bg_begin := abuf, bg_end := bbuf, th_dbs := put_selected i m (th_dbs T)\<rparr>)))))) (\<lambda>T.
            finished L (uc_stats C) (db (bdb (th_dbs T))) 1 kWrite T))"

text \<open>One write: \<open>DB_MASTER::Put\<close>, also with timestamps, or a merge into the benchmark's own database.\<close>

definition bg_write ::
  "('g, 'h, 'm, 'c, 'q, 'w, 'i) ulib \<Rightarrow> bg_cfg \<Rightarrow> OperationType \<Rightarrow> nat option \<Rightarrow> ('g, 'h, 'm, 'c, 'q, 'w) bgstate \<Rightarrow>
   ('g, 'h, 'm, 'c, 'q, 'w) bgstate outcome" where
  "bg_write L C write_merge i T =
     bindO (draw_key (l_random L) (uc_keys C) (uc_num C) T) (\<lambda>(_, key, T).
     bindO (Generate (l_sampler L) (us_values T)) (\<lambda>(v, G).
       let T = T\<lparr>us_values := G, th_timestamp := (if 0 < uc_timestamp_size C then snd (Allocate (th_timestamp T)) else th_timestamp T)\<rparr>
       in bindO (if write_merge = kWrite
                 then bindO (master_Put (l_rdb L) (l_murmur L) (l_os L) key v (th_master T)) (\<lambda>(s, M). Inr (s, T\<lparr>th_master := M\<rparr>))
                 else bindO (deref (db (selected (th_dbs T) i))) (\<lambda>m.
                        let (s, m) = l_merge L None key v m in Inr (s, T\<lparr>th_dbs := put_selected i m (th_dbs T)\<rparr>))) (\<lambda>(s, T).
            if s \<noteq> OK then Inl Process_Exit
            else finished L (uc_stats C) (db (bdb (th_dbs T))) 1 kWrite
                   (T\<lparr>bg_written := bg_written T + 1,
                      us_bytes := us_bytes T + int (length key) + int (length v) + uc_timestamp_size C\<rparr>))))"

text \<open>
  The loop.  At each turn the writer looks, under the mutex, whether all other threads are done; what it sees at
  its \<open>k\<close>-th look is an argument.
\<close>

fun bg_loop ::
  "('g, 'h, 'm, 'c, 'q, 'w, 'i) ulib \<Rightarrow> bg_cfg \<Rightarrow> OperationType \<Rightarrow> (nat \<Rightarrow> bool) \<Rightarrow> nat \<Rightarrow> nat \<Rightarrow> ('g, 'h, 'm, 'c, 'q, 'w) bgstate \<Rightarrow>
   ('g, 'h, 'm, 'c, 'q, 'w) bgstate outcome" where
  "bg_loop L C write_merge done_at 0 k T = Inl Out_Of_Fuel"
| "bg_loop L C write_merge done_at (Suc fuel) k T =
     bindO (select_db (l_random L) T) (\<lambda>(i, T).
       if gc_finish_after_writes C \<and> uint (bg_written T) = gc_writes C then Inr T
       else if done_at k \<and> \<not> gc_finish_after_writes C then Inr T
       else bindO (bg_write L C write_merge i T) (\<lambda>T.
            bindO (if bg_tombstone_due C (bg_written T) then bg_tombstone L C i T else Inr T)
              (bg_loop L C write_merge done_at fuel (Suc k))))"

definition bg_start ::
  "bg_cfg \<Rightarrow> 'g RandomGenerator \<Rightarrow> ('g, 'h, 'm, 'c, 'q, 'w) bench_thread \<Rightarrow> ('g, 'h, 'm, 'c, 'q, 'w) bgstate" where
  "bg_start C gen T =
     ustate.extend
       (bench_thread.extend (T\<lparr>th_stats := (th_stats T)\<lparr>exclude_from_merge := True\<rparr>\<rparr>)
          (ustate.fields (AllocateKey (uc_keys C)) gen [] 0 0 0 0 0 0 0 0 0))
       (bgstate.fields (AllocateKey (uc_keys C)) (AllocateKey (uc_keys C))
          (if gc_expand_tombstones C then replicate (nat (gc_tombstone_width C)) (AllocateKey (uc_keys C)) else []) 0 0)"

definition BGWriter ::
  "('g, 'h, 'm, 'c, 'q, 'w, 'i) ulib \<Rightarrow> bg_cfg \<Rightarrow> OperationType \<Rightarrow> (nat \<Rightarrow> bool) \<Rightarrow> 'g RandomGenerator \<Rightarrow> nat \<Rightarrow>
   ('g, 'h, 'm, 'c, 'q, 'w) bench_thread \<Rightarrow> ('g, 'h, 'm, 'c, 'q, 'w) bgstate outcome" where
  "BGWriter L C write_merge done_at gen fuel T =
     bindO (bg_loop L C write_merge done_at fuel 0 (bg_start C gen T)) (\<lambda>T.
       Inr (T\<lparr>th_stats := AddBytes (us_bytes T) (th_stats T)\<rparr>))"

section \<open>Iterators\<close>

definition creation_turn ::
  "('g, 'h, 'm, 'c, 'q, 'w, 'i) rlib \<Rightarrow> read_cfg \<Rightarrow> ('g, 'h, 'm, 'c, 'q, 'w) bench_thread \<Rightarrow>
   ('g, 'h, 'm, 'c, 'q, 'w) bench_thread outcome" where
  "creation_turn L C T =
     bindO (select_db (l_random L) T) (\<lambda>(i, T).
     bindO (read_timestamp (l_random L) (rc_timestamp_size C) (rc_latest C) T) (\<lambda>T.
     bindO (deref (db (selected (th_dbs T) i))) (\<lambda>m.
       finished L (rc_stats C) (Some m) 1 kOthers T)))"

definition IteratorCreation ::
  "('g, 'h, 'm, 'c, 'q, 'w, 'i) rlib \<Rightarrow> read_cfg \<Rightarrow> nat \<Rightarrow> ('g, 'h, 'm, 'c, 'q, 'w) bench_thread \<Rightarrow>
   ('g, 'h, 'm, 'c, 'q, 'w) bench_thread outcome" where
  "IteratorCreation L C fuel T =
     (let (D, c) = Duration_new (l_now L) (of_int (rc_duration C)) (rc_reads C) 0 (clk (th_env T))
      in bench_loop (l_now L) (rc_granularity C) 1 (creation_turn L C) fuel (T\<lparr>th_duration := D, th_env := (th_env T)\<lparr>clk := c\<rparr>\<rparr>))"

text \<open>
  \<open>BGScan\<close> walks through the benchmark's own database again and again; \<open>SeekToFirst\<close> and the status of the iterator
  are arguments.
\<close>

record ('g, 'h, 'm, 'c, 'q, 'w, 'i) scanstate = "('g, 'h, 'm, 'c, 'q, 'w) bench_thread" +
  sn_iter :: 'i
  sn_seeks :: nat
  sn_nexts :: nat

definition scan_turn ::
  "('g, 'h, 'm, 'c, 'q, 'w, 'i) rlib \<Rightarrow> read_cfg \<Rightarrow> ('i \<Rightarrow> 'i) \<Rightarrow> ('i \<Rightarrow> bool) \<Rightarrow> ('g, 'h, 'm, 'c, 'q, 'w, 'i) scanstate \<Rightarrow>
   ('g, 'h, 'm, 'c, 'q, 'w, 'i) scanstate outcome" where
  "scan_turn L C seek_to_first status_ok T =
     bindO (if \<not> it_valid (l_iter L (None, None)) (sn_iter T)
            then Inr (T\<lparr>sn_iter := seek_to_first (sn_iter T), sn_seeks := sn_seeks T + 1\<rparr>)
            else if \<not> status_ok (sn_iter T) then Inl Process_Abort
            else Inr (T\<lparr>sn_iter := it_next (l_iter L (None, None)) (sn_iter T), sn_nexts := sn_nexts T + 1\<rparr>)) (\<lambda>T.
       finished L (rc_stats C) (db (bdb (th_dbs T))) 1 kSeek T)"

definition BGScan ::
  "('g, 'h, 'm, 'c, 'q, 'w, 'i) rlib \<Rightarrow> read_cfg \<Rightarrow> int \<Rightarrow> ('i \<Rightarrow> 'i) \<Rightarrow> ('i \<Rightarrow> bool) \<Rightarrow> nat \<Rightarrow>
   ('g, 'h, 'm, 'c, 'q, 'w) bench_thread \<Rightarrow> ('g, 'h, 'm, 'c, 'q, 'w, 'i) scanstate outcome" where
  "BGScan L C num_multi_db seek_to_first status_ok fuel T =
     (if 0 < num_multi_db then Inl Process_Abort
      else case db (bdb (th_dbs T)) of
        None \<Rightarrow> Inl Assert_Failed
      | Some m \<Rightarrow>
          bindO (read_timestamp (l_random L) (rc_timestamp_size C) (rc_latest C) T) (\<lambda>T.
            let (D, c) = Duration_new (l_now L) (of_int (rc_duration C)) (rc_reads C) 0 (clk (th_env T))
            in bench_loop (l_now L) (rc_granularity C) 1 (scan_turn L C seek_to_first status_ok) fuel
                 (bench_thread.extend (T\<lparr>th_duration := D, th_env := (th_env T)\<lparr>clk := c\<rparr>\<rparr>)
                    (scanstate.fields (it_new (l_iter L (None, None)) m) 0 0))))"

section \<open>Readers and writers by thread\<close>

text \<open>Thread 0 does the background work, the others the benchmark proper.\<close>

definition ReadWhileWriting ::
  "('g, 'h, 'm, 'c, 'q, 'w, 'i) ulib \<Rightarrow> int \<Rightarrow> read_cfg \<Rightarrow> bg_cfg \<Rightarrow> (nat \<Rightarrow> bool) \<Rightarrow> 'g RandomGenerator \<Rightarrow> nat \<Rightarrow>
   ('g, 'h, 'm, 'c, 'q, 'w) bench_thread \<Rightarrow> ('g, 'h, 'm, 'c, 'q, 'w) bench_thread outcome" where
  "ReadWhileWriting L tid C G done_at gen fuel T =
     (if 0 < tid then bindO (ReadRandom (rlib.truncate L) C fuel T) (\<lambda>T. Inr (bench_thread.truncate T))
      else bindO (BGWriter L G kWrite done_at gen fuel T) (\<lambda>T. Inr (bench_thread.truncate T)))"

definition ReadWhileMerging ::
  "('g, 'h, 'm, 'c, 'q, 'w, 'i) ulib \<Rightarrow> int \<Rightarrow> read_cfg \<Rightarrow> bg_cfg \<Rightarrow> (nat \<Rightarrow> bool) \<Rightarrow> 'g RandomGenerator \<Rightarrow> nat \<Rightarrow>
   ('g, 'h, 'm, 'c, 'q, 'w) bench_thread \<Rightarrow> ('g, 'h, 'm, 'c, 'q, 'w) bench_thread outcome" where
  "ReadWhileMerging L tid C G done_at gen fuel T =
     (if 0 < tid then bindO (ReadRandom (rlib.truncate L) C fuel T) (\<lambda>T. Inr (bench_thread.truncate T))
      else bindO (BGWriter L G kMerge done_at gen fuel T) (\<lambda>T. Inr (bench_thread.truncate T)))"

definition ReadWhileScanning ::
  "('g, 'h, 'm, 'c, 'q, 'w, 'i) rlib \<Rightarrow> int \<Rightarrow> read_cfg \<Rightarrow> int \<Rightarrow> ('i \<Rightarrow> 'i) \<Rightarrow> ('i \<Rightarrow> bool) \<Rightarrow> nat \<Rightarrow>
   ('g, 'h, 'm, 'c, 'q, 'w) bench_thread \<Rightarrow> ('g, 'h, 'm, 'c, 'q, 'w) bench_thread outcome" where
  "ReadWhileScanning L tid C num_multi_db seek_to_first status_ok fuel T =
     (if 0 < tid then bindO (ReadRandom L C fuel T) (\<lambda>T. Inr (bench_thread.truncate T))
      else bindO (BGScan L C num_multi_db seek_to_first status_ok fuel T) (\<lambda>T. Inr (bench_thread.truncate T)))"

definition SeekRandomWhileWriting ::
  "('g, 'h, 'm, 'c, 'q, 'w, 'i) ulib \<Rightarrow> int \<Rightarrow> seek_cfg \<Rightarrow> bg_cfg \<Rightarrow> (nat \<Rightarrow> bool) \<Rightarrow> 'g RandomGenerator \<Rightarrow> nat \<Rightarrow>
   ('g, 'h, 'm, 'c, 'q, 'w) bench_thread \<Rightarrow> ('g, 'h, 'm, 'c, 'q, 'w) bench_thread outcome" where
  "SeekRandomWhileWriting L tid C G done_at gen fuel T =
     (if 0 < tid then bindO (SeekRandom (rlib.truncate L) C (uc_keys G) fuel T) (\<lambda>T. Inr (bench_thread.truncate T))
      else bindO (BGWriter L G kWrite done_at gen fuel T) (\<lambda>T. Inr (bench_thread.truncate T)))"

definition SeekRandomWhileMerging ::
  "('g, 'h, 'm, 'c, 'q, 'w, 'i) ulib \<Rightarrow> int \<Rightarrow> seek_cfg \<Rightarrow> bg_cfg \<Rightarrow> (nat \<Rightarrow> bool) \<Rightarrow> 'g RandomGenerator \<Rightarrow> nat \<Rightarrow>
   ('g, 'h, 'm, 'c, 'q, 'w) bench_thread \<Rightarrow> ('g, 'h, 'm, 'c, 'q, 'w) bench_thread outcome" where
  "SeekRandomWhileMerging L tid C G done_at gen fuel T =
     (if 0 < tid then bindO (SeekRandom (rlib.truncate L) C (uc_keys G) fuel T) (\<lambda>T. Inr (bench_thread.truncate T))
      else bindO (BGWriter L G kMerge done_at gen fuel T) (\<lambda>T. Inr (bench_thread.truncate T)))"

definition IteratorCreationWhileWriting ::
  "('g, 'h, 'm, 'c, 'q, 'w, 'i) ulib \<Rightarrow> int \<Rightarrow> read_cfg \<Rightarrow> bg_cfg \<Rightarrow> (nat \<Rightarrow> bool) \<Rightarrow> 'g RandomGenerator \<Rightarrow> nat \<Rightarrow>
   ('g, 'h, 'm, 'c, 'q, 'w) bench_thread \<Rightarrow> ('g, 'h, 'm, 'c, 'q, 'w) bench_thread outcome" where
  "IteratorCreationWhileWriting L tid C G done_at gen fuel T =
     (if 0 < tid then IteratorCreation (rlib.truncate L) C fuel T
      else bindO (BGWriter L G kWrite done_at gen fuel T) (\<lambda>T. Inr (bench_thread.truncate T)))"

section \<open>When the background writer ends\<close>

definition plain_bg :: "bg_cfg \<Rightarrow> bool" where
  "plain_bg C \<longleftrightarrow> valid_cfg (uc_keys C) \<and> keys_per_prefix (uc_keys C) \<le> 0 \<and> 0 < uc_num C \<and> in_i64 (uc_num C) \<and>
     gc_writes_per_tombstone C \<le> 0 \<and> fl_stats_interval (uc_stats C) = 0"

definition bg_ready :: "bg_cfg \<Rightarrow> ('g, 'h, 'm, 'c, 'q, 'w) bgstate \<Rightarrow> bool" where
  "bg_ready C T \<longleftrightarrow>
     db (bdb (th_dbs T)) \<noteq> None \<and> s_reporter (th_stats T) \<noteq> None \<and> rsize (us_key T) = nat (key_size (uc_keys C)) \<and>
     kache_flag (th_master T) = 0 \<and> monitor_L0_status_arr (th_master T) \<noteq> LEVEL_HIGH \<and> dbptr (th_master T) \<noteq> None \<and>
     gen_inv (us_values T)"

lemma bg_write_ok:
  assumes "plain_bg C" and "uniform_laws (l_sampler L)" and "\<forall>k v m. fst (rdb_put (l_rdb L) k v m) = OK" and "bg_ready C T"
  shows "\<exists>T'. bg_write L C kWrite i T = Inr T' \<and> bg_ready C T' \<and> bg_written T' = bg_written T + 1"
proof -
  obtain m where m: "dbptr (th_master T) = Some m"
    using assms(4) by (auto simp: bg_ready_def)
  have "rsize (us_key T) = nat (key_size (uc_keys C))"
    using assms(4) by (simp add: bg_ready_def)
  then obtain x key g buf where k: "draw_key (l_random L) (uc_keys C) (uc_num C) T = Inr (x, key, T\<lparr>th_rand := g, us_key := buf\<rparr>)"
    "rsize buf = nat (key_size (uc_keys C))"
    using draw_key_plain [of "uc_keys C" "uc_num C" T] assms(1) by (fastforce simp: plain_bg_def)
  have "gen_inv (us_values T)"
    using assms(4) by (simp add: bg_ready_def)
  then obtain v G where v: "Generate (l_sampler L) (us_values T) = Inr (v, G)" "gen_inv G"
    using Generate_ok [OF assms(2)] by blast
  let ?M = "(th_master T)\<lparr>dbptr := Some (snd (rdb_put (l_rdb L) key v m))\<rparr>"
  have p: "master_Put (l_rdb L) (l_murmur L) (l_os L) key v (th_master T) = Inr (OK, ?M)"
    using main_put_ok [OF m] assms(3,4) by (simp add: master_Put_def bg_ready_def)
  define U where "U = T\<lparr>th_rand := g, us_key := buf, us_values := G,
    th_timestamp := (if 0 < uc_timestamp_size C then snd (Allocate (th_timestamp T)) else th_timestamp T), th_master := ?M,
    bg_written := bg_written T + 1, us_bytes := us_bytes T + int (length key) + int (length v) + uc_timestamp_size C\<rparr>"
  have "s_reporter (th_stats U) \<noteq> None" "fl_stats_interval (uc_stats C) = 0"
    using assms(1,4) by (simp_all add: U_def bg_ready_def plain_bg_def)
  then obtain S E where f: "finished L (uc_stats C) (db (bdb (th_dbs U))) 1 kWrite U = Inr (U\<lparr>th_stats := S, th_env := E\<rparr>)"
    "s_reporter S \<noteq> None"
    using finished_plain by blast
  have "bg_write L C kWrite i T = finished L (uc_stats C) (db (bdb (th_dbs U))) 1 kWrite U"
    using k(1) v(1) p by (simp add: bg_write_def U_def Let_def)
  then show ?thesis
    using f assms(4) k(2) v(2) by (simp add: bg_ready_def U_def)
qed

text \<open>Whether the writer stops at look \<open>k\<close> with \<open>w\<close> keys written.\<close>

definition bg_stops :: "bg_cfg \<Rightarrow> (nat \<Rightarrow> bool) \<Rightarrow> nat \<Rightarrow> u32 \<Rightarrow> bool" where
  "bg_stops C done_at k w \<longleftrightarrow> (if gc_finish_after_writes C then uint w = gc_writes C else done_at k)"

lemma bg_loop_turn:
  assumes "plain_bg C" and "uniform_laws (l_sampler L)" and "\<forall>k v m. fst (rdb_put (l_rdb L) k v m) = OK" and "bg_ready C T"
  shows "bg_stops C done_at k (bg_written T) \<Longrightarrow>
      \<exists>T'. bg_loop L C kWrite done_at (Suc fuel) k T = Inr T' \<and> bg_written T' = bg_written T"
    and "\<not> bg_stops C done_at k (bg_written T) \<Longrightarrow>
      \<exists>T'. bg_loop L C kWrite done_at (Suc fuel) k T = bg_loop L C kWrite done_at fuel (Suc k) T' \<and> bg_ready C T' \<and>
        bg_written T' = bg_written T + 1"
proof -
  obtain g where b: "select_db (l_random L) T = Inr (None, T\<lparr>th_rand := g\<rparr>)"
    using assms(4) by (auto simp: bg_ready_def select_db_def SelectDBWithCfh_def split_beta)
  show "\<exists>T'. bg_loop L C kWrite done_at (Suc fuel) k T = Inr T' \<and> bg_written T' = bg_written T"
    if "bg_stops C done_at k (bg_written T)"
    using that b by (auto simp: bg_stops_def split: if_splits)
  have "bg_ready C (T\<lparr>th_rand := g\<rparr>)"
    using assms(4) by (simp add: bg_ready_def)
  then obtain T' where w: "bg_write L C kWrite None (T\<lparr>th_rand := g\<rparr>) = Inr T'" "bg_ready C T'" "bg_written T' = bg_written T + 1"
    using bg_write_ok [OF assms(1-3), of "T\<lparr>th_rand := g\<rparr>" None] by auto
  moreover have "\<not> bg_tombstone_due C w" for w
    using assms(1) by (simp add: bg_tombstone_due_def plain_bg_def)
  ultimately show "\<exists>T'. bg_loop L C kWrite done_at (Suc fuel) k T = bg_loop L C kWrite done_at fuel (Suc k) T' \<and> bg_ready C T' \<and>
        bg_written T' = bg_written T + 1" if "\<not> bg_stops C done_at k (bg_written T)"
    using that b by (intro exI [of _ T']) (auto simp: bg_stops_def split: if_splits)
qed

lemma bg_loop_runs:
  assumes "plain_bg C" and "uniform_laws (l_sampler L)" and "\<forall>k v m. fst (rdb_put (l_rdb L) k v m) = OK"
    and "bg_ready C T" and "\<forall>j<n. \<not> bg_stops C done_at (k + j) (bg_written T + of_nat j)"
    and "bg_stops C done_at (k + n) (bg_written T + of_nat n)" and "n < fuel"
  shows "\<exists>T'. bg_loop L C kWrite done_at fuel k T = Inr T' \<and> bg_written T' = bg_written T + of_nat n"
  using assms(4-7)
proof (induction n arbitrary: fuel k T)
  case 0
  then obtain f where "fuel = Suc f"
    by (cases fuel) auto
  then show ?case
    using bg_loop_turn(1) [OF assms(1-3) 0(1), of done_at k f] 0(3) by auto
next
  case (Suc n)
  obtain f where f: "fuel = Suc f" "n < f"
    using Suc.prems(4) by (cases fuel) auto
  have "\<not> bg_stops C done_at k (bg_written T)"
    using Suc.prems(2) by (auto dest: spec [of _ 0])
  then obtain T1 where T1: "bg_loop L C kWrite done_at (Suc f) k T = bg_loop L C kWrite done_at f (Suc k) T1" "bg_ready C T1"
    "bg_written T1 = bg_written T + 1"
    using bg_loop_turn(2) [OF assms(1-3) Suc.prems(1), of done_at k f] by blast
  have "\<not> bg_stops C done_at (Suc k + j) (bg_written T1 + of_nat j)" if "j < n" for j
    using Suc.prems(2) that by (auto simp: T1(3) add.assoc dest: spec [of _ "Suc j"])
  moreover have "bg_stops C done_at (Suc k + n) (bg_written T1 + of_nat n)"
    using Suc.prems(3) by (simp add: T1(3) add.assoc)
  ultimately obtain T' where "bg_loop L C kWrite done_at f (Suc k) T1 = Inr T'" "bg_written T' = bg_written T1 + of_nat n"
    using Suc.IH [OF T1(2) _ _ f(2)] by blast
  then show ?case
    using T1(1,3) by (simp del: bg_loop.simps add: f(1) add.assoc)
qed

lemma bg_loop_endless:
  assumes "plain_bg C" and "uniform_laws (l_sampler L)" and "\<forall>k v m. fst (rdb_put (l_rdb L) k v m) = OK"
    and "bg_ready C T" and "\<forall>j w. \<not> bg_stops C done_at j w"
  shows "bg_loop L C kWrite done_at fuel k T = Inl Out_Of_Fuel"
  using assms(4)
proof (induction fuel arbitrary: k T)
  case (Suc fuel)
  then show ?case
    using bg_loop_turn(2) [OF assms(1-3) Suc.prems, of done_at k fuel] assms(5) by metis
qed simp

lemma bg_start_ready:
  assumes "kache_flag (th_master T) = 0" and "monitor_L0_status_arr (th_master T) \<noteq> LEVEL_HIGH" and "dbptr (th_master T) \<noteq> None"
    and "db (bdb (th_dbs T)) \<noteq> None" and "s_reporter (th_stats T) \<noteq> None" and "gen_inv gen"
  shows "bg_ready C (bg_start C gen T)" and "bg_written (bg_start C gen T) = 0"
  using assms by (simp_all add: bg_ready_def bg_start_def bench_thread.defs ustate.defs bgstate.defs AllocateKey_def)

text \<open>
  Claim C21 (termination).  Without \<open>finish_after_writes\<close> the background writer puts keys until the first look at which
  the other threads are done.  With it the writer ends after \<open>writes_\<close> puts if that number is below \<open>2^32\<close>, and
  otherwise never, because it counts in 32 bits.
\<close>

theorem BGWriter_ends:
  assumes "plain_bg C" and "uniform_laws (l_sampler L)" and "\<forall>k v m. fst (rdb_put (l_rdb L) k v m) = OK"
    and "kache_flag (th_master T) = 0" and "monitor_L0_status_arr (th_master T) \<noteq> LEVEL_HIGH" and "dbptr (th_master T) \<noteq> None"
    and "db (bdb (th_dbs T)) \<noteq> None" and "s_reporter (th_stats T) \<noteq> None" and "gen_inv gen"
  shows "(\<not> gc_finish_after_writes C \<and> done_at n \<and> (\<forall>j<n. \<not> done_at j) \<and> n < fuel \<longrightarrow>
      (\<exists>T'. BGWriter L C kWrite done_at gen fuel T = Inr T' \<and> bg_written T' = of_nat n)) \<and>
    (gc_finish_after_writes C \<and> 0 \<le> gc_writes C \<and> gc_writes C < 2 ^ 32 \<and> nat (gc_writes C) < fuel \<longrightarrow>
      (\<exists>T'. BGWriter L C kWrite done_at gen fuel T = Inr T' \<and> uint (bg_written T') = gc_writes C)) \<and>
    (gc_finish_after_writes C \<and> 2 ^ 32 \<le> gc_writes C \<longrightarrow> BGWriter L C kWrite done_at gen fuel T = Inl Out_Of_Fuel)"
proof (intro conjI impI; elim conjE)
  let ?T = "bg_start C gen T"
  note r = bg_start_ready [OF assms(4-9), of C]
  note runs = bg_loop_runs [OF assms(1-3) r(1), where k = 0]
  have small: "uint (of_nat j :: u32) = int j" if "int j < 2 ^ 32" for j
  proof -
    have "j < 2 ^ 32"
      using that by (metis of_nat_less_iff of_nat_numeral of_nat_power)
    then have "unat (of_nat j :: u32) = j"
      by (simp add: unat_of_nat)
    then show ?thesis
      by (metis uint_nat)
  qed
  show "\<exists>T'. BGWriter L C kWrite done_at gen fuel T = Inr T' \<and> bg_written T' = of_nat n"
    if "\<not> gc_finish_after_writes C" "done_at n" "\<forall>j<n. \<not> done_at j" "n < fuel"
    using runs [of n done_at fuel] that r(2) by (auto simp: bg_stops_def BGWriter_def)
  show "\<exists>T'. BGWriter L C kWrite done_at gen fuel T = Inr T' \<and> uint (bg_written T') = gc_writes C"
    if w: "gc_finish_after_writes C" "0 \<le> gc_writes C" "gc_writes C < 2 ^ 32" "nat (gc_writes C) < fuel"
  proof -
    have "\<not> bg_stops C done_at (0 + j) (bg_written ?T + of_nat j)" if "j < nat (gc_writes C)" for j
      using that w(1,3) small [of j] by (simp add: r(2) bg_stops_def)
    moreover have "bg_stops C done_at (0 + nat (gc_writes C)) (bg_written ?T + of_nat (nat (gc_writes C)))"
      using w small [of "nat (gc_writes C)"] by (simp add: r(2) bg_stops_def)
    ultimately obtain T' where "bg_loop L C kWrite done_at fuel 0 ?T = Inr T'" "bg_written T' = of_nat (nat (gc_writes C))"
      using runs [of "nat (gc_writes C)" done_at fuel] w(4) by (auto simp: r(2))
    then show ?thesis
      using w(2,3) small [of "nat (gc_writes C)"] by (auto simp: BGWriter_def)
  qed
  show "BGWriter L C kWrite done_at gen fuel T = Inl Out_Of_Fuel" if "gc_finish_after_writes C" "2 ^ 32 \<le> gc_writes C"
  proof -
    have "\<not> bg_stops C done_at j w" for j w
      using that uint_lt2p [of w] by (simp add: bg_stops_def)
    then show ?thesis
      using bg_loop_endless [OF assms(1-3) r(1)] by (simp add: BGWriter_def)
  qed
qed

text \<open>One put, then the readers are done.\<close>

definition one_bg_write :: bg_cfg where
  "one_bg_write = update_cfg.extend three_updates (bg_cfg.fields False 0 0 0 0 0 False)"

theorem BGWriter_ends_witness:
  "\<exists>T'. BGWriter update_lib one_bg_write kWrite (\<lambda>k. k = 1) byte_values 2 reader = Inr T' \<and> bg_written T' = 1"
proof -
  have "plain_bg one_bg_write" "\<not> gc_finish_after_writes one_bg_write"
    by (simp_all add: plain_bg_def one_bg_write_def update_cfg.defs bg_cfg.defs three_updates_def one_write_def in_i64_def
        four_byte_keys_def valid_cfg_def)
  with BGWriter_ends [OF this(1) updater_ready(2,4-10), of "\<lambda>k. k = 1" 1 2] show ?thesis
    by simp
qed

section \<open>What deletions delete\<close>

definition plain_delete :: "update_cfg \<Rightarrow> int \<Rightarrow> bool" where
  "plain_delete C entries \<longleftrightarrow> valid_cfg (uc_keys C) \<and> keys_per_prefix (uc_keys C) \<le> 0 \<and> 0 < entries \<and>
     uc_timestamp_size C \<le> 0 \<and> fl_stats_interval (uc_stats C) = 0"

lemma delete_batch_seq:
  fixes T :: "('g, 'h, 'm, 'c, 'q, 'w) dstate"
  assumes "valid_cfg (uc_keys C)" and "keys_per_prefix (uc_keys C) \<le> 0" and "rsize (ds_key T) = nat (key_size (uc_keys C))"
  shows "\<exists>buf. rsize buf = nat (key_size (uc_keys C)) \<and>
    delete_batch R C True n k T = Inr (map (\<lambda>j. BDelete None (number_key C (k + int j))) [0..<n], T\<lparr>ds_key := buf\<rparr>)"
  using assms(3)
proof (induction n arbitrary: k T)
  case 0
  then show ?case
    by (intro exI [of _ "ds_key T"]) simp
next
  case (Suc n)
  obtain buf where b: "GenerateKeyFromInt (uc_keys C) (of_int k) (uc_num C) (ds_key T) = Inr (number_key C k, buf)"
    "rsize buf = nat (key_size (uc_keys C))"
    using GenerateKeyFromInt_layout [OF assms(1) Suc.prems] assms(2) by (force simp: number_key_def)
  obtain buf' where b': "rsize buf' = nat (key_size (uc_keys C))"
    "delete_batch R C True n (k + 1) (T\<lparr>ds_key := buf\<rparr>) =
      Inr (map (\<lambda>j. BDelete None (number_key C (k + 1 + int j))) [0..<n], T\<lparr>ds_key := buf'\<rparr>)"
    using Suc.IH [of "T\<lparr>ds_key := buf\<rparr>" "k + 1"] b(2) by auto
  have "map (\<lambda>j. BDelete None (number_key C (k + int j)) :: 'h batch_op) [0..<Suc n] =
      BDelete None (number_key C k) # map (\<lambda>j. BDelete None (number_key C (k + 1 + int j))) [0..<n]"
    by (simp only: map_upt_Suc) (simp add: add.assoc)
  then show ?case
    using b b' by (intro exI [of _ buf']) (simp del: upt_Suc)
qed

lemma fold_deletes:
  "fold batch_view (map (\<lambda>j. BDelete None (f j)) js) V x = (if x \<in> f ` set js then None else V x)"
  by (induction js arbitrary: V) auto

lemma deleted_gone:
  assumes "write_laws L" and "\<forall>ops m. fst (l_write L ops m) = OK"
    and "ops = map (\<lambda>j. BDelete None (number_key C (k + int j))) [0..<n]"
    and "\<And>j. 0 \<le> j \<Longrightarrow> j < k \<Longrightarrow> view (l_rdb L) m (number_key C j) = None" and "0 \<le> j" and "j < k + int n"
  shows "view (l_rdb L) (snd (l_write L ops m)) (number_key C j) = None"
proof -
  have "view (l_rdb L) (snd (l_write L ops m)) = fold batch_view ops (view (l_rdb L) m)"
    using assms(1,2) by (auto simp: write_laws_def assms(3))
  then have w: "view (l_rdb L) (snd (l_write L ops m)) x = (if x \<in> (\<lambda>i. number_key C (k + int i)) ` set [0..<n] then None
      else view (l_rdb L) m x)" for x
    by (simp only: assms(3) fold_deletes)
  show ?thesis
  proof (cases "j < k")
    case False
    then have "j = k + int (nat (j - k))" "nat (j - k) < n"
      using assms(6) by auto
    then have "number_key C j \<in> (\<lambda>i. number_key C (k + int i)) ` set [0..<n]"
      by (metis atLeastLessThan_iff image_eqI set_upt zero_le)
    then show ?thesis
      unfolding w by (simp only: if_True)
  qed (use assms(4,5) in \<open>simp add: w\<close>)
qed

definition delete_pos ::
  "('g, 'h, 'm, 'c, 'q, 'w, 'i) ulib \<Rightarrow> update_cfg \<Rightarrow> int \<Rightarrow> ('w, 'm) master \<Rightarrow> nat \<Rightarrow> ('g, 'h, 'm, 'c, 'q, 'w) dstate \<Rightarrow> bool" where
  "delete_pos L C entries M i T \<longleftrightarrow>
     plain_delete C entries \<and> write_laws L \<and> (\<forall>ops m. fst (l_write L ops m) = OK) \<and> th_master T = M \<and>
     s_reporter (th_stats T) \<noteq> None \<and> rsize (ds_key T) = nat (key_size (uc_keys C)) \<and> ds_i T = int i * entries \<and>
     (\<exists>m. db (bdb (th_dbs T)) = Some m \<and> (\<forall>j. 0 \<le> j \<and> j < int i * entries \<longrightarrow> view (l_rdb L) m (number_key C j) = None))"

lemma delete_turn_pos:
  fixes T :: "('g, 'h, 'm, 'c, 'q, 'w) dstate"
  assumes "delete_pos L C entries M i T"
  shows "\<exists>T'. delete_turn L C entries True T = Inr T' \<and> delete_pos L C entries M (Suc i) T' \<and> th_duration T' = th_duration T"
proof -
  have C: "plain_delete C entries" "write_laws L" "\<forall>ops m. fst (l_write L ops m) = OK" "ds_i T = int i * entries"
    "rsize (ds_key T) = nat (key_size (uc_keys C))" "s_reporter (th_stats T) \<noteq> None" "0 < entries"
    using assms by (simp_all add: delete_pos_def plain_delete_def)
  obtain m where m: "db (bdb (th_dbs T)) = Some m" "\<And>j. 0 \<le> j \<Longrightarrow> j < ds_i T \<Longrightarrow> view (l_rdb L) m (number_key C j) = None"
    using assms by (auto simp: delete_pos_def)
  obtain g where b: "select_db (l_random L) T = Inr (None, T\<lparr>th_rand := g\<rparr>)"
    using m(1) by (auto simp: select_db_def SelectDBWithCfh_def split_beta)
  define ops :: "'h batch_op list" where "ops = map (\<lambda>j. BDelete None (number_key C (ds_i T + int j))) [0..<nat entries]"
  obtain buf where d: "rsize buf = nat (key_size (uc_keys C))"
    "delete_batch (l_random L) C True (nat entries) (ds_i T) (T\<lparr>th_rand := g\<rparr>) = Inr (ops, T\<lparr>th_rand := g, ds_key := buf\<rparr>)"
    using delete_batch_seq [of C "T\<lparr>th_rand := g\<rparr>" "l_random L" "nat entries" "ds_i T"] C(1,5) by (auto simp: plain_delete_def ops_def)
  let ?m = "snd (l_write L ops m)"
  have v: "view (l_rdb L) ?m (number_key C j) = None" if "0 \<le> j" "j < int (Suc i) * entries" for j
    using deleted_gone [OF C(2,3) ops_def m(2)] that C(4,7) by (simp add: distrib_right)
  define U where "U = T\<lparr>th_rand := g, ds_key := buf, th_dbs := put_selected None ?m (th_dbs T)\<rparr>"
  have "s_reporter (th_stats U) \<noteq> None" "fl_stats_interval (uc_stats C) = 0"
    using C(1,6) by (simp_all add: U_def plain_delete_def)
  then obtain S E where f: "finished L (uc_stats C) (db (selected (th_dbs U) None)) entries kDelete U = Inr (U\<lparr>th_stats := S, th_env := E\<rparr>)"
    "s_reporter S \<noteq> None"
    using finished_plain by blast
  have "delete_turn L C entries True T = Inr (U\<lparr>th_stats := S, th_env := E, ds_i := ds_i T + entries\<rparr>)"
    using b d(2) m(1) C(1,3) f(1) by (simp add: delete_turn_def plain_delete_def selected_def U_def split_beta)
  moreover have "delete_pos L C entries M (Suc i) (U\<lparr>th_stats := S, th_env := E, ds_i := ds_i T + entries\<rparr>)"
    using assms d(1) f(2) v C(4) by (simp add: delete_pos_def U_def put_selected_def distrib_right)
  ultimately show ?thesis
    by (simp add: U_def)
qed

interpretation deletes: counted_body "delete_turn L C entries True" "delete_pos L C entries M"
  by (unfold_locales, erule delete_turn_pos, simp add: delete_pos_def)

text \<open>
  \<open>DeleteSeq\<close> ends and deletes the keys 0, 1, 2 and so on, a whole number of batches, from the
  benchmark's own database.  \<open>DB_MASTER\<close>, into which the write benchmarks put them, is left as it was.
\<close>

theorem DeleteSeq_deletes:
  assumes "plain_delete C entries" and "write_laws L" and "\<forall>ops m. fst (l_write L ops m) = OK" and "db (bdb (th_dbs T)) \<noteq> None"
    and "s_reporter (th_stats T) \<noteq> None" and "0 \<le> deletes" and "in_i64 (deletes + entries)" and "nat deletes < fuel"
  shows "\<exists>T' m. DoDelete L C entries deletes True fuel T = Inr T' \<and> th_master T' = th_master T \<and> db (bdb (th_dbs T')) = Some m \<and>
    (\<forall>j. 0 \<le> j \<and> j < deletes div entries * entries \<longrightarrow> view (l_rdb L) m (number_key C j) = None)"
proof -
  have e: "0 < entries"
    using assms(1) by (simp add: plain_delete_def)
  obtain D c where D: "Duration_new (l_now L) 0 deletes 0 (clk (th_env T)) = (D, c)" by (rule prod.exhaust)
  let ?T = "bench_thread.extend (T\<lparr>th_duration := D, th_env := (th_env T)\<lparr>clk := c\<rparr>\<rparr>) (dstate.fields (AllocateKey (uc_keys C)) 0)"
  have p0: "delete_pos L C entries (th_master T) 0 ?T"
    using assms(1-5) by (auto simp: delete_pos_def bench_thread.defs dstate.defs AllocateKey_def)
  have d0: "th_duration ?T = fst (Duration_new (l_now L) 0 deletes 0 (clk (th_env T)))"
    by (simp add: bench_thread.defs dstate.defs D)
  obtain T1 where T1: "bench_loop (l_now L) (uc_granularity C) entries (delete_turn L C entries True) fuel ?T = Inr T1"
    "delete_pos L C entries (th_master T) (nat (deletes div entries)) T1"
    using deletes.loop_runs [OF p0 d0 assms(6) e assms(7,8)] by blast
  moreover have "int (nat (deletes div entries)) = deletes div entries"
    using e assms(6) by (simp add: pos_imp_zdiv_nonneg_iff)
  ultimately show ?thesis
    using D by (auto simp: DoDelete_def delete_pos_def)
qed

text \<open>Key 1, loaded through \<open>DB_MASTER\<close>, survives the deletion of the keys 0 to 2.\<close>

theorem DeleteSeq_deletes_witness:
  "\<exists>T'. DoDelete update_lib three_updates 1 3 True 4 reader = Inr T' \<and> th_master T' = th_master reader \<and>
     dbptr (th_master T') = Some [(key_bytes four_byte_keys 1 10, [7])]"
proof -
  have "plain_delete three_updates 1" "\<forall>ops m. fst (l_write update_lib ops m) = OK"
    by (simp_all add: plain_delete_def three_updates_def update_lib_simps one_write_def four_byte_keys_def valid_cfg_def)
  from DeleteSeq_deletes [OF this(1) list_write_laws this(2) updater_ready(8,9), of 3 4] show ?thesis
    using reader_ready(3) by (auto simp: in_i64_def)
qed

end
