(* ===== verification/Bench_Barrier.thy ===== *)
theory Bench_Barrier
  imports KV_Prelude
begin

text \<open>
  How \<open>RunBenchmark\<close> of \<open>db_bench_tool.cc\<close> starts its threads and waits for them: the mutex and the condition
  variable of \<open>SharedState\<close>, \<open>ThreadBody\<close>, and the look of \<open>BGWriter\<close> at the other threads, as a step relation on the
  positions of the main thread and of \<open>n\<close> workers.  Waiting may end without a signal.
\<close>

section \<open>The threads and what they share\<close>

datatype agent = Main | Worker nat

text \<open>
  A worker before its creation; before the first lock; holding it before and after counting itself; waiting
  for the start; running; looking at the others (background writer); before the second lock; holding it before
  and after counting itself as done; ended.
\<close>

datatype wpc = W_New | W_Begin | W_Enter | W_Check | W_Wait | W_Run | W_Look | W_Stop | W_Done | W_Leave | W_End

text \<open>The main thread creating worker \<open>k\<close>; in and out of its two waits; merging statistics.\<close>

datatype mpc = M_Create nat | M_Init | M_Init_Wait | M_Done | M_Done_Wait | M_Merge

record SharedState =
  mu :: "agent option"
  waiting :: "agent set"
  num_initialized :: nat
  num_done :: nat
  start :: bool
  wpcs :: "nat \<Rightarrow> wpc"
  mpos :: mpc

definition shared_start :: "SharedState \<Rightarrow> bool" where
  "shared_start c \<longleftrightarrow>
     c = \<lparr>mu = None, waiting = {}, num_initialized = 0, num_done = 0, start = False, wpcs = \<lambda>_. W_New, mpos = M_Create 0\<rparr>"

definition worker_at :: "nat \<Rightarrow> wpc \<Rightarrow> SharedState \<Rightarrow> SharedState" where
  "worker_at i p c = c\<lparr>wpcs := (wpcs c)(i := p)\<rparr>"

definition main_at :: "mpc \<Rightarrow> SharedState \<Rightarrow> SharedState" where
  "main_at p c = c\<lparr>mpos := p\<rparr>"

definition lock :: "agent \<Rightarrow> SharedState \<Rightarrow> SharedState" where
  "lock a c = c\<lparr>mu := Some a\<rparr>"

definition unlock :: "SharedState \<Rightarrow> SharedState" where
  "unlock c = c\<lparr>mu := None\<rparr>"

text \<open>\<open>cv.Wait\<close> gives the mutex up and joins the waiting; \<open>cv.SignalAll\<close> lets them all go on.\<close>

definition wait :: "agent \<Rightarrow> SharedState \<Rightarrow> SharedState" where
  "wait a c = c\<lparr>mu := None, waiting := insert a (waiting c)\<rparr>"

definition signal_if :: "bool \<Rightarrow> SharedState \<Rightarrow> SharedState" where
  "signal_if b c = (if b then c\<lparr>waiting := {}\<rparr> else c)"

section \<open>The steps\<close>

text \<open>\<open>ThreadBody\<close>; when \<open>bg\<close> is set, worker 0 runs \<open>BGWriter\<close>, which ends only after a look at the others.\<close>

inductive worker_step :: "nat \<Rightarrow> bool \<Rightarrow> nat \<Rightarrow> SharedState \<Rightarrow> SharedState \<Rightarrow> bool" for n bg i where
  begin_lock: "wpcs c i = W_Begin \<Longrightarrow> mu c = None \<Longrightarrow> worker_step n bg i c (worker_at i W_Enter (lock (Worker i) c))"
| enter: "wpcs c i = W_Enter \<Longrightarrow>
    worker_step n bg i c (worker_at i W_Check (signal_if (n \<le> num_initialized c + 1) (c\<lparr>num_initialized := num_initialized c + 1\<rparr>)))"
| check_go: "wpcs c i = W_Check \<Longrightarrow> start c \<Longrightarrow> worker_step n bg i c (worker_at i W_Run (unlock c))"
| check_wait: "wpcs c i = W_Check \<Longrightarrow> \<not> start c \<Longrightarrow> worker_step n bg i c (worker_at i W_Wait (wait (Worker i) c))"
| wake: "wpcs c i = W_Wait \<Longrightarrow> Worker i \<notin> waiting c \<Longrightarrow> mu c = None \<Longrightarrow>
    worker_step n bg i c (worker_at i W_Check (lock (Worker i) c))"
| run: "wpcs c i = W_Run \<Longrightarrow> \<not> (bg \<and> i = 0) \<Longrightarrow> worker_step n bg i c (worker_at i W_Stop c)"
| look: "wpcs c i = W_Run \<Longrightarrow> bg \<and> i = 0 \<Longrightarrow> mu c = None \<Longrightarrow> worker_step n bg i c (worker_at i W_Look (lock (Worker i) c))"
| look_again: "wpcs c i = W_Look \<Longrightarrow> num_done c + 1 < num_initialized c \<Longrightarrow> worker_step n bg i c (worker_at i W_Run (unlock c))"
| look_end: "wpcs c i = W_Look \<Longrightarrow> num_initialized c \<le> num_done c + 1 \<Longrightarrow> worker_step n bg i c (worker_at i W_Stop (unlock c))"
| stop_lock: "wpcs c i = W_Stop \<Longrightarrow> mu c = None \<Longrightarrow> worker_step n bg i c (worker_at i W_Done (lock (Worker i) c))"
| count_done: "wpcs c i = W_Done \<Longrightarrow>
    worker_step n bg i c (worker_at i W_Leave (signal_if (n \<le> num_done c + 1) (c\<lparr>num_done := num_done c + 1\<rparr>)))"
| leave: "wpcs c i = W_Leave \<Longrightarrow> worker_step n bg i c (worker_at i W_End (unlock c))"

text \<open>\<open>RunBenchmark\<close>.\<close>

inductive main_step :: "nat \<Rightarrow> SharedState \<Rightarrow> SharedState \<Rightarrow> bool" for n where
  create: "mpos c = M_Create k \<Longrightarrow> k < n \<Longrightarrow> main_step n c (main_at (M_Create (Suc k)) (worker_at k W_Begin c))"
| main_lock: "mpos c = M_Create k \<Longrightarrow> n \<le> k \<Longrightarrow> mu c = None \<Longrightarrow> main_step n c (main_at M_Init (lock Main c))"
| init_wait: "mpos c = M_Init \<Longrightarrow> num_initialized c < n \<Longrightarrow> main_step n c (main_at M_Init_Wait (wait Main c))"
| init_wake: "mpos c = M_Init_Wait \<Longrightarrow> Main \<notin> waiting c \<Longrightarrow> mu c = None \<Longrightarrow> main_step n c (main_at M_Init (lock Main c))"
| go: "mpos c = M_Init \<Longrightarrow> n \<le> num_initialized c \<Longrightarrow>
    main_step n c (main_at M_Done (signal_if True (c\<lparr>start := True\<rparr>)))"
| done_wait: "mpos c = M_Done \<Longrightarrow> num_done c < n \<Longrightarrow> main_step n c (main_at M_Done_Wait (wait Main c))"
| done_wake: "mpos c = M_Done_Wait \<Longrightarrow> Main \<notin> waiting c \<Longrightarrow> mu c = None \<Longrightarrow> main_step n c (main_at M_Done (lock Main c))"
| merge: "mpos c = M_Done \<Longrightarrow> n \<le> num_done c \<Longrightarrow> main_step n c (main_at M_Merge (unlock c))"

inductive bench_step :: "nat \<Rightarrow> bool \<Rightarrow> SharedState \<Rightarrow> SharedState \<Rightarrow> bool" for n bg where
  by_worker: "i < n \<Longrightarrow> worker_step n bg i c c' \<Longrightarrow> bench_step n bg c c'"
| by_main: "main_step n c c' \<Longrightarrow> bench_step n bg c c'"
| spurious: "a \<in> waiting c \<Longrightarrow> bench_step n bg c (c\<lparr>waiting := waiting c - {a}\<rparr>)"

inductive_cases worker_stepE: "worker_step n bg i c c'"
inductive_cases main_stepE: "main_step n c c'"
inductive_cases bench_stepE: "bench_step n bg c c'"

lemmas state_defs = worker_at_def main_at_def lock_def unlock_def wait_def signal_if_def

section \<open>The invariant\<close>

definition critical :: "wpc \<Rightarrow> bool" where
  "critical p \<longleftrightarrow> p \<in> {W_Enter, W_Check, W_Look, W_Done, W_Leave}"

definition counted_in :: "wpc \<Rightarrow> bool" where
  "counted_in p \<longleftrightarrow> p \<notin> {W_New, W_Begin, W_Enter}"

definition released :: "wpc \<Rightarrow> bool" where
  "released p \<longleftrightarrow> p \<in> {W_Run, W_Look, W_Stop, W_Done, W_Leave, W_End}"

definition counted_out :: "wpc \<Rightarrow> bool" where
  "counted_out p \<longleftrightarrow> p \<in> {W_Leave, W_End}"

definition number :: "(wpc \<Rightarrow> bool) \<Rightarrow> nat \<Rightarrow> (nat \<Rightarrow> wpc) \<Rightarrow> nat" where
  "number P n ps = card {i. i < n \<and> P (ps i)}"

lemma number_same [simp]: "P p = P (ps i) \<Longrightarrow> number P n (ps(i := p)) = number P n ps"
  by (auto simp: number_def intro: arg_cong [of _ _ card])

lemma number_more [simp]:
  assumes "i < n" and "\<not> P (ps i)" and "P p"
  shows "number P n (ps(i := p)) = Suc (number P n ps)"
proof -
  have "{j. j < n \<and> P ((ps(i := p)) j)} = insert i {j. j < n \<and> P (ps j)}"
    using assms by auto
  then show ?thesis
    using assms by (simp add: number_def)
qed

lemma number_le: "number P n ps \<le> n"
  using card_mono [of "{i. i < n}" "{i. i < n \<and> P (ps i)}"] by (auto simp: number_def)

lemma number_all: "n \<le> number P n ps \<longleftrightarrow> (\<forall>i<n. P (ps i))"
proof
  assume "n \<le> number P n ps"
  then have "{i. i < n \<and> P (ps i)} = {i. i < n}"
    by (intro card_subset_eq) (auto simp: number_def intro: le_antisym number_le [unfolded number_def])
  then show "\<forall>i<n. P (ps i)" by blast
next
  assume "\<forall>i<n. P (ps i)"
  then have "{i. i < n \<and> P (ps i)} = {i. i < n}" by auto
  then show "n \<le> number P n ps" by (simp add: number_def)
qed

lemma number_others:
  assumes "n \<le> number P n ps + 1" and "i < n" and "\<not> P (ps i)" and "j < n" and "j \<noteq> i"
  shows "P (ps j)"
proof (rule ccontr)
  assume "\<not> P (ps j)"
  then have "{k. k < n \<and> P (ps k)} \<subseteq> {k. k < n} - {i, j}"
    using assms(3) by auto
  then have "number P n ps \<le> card ({k. k < n} - {i, j})"
    unfolding number_def by (intro card_mono) auto
  also have "\<dots> = n - 2"
    using assms(2,4,5) by (simp add: card_Diff_subset)
  finally show False
    using assms(1,2,4,5) by linarith
qed

text \<open>Who has the mutex.\<close>

definition main_critical :: "mpc \<Rightarrow> bool" where
  "main_critical p \<longleftrightarrow> p \<in> {M_Init, M_Done}"

definition holder :: "agent option \<Rightarrow> (nat \<Rightarrow> wpc) \<Rightarrow> mpc \<Rightarrow> bool" where
  "holder m ps p \<longleftrightarrow> (\<forall>i. m = Some (Worker i) \<longleftrightarrow> critical (ps i)) \<and> (m = Some Main \<longleftrightarrow> main_critical p)"

lemma holder_keep: "holder m ps p \<Longrightarrow> critical q = critical (ps i) \<Longrightarrow> holder m (ps(i := q)) p"
  by (auto simp: holder_def)

lemma holder_acquire: "holder m ps p \<Longrightarrow> m = None \<Longrightarrow> critical q \<Longrightarrow> holder (Some (Worker i)) (ps(i := q)) p"
  by (auto simp: holder_def)

lemma holder_release: "holder m ps p \<Longrightarrow> critical (ps i) \<Longrightarrow> \<not> critical q \<Longrightarrow> holder None (ps(i := q)) p"
  unfolding holder_def by (metis agent.inject agent.distinct(1) fun_upd_apply option.distinct(1) option.inject)

lemma holder_main_keep: "holder m ps p \<Longrightarrow> main_critical q = main_critical p \<Longrightarrow> holder m ps q"
  by (simp add: holder_def)

lemma holder_main_acquire: "holder m ps p \<Longrightarrow> m = None \<Longrightarrow> main_critical q \<Longrightarrow> holder (Some Main) ps q"
  by (auto simp: holder_def)

lemma holder_main_release: "holder m ps p \<Longrightarrow> main_critical p \<Longrightarrow> \<not> main_critical q \<Longrightarrow> holder None ps q"
  unfolding holder_def by (metis agent.distinct(1) option.distinct(1) option.inject)

definition mutex_inv :: "SharedState \<Rightarrow> bool" where
  "mutex_inv c \<longleftrightarrow> holder (mu c) (wpcs c) (mpos c)"

definition count_inv :: "nat \<Rightarrow> SharedState \<Rightarrow> bool" where
  "count_inv n c \<longleftrightarrow> num_initialized c = number counted_in n (wpcs c) \<and> num_done c = number counted_out n (wpcs c)"

text \<open>How many workers there are already.\<close>

fun created :: "nat \<Rightarrow> mpc \<Rightarrow> nat" where
  "created n (M_Create k) = min k n"
| "created n _ = n"

definition create_inv :: "nat \<Rightarrow> SharedState \<Rightarrow> bool" where
  "create_inv n c \<longleftrightarrow> (\<forall>i. wpcs c i = W_New \<longleftrightarrow> created n (mpos c) \<le> i)"

definition start_inv :: "nat \<Rightarrow> SharedState \<Rightarrow> bool" where
  "start_inv n c \<longleftrightarrow>
     (start c \<longleftrightarrow> mpos c \<in> {M_Done, M_Done_Wait, M_Merge}) \<and> (start c \<longrightarrow> (\<forall>i<n. counted_in (wpcs c i))) \<and>
     (\<forall>i. released (wpcs c i) \<longrightarrow> start c) \<and> (mpos c = M_Merge \<longrightarrow> (\<forall>i<n. wpcs c i = W_End))"

definition wait_inv :: "nat \<Rightarrow> SharedState \<Rightarrow> bool" where
  "wait_inv n c \<longleftrightarrow>
     (Main \<in> waiting c \<longrightarrow> mpos c = M_Init_Wait \<and> num_initialized c < n \<or> mpos c = M_Done_Wait \<and> num_done c < n) \<and>
     (\<forall>i. Worker i \<in> waiting c \<longrightarrow> wpcs c i = W_Wait \<and> \<not> start c)"

definition writer_inv :: "nat \<Rightarrow> bool \<Rightarrow> SharedState \<Rightarrow> bool" where
  "writer_inv n bg c \<longleftrightarrow>
     (\<forall>i. wpcs c i = W_Look \<longrightarrow> bg \<and> i = 0) \<and>
     (bg \<and> wpcs c 0 \<in> {W_Stop, W_Done, W_Leave, W_End} \<longrightarrow> (\<forall>i<n. i \<noteq> 0 \<longrightarrow> counted_out (wpcs c i)))"

lemmas class_defs = critical_def counted_in_def released_def counted_out_def main_critical_def

lemma not_yet_created: "create_inv n c \<Longrightarrow> mpos c = M_Create k \<Longrightarrow> wpcs c k = W_New"
  by (simp add: create_inv_def)

lemma create_keep: "\<forall>i. (ps i = W_New) = (k \<le> i) \<Longrightarrow> ps j \<noteq> W_New \<Longrightarrow> p \<noteq> W_New \<Longrightarrow> ((ps(j := p)) i = W_New) = (k \<le> i)"
  by auto

lemma not_yet_running:
  assumes "start_inv n c" and "mpos c = M_Create k"
  shows "wpcs c i \<notin> {W_Run, W_Look, W_Stop, W_Done, W_Leave, W_End}"
  using assms by (auto simp: start_inv_def released_def)

lemma mutex_step:
  assumes "bench_step n bg c c'" and "mutex_inv c" and "create_inv n c"
  shows "mutex_inv c'"
proof -
  have "holder (mu c) ((wpcs c)(k := W_Begin)) (M_Create (Suc k))" if k: "mpos c = M_Create k" for k
  proof (rule holder_main_keep)
    show "holder (mu c) ((wpcs c)(k := W_Begin)) (mpos c)"
      using assms(2) not_yet_created [OF assms(3) k] by (intro holder_keep) (simp_all add: mutex_inv_def critical_def)
  qed (simp add: k main_critical_def)
  then show ?thesis
    using assms(1,2) unfolding mutex_inv_def
    by (elim bench_stepE worker_stepE main_stepE)
       (auto simp: state_defs class_defs intro: holder_keep holder_acquire holder_release holder_main_keep holder_main_acquire holder_main_release)
qed

text \<open>What a step of a worker does to positions: it moves forward, and past the barrier only after the start.\<close>

lemma worker_step_moves:
  assumes "worker_step n bg i c c'"
  shows "wpcs c' = (wpcs c)(i := wpcs c' i)" and "mpos c' = mpos c" and "start c' = start c"
    and "wpcs c i \<noteq> W_New" and "wpcs c i \<noteq> W_End" and "wpcs c' i \<noteq> W_New"
    and "counted_in (wpcs c i) \<Longrightarrow> counted_in (wpcs c' i)" and "released (wpcs c' i) \<Longrightarrow> released (wpcs c i) \<or> start c"
  using assms by (cases rule: worker_step.cases; simp add: state_defs class_defs)+

lemma create_step:
  assumes "bench_step n bg c c'" and "create_inv n c"
  shows "create_inv n c'"
  using assms(1)
proof cases
  case (by_worker i)
  note p = worker_step_moves [OF by_worker(2)]
  show ?thesis
    using create_keep [OF assms(2) [unfolded create_inv_def] p(4,6)] p(1,2) by (simp add: create_inv_def)
next
  case by_main
  have new: "wpcs c i = W_New \<longleftrightarrow> created n (mpos c) \<le> i" for i
    using assms(2) by (simp add: create_inv_def)
  show ?thesis
    using by_main by (cases rule: main_step.cases) (auto simp: state_defs create_inv_def new)
next
  case spurious
  then show ?thesis
    using assms(2) by (simp add: create_inv_def)
qed

lemma count_step:
  assumes "bench_step n bg c c'" and "count_inv n c" and "create_inv n c"
  shows "count_inv n c'"
  using assms(1,2) not_yet_created [OF assms(3)] unfolding count_inv_def
  by (elim bench_stepE worker_stepE main_stepE) (auto simp: state_defs class_defs)

lemma start_step:
  assumes "bench_step n bg c c'" and "start_inv n c" and "count_inv n c" and "mutex_inv c"
  shows "start_inv n c'"
  using assms(1)
proof cases
  case (by_worker i)
  note p = worker_step_moves [OF by_worker(2)]
  have "mpos c \<noteq> M_Merge"
    using assms(2) p(5) by_worker(1) by (auto simp: start_inv_def)
  moreover have "counted_in (wpcs c' j)" if "start c" "j < n" for j
    using assms(2) that p(1,7) by (metis fun_upd_apply start_inv_def)
  moreover have "start c" if "released (wpcs c' j)" for j
    using assms(2) that p(1,8) by (metis fun_upd_apply start_inv_def)
  ultimately show ?thesis
    using assms(2) p(2,3) by (simp add: start_inv_def)
next
  case by_main
  have "\<forall>i<n. counted_in (wpcs c i)" if "n \<le> num_initialized c"
    using that assms(3) by (simp add: count_inv_def number_all)
  moreover have "\<forall>i<n. wpcs c i = W_End" if "n \<le> num_done c" "mpos c = M_Done"
  proof -
    have "\<forall>i<n. counted_out (wpcs c i)"
      using that assms(3) by (simp add: count_inv_def number_all)
    moreover have "\<not> critical (wpcs c i)" for i
      using that(2) assms(4) by (auto simp: mutex_inv_def holder_def main_critical_def)
    ultimately show ?thesis
      by (auto simp: class_defs)
  qed
  moreover have "\<not> released W_Begin"
    by (simp add: released_def)
  ultimately show ?thesis
    using by_main assms(2) unfolding start_inv_def
    by (elim main_stepE) (auto simp: state_defs)
next
  case spurious
  then show ?thesis
    using assms(2) by (auto simp: start_inv_def)
qed

lemma wait_step:
  assumes "bench_step n bg c c'" and "wait_inv n c" and "start_inv n c" and "create_inv n c"
  shows "wait_inv n c'"
proof -
  have "start c \<longleftrightarrow> mpos c \<in> {M_Done, M_Done_Wait, M_Merge}"
    using assms(3) by (simp add: start_inv_def)
  then show ?thesis
    using assms(1,2) not_yet_created [OF assms(4)] unfolding wait_inv_def
    by (elim bench_stepE worker_stepE main_stepE) (auto simp: state_defs)
qed

lemma writer_step:
  assumes "bench_step n bg c c'" and "writer_inv n bg c" and "start_inv n c" and "count_inv n c"
  shows "writer_inv n bg c'"
proof -
  have "\<forall>i<n. i \<noteq> 0 \<longrightarrow> counted_out (wpcs c i)" if "wpcs c 0 = W_Look" "num_initialized c \<le> num_done c + 1" "0 < n"
  proof -
    have "start c"
      using that(1) assms(3) by (auto simp: start_inv_def released_def)
    then have "n \<le> num_initialized c"
      using assms(3,4) by (simp add: start_inv_def count_inv_def number_all)
    then have "n \<le> number counted_out n (wpcs c) + 1"
      using that(2) assms(4) by (simp add: count_inv_def)
    then show ?thesis
      using number_others [of n counted_out "wpcs c" 0] that(1,3) by (simp add: counted_out_def)
  qed
  then show ?thesis
    using assms(1,2) not_yet_running [OF assms(3)] unfolding writer_inv_def
    by (elim bench_stepE worker_stepE main_stepE) (auto simp: state_defs class_defs)
qed

definition barrier_inv :: "nat \<Rightarrow> bool \<Rightarrow> SharedState \<Rightarrow> bool" where
  "barrier_inv n bg c \<longleftrightarrow>
     mutex_inv c \<and> create_inv n c \<and> count_inv n c \<and> start_inv n c \<and> wait_inv n c \<and> writer_inv n bg c"

interpretation barrier: inductive_invariant shared_start "bench_step n bg" "barrier_inv n bg"
proof
  show "shared_start c \<Longrightarrow> barrier_inv n bg c" for c
    by (auto simp: shared_start_def barrier_inv_def mutex_inv_def holder_def create_inv_def count_inv_def number_def
        start_inv_def wait_inv_def writer_inv_def class_defs)
  show "barrier_inv n bg c \<Longrightarrow> bench_step n bg c c' \<Longrightarrow> barrier_inv n bg c'" for c c'
    unfolding barrier_inv_def
    by (intro conjI; elim conjE) (rule mutex_step create_step count_step start_step wait_step writer_step; assumption)+
qed

section \<open>What the barrier guarantees\<close>


section \<open>Every run can be completed\<close>

text \<open>The distance to the end: first the stages to go through, then the wake-ups and looks in between.\<close>

fun worker_stage :: "wpc \<Rightarrow> nat" where
  "worker_stage W_New = 9"
| "worker_stage W_Begin = 8"
| "worker_stage W_Enter = 7"
| "worker_stage W_Check = 6"
| "worker_stage W_Wait = 6"
| "worker_stage W_Run = 5"
| "worker_stage W_Look = 5"
| "worker_stage W_Stop = 4"
| "worker_stage W_Done = 3"
| "worker_stage W_Leave = 2"
| "worker_stage W_End = 0"

fun main_stage :: "nat \<Rightarrow> mpc \<Rightarrow> nat" where
  "main_stage n (M_Create k) = 3 + (n - k)"
| "main_stage n M_Init = 2"
| "main_stage n M_Init_Wait = 2"
| "main_stage n M_Done = 1"
| "main_stage n M_Done_Wait = 1"
| "main_stage n M_Merge = 0"

definition others_done :: "SharedState \<Rightarrow> bool" where
  "others_done c \<longleftrightarrow> num_initialized c \<le> num_done c + 1"

definition worker_turns :: "SharedState \<Rightarrow> nat \<Rightarrow> nat" where
  "worker_turns c i =
     (case wpcs c i of
        W_Wait \<Rightarrow> if Worker i \<in> waiting c then 0 else 2
      | W_Check \<Rightarrow> 1 | W_Look \<Rightarrow> 1
      | W_Run \<Rightarrow> if others_done c then 2 else 0
      | _ \<Rightarrow> 0)"

definition main_turns :: "SharedState \<Rightarrow> nat" where
  "main_turns c =
     (if mpos c \<in> {M_Init_Wait, M_Done_Wait} then if Main \<in> waiting c then 0 else 2
      else if mpos c \<in> {M_Init, M_Done} then 1 else 0)"

definition stages :: "nat \<Rightarrow> SharedState \<Rightarrow> nat" where
  "stages n c = (\<Sum>i<n. worker_stage (wpcs c i)) + main_stage n (mpos c)"

definition turns :: "nat \<Rightarrow> SharedState \<Rightarrow> nat" where
  "turns n c = (\<Sum>i<n. worker_turns c i) + main_turns c"

definition closer :: "nat \<Rightarrow> SharedState \<Rightarrow> SharedState \<Rightarrow> bool" where
  "closer n c' c \<longleftrightarrow> stages n c' < stages n c \<or> stages n c' = stages n c \<and> turns n c' < turns n c"

lemma sum_less:
  fixes f g :: "nat \<Rightarrow> nat"
  assumes "\<forall>j<n. f j \<le> g j" and "i < n" and "f i < g i"
  shows "(\<Sum>j<n. f j) < (\<Sum>j<n. g j)"
  using assms by (intro sum_strict_mono_ex1) auto

lemma worker_closer:
  assumes "i < n" and "wpcs c' = (wpcs c)(i := p)" and "mpos c' = mpos c" and "worker_stage p < worker_stage (wpcs c i)"
  shows "closer n c' c"
proof -
  have "(\<Sum>j<n. worker_stage (wpcs c' j)) < (\<Sum>j<n. worker_stage (wpcs c j))"
    using assms by (intro sum_less [of _ _ _ i]) auto
  then show ?thesis
    using assms(3) by (simp add: closer_def stages_def)
qed

lemma worker_turns_closer:
  assumes "i < n" and "wpcs c' = (wpcs c)(i := p)" and "mpos c' = mpos c" and "worker_stage p = worker_stage (wpcs c i)"
    and "worker_turns c' i < worker_turns c i" and "\<forall>j. j \<noteq> i \<longrightarrow> worker_turns c' j = worker_turns c j"
    and "main_turns c' = main_turns c"
  shows "closer n c' c"
proof -
  have "(\<Sum>j<n. worker_turns c' j) < (\<Sum>j<n. worker_turns c j)"
    using assms(1,5,6) by (intro sum_less [of _ _ _ i]) (metis le_eq_less_or_eq)+
  moreover have "(\<Sum>j<n. worker_stage (wpcs c' j)) = (\<Sum>j<n. worker_stage (wpcs c j))"
    using assms(2,4) by (intro sum.cong) auto
  ultimately show ?thesis
    using assms(3,7) by (simp add: closer_def stages_def turns_def)
qed

lemma main_closer:
  assumes "wpcs c' = wpcs c" and "main_stage n (mpos c') < main_stage n (mpos c)"
  shows "closer n c' c"
  using assms by (simp add: closer_def stages_def)

lemma main_turns_closer:
  assumes "wpcs c' = wpcs c" and "main_stage n (mpos c') = main_stage n (mpos c)"
    and "\<forall>j. worker_turns c' j = worker_turns c j" and "main_turns c' < main_turns c"
  shows "closer n c' c"
  using assms by (simp add: closer_def stages_def turns_def)

lemmas turn_defs = worker_turns_def main_turns_def others_done_def

text \<open>Whoever has the mutex gets closer by its next step.\<close>

lemma holder_progress:
  assumes "i < n" and "critical (wpcs c i)" and "writer_inv n bg c"
  shows "\<exists>c'. bench_step n bg c c' \<and> closer n c' c"
proof -
  have b: "wpcs c i = W_Look \<Longrightarrow> bg \<and> i = 0"
    using assms(3) by (simp add: writer_inv_def)
  consider "wpcs c i = W_Enter" | "wpcs c i = W_Check" "start c" | "wpcs c i = W_Check" "\<not> start c"
    | "wpcs c i = W_Look" "others_done c" | "wpcs c i = W_Look" "\<not> others_done c" | "wpcs c i = W_Done" | "wpcs c i = W_Leave"
    using assms(2) by (auto simp: critical_def)
  then show ?thesis
  proof cases
    case 1
    from by_worker [OF assms(1) enter, OF 1] worker_closer [OF assms(1)] 1 show ?thesis
      by (fastforce simp: state_defs)
  next
    case 2
    from by_worker [OF assms(1) check_go, OF 2] worker_closer [OF assms(1)] 2 show ?thesis
      by (fastforce simp: state_defs)
  next
    case 3
    have "closer n (worker_at i W_Wait (wait (Worker i) c)) c"
      using 3 by (intro worker_turns_closer [OF assms(1), where p = W_Wait]) (simp_all add: state_defs turn_defs split: wpc.splits)
    with by_worker [OF assms(1) check_wait, OF 3] show ?thesis by blast
  next
    case 4
    then have "num_initialized c \<le> num_done c + 1"
      by (simp add: others_done_def)
    from by_worker [OF assms(1) look_end, OF 4(1) this] worker_closer [OF assms(1)] 4(1) show ?thesis
      by (fastforce simp: state_defs)
  next
    case 5
    then have d: "num_done c + 1 < num_initialized c"
      by (simp add: others_done_def)
    have "closer n (worker_at i W_Run (unlock c)) c"
      using 5 by (intro worker_turns_closer [OF assms(1), where p = W_Run]) (simp_all add: state_defs turn_defs split: wpc.splits)
    with by_worker [OF assms(1) look_again, OF 5(1) d] show ?thesis by blast
  next
    case 6
    from by_worker [OF assms(1) count_done, OF 6] worker_closer [OF assms(1)] 6 show ?thesis
      by (fastforce simp: state_defs)
  next
    case 7
    from by_worker [OF assms(1) leave, OF 7] worker_closer [OF assms(1)] 7 show ?thesis
      by (fastforce simp: state_defs)
  qed
qed

lemma main_holder_progress:
  assumes "main_critical (mpos c)"
  shows "\<exists>c'. bench_step n bg c c' \<and> closer n c' c"
proof -
  consider "mpos c = M_Init" "num_initialized c < n" | "mpos c = M_Init" "n \<le> num_initialized c"
    | "mpos c = M_Done" "num_done c < n" | "mpos c = M_Done" "n \<le> num_done c"
    using assms not_le by (auto simp: main_critical_def)
  then show ?thesis
  proof cases
    case 1
    have "closer n (main_at M_Init_Wait (wait Main c)) c"
      using 1 by (intro main_turns_closer) (simp_all add: state_defs turn_defs)
    with by_main [OF init_wait, OF 1] show ?thesis by blast
  next
    case 2
    have "closer n (main_at M_Done (signal_if True (c\<lparr>start := True\<rparr>))) c"
      using 2 by (intro main_closer) (simp_all add: state_defs)
    with by_main [OF go, OF 2] show ?thesis by blast
  next
    case 3
    have "closer n (main_at M_Done_Wait (wait Main c)) c"
      using 3 by (intro main_turns_closer) (simp_all add: state_defs turn_defs)
    with by_main [OF done_wait, OF 3] show ?thesis by blast
  next
    case 4
    have "closer n (main_at M_Merge (unlock c)) c"
      using 4 by (intro main_closer) (simp_all add: state_defs)
    with by_main [OF merge, OF 4] show ?thesis by blast
  qed
qed

text \<open>While the mutex is free, a thread that is not asleep gets closer.\<close>

lemma awake_worker_progress:
  assumes "i < n" and "mu c = None" and "wpcs c i \<in> {W_Begin, W_Stop, W_Run, W_Wait}"
    and "wpcs c i = W_Wait \<longrightarrow> Worker i \<notin> waiting c" and "wpcs c i = W_Run \<and> bg \<and> i = 0 \<longrightarrow> others_done c"
  shows "\<exists>c'. bench_step n bg c c' \<and> closer n c' c"
proof -
  consider "wpcs c i = W_Begin" | "wpcs c i = W_Stop" | "wpcs c i = W_Wait" "Worker i \<notin> waiting c"
    | "wpcs c i = W_Run" "\<not> (bg \<and> i = 0)" | "wpcs c i = W_Run" "bg \<and> i = 0" "others_done c"
    using assms(3-5) by blast
  then show ?thesis
  proof cases
    case 1
    from by_worker [OF assms(1) begin_lock, OF 1 assms(2)] worker_closer [OF assms(1)] 1 show ?thesis
      by (fastforce simp: state_defs)
  next
    case 2
    from by_worker [OF assms(1) stop_lock, OF 2 assms(2)] worker_closer [OF assms(1)] 2 show ?thesis
      by (fastforce simp: state_defs)
  next
    case 3
    have "closer n (worker_at i W_Check (lock (Worker i) c)) c"
      using 3 by (intro worker_turns_closer [OF assms(1), where p = W_Check]) (simp_all add: state_defs turn_defs)
    with by_worker [OF assms(1) wake, OF 3 assms(2)] show ?thesis by blast
  next
    case 4
    from by_worker [OF assms(1) run, OF 4] worker_closer [OF assms(1)] 4 show ?thesis
      by (fastforce simp: state_defs)
  next
    case 5
    have "closer n (worker_at i W_Look (lock (Worker i) c)) c"
      using 5 by (intro worker_turns_closer [OF assms(1), where p = W_Look]) (simp_all add: state_defs turn_defs)
    with by_worker [OF assms(1) look, OF 5(1,2) assms(2)] show ?thesis by blast
  qed
qed

lemma awake_main_progress:
  assumes "mu c = None" and "\<not> main_critical (mpos c)" and "mpos c \<noteq> M_Merge" and "Main \<notin> waiting c" and "create_inv n c"
  shows "\<exists>c'. bench_step n bg c c' \<and> closer n c' c"
proof -
  consider k where "mpos c = M_Create k" "k < n" | k where "mpos c = M_Create k" "n \<le> k" | "mpos c = M_Init_Wait" | "mpos c = M_Done_Wait"
    using assms(2,3) not_le by (cases "mpos c") (auto simp: main_critical_def)
  then show ?thesis
  proof cases
    case (1 k)
    let ?c = "main_at (M_Create (Suc k)) (worker_at k W_Begin c)"
    have "wpcs c k = W_New"
      using 1(1) assms(5) by (simp add: not_yet_created)
    then have "(\<Sum>j<n. worker_stage (wpcs ?c j)) \<le> (\<Sum>j<n. worker_stage (wpcs c j))"
      by (intro sum_mono) (simp add: state_defs)
    moreover have "main_stage n (mpos ?c) < main_stage n (mpos c)"
      using 1 by (simp add: state_defs)
    ultimately have "closer n ?c c"
      unfolding closer_def stages_def by linarith
    with by_main [OF create, OF 1] show ?thesis by blast
  next
    case (2 k)
    have "closer n (main_at M_Init (lock Main c)) c"
      using 2 by (intro main_closer) (simp_all add: state_defs)
    with by_main [OF main_lock, OF 2 assms(1)] show ?thesis by blast
  next
    case 3
    have "closer n (main_at M_Init (lock Main c)) c"
      using 3 assms(4) by (intro main_turns_closer) (simp_all add: state_defs turn_defs)
    with by_main [OF init_wake, OF 3 assms(4,1)] show ?thesis by blast
  next
    case 4
    have "closer n (main_at M_Done (lock Main c)) c"
      using 4 assms(4) by (intro main_turns_closer) (simp_all add: state_defs turn_defs)
    with by_main [OF done_wake, OF 4 assms(4,1)] show ?thesis by blast
  qed
qed

lemma number_but_one:
  assumes "\<forall>j<n. j \<noteq> i \<longrightarrow> P (ps j)"
  shows "n \<le> number P n ps + 1"
proof -
  have "card ({j. j < n} - {i}) \<le> number P n ps"
    unfolding number_def using assms by (intro card_mono) auto
  moreover have "n \<le> card ({j. j < n} - {i}) + 1"
    using card_Diff_singleton_if [of "{j. j < n}" i] by auto
  ultimately show ?thesis by linarith
qed

text \<open>There is always somebody awake: no wake-up is lost.\<close>

lemma somebody_awake:
  assumes "barrier_inv n bg c" and "mu c = None" and "Main \<in> waiting c"
  shows "\<exists>i<n. wpcs c i \<in> {W_Begin, W_Stop, W_Run, W_Wait} \<and> (wpcs c i = W_Wait \<longrightarrow> Worker i \<notin> waiting c) \<and>
    (wpcs c i = W_Run \<and> bg \<and> i = 0 \<longrightarrow> others_done c)"
proof -
  have inv: "mutex_inv c" "create_inv n c" "count_inv n c" "start_inv n c" "wait_inv n c"
    using assms(1) by (simp_all add: barrier_inv_def)
  have free: "\<not> critical (wpcs c i)" for i
    using inv(1) assms(2) by (simp add: mutex_inv_def holder_def)
  consider "mpos c = M_Init_Wait" "num_initialized c < n" | "mpos c = M_Done_Wait" "num_done c < n"
    using inv(5) assms(3) by (auto simp: wait_inv_def)
  then show ?thesis
  proof cases
    case 1
    then obtain i where i: "i < n" "\<not> counted_in (wpcs c i)"
      using inv(3) number_all [of n counted_in "wpcs c"] by (auto simp: count_inv_def)
    moreover have "wpcs c i \<noteq> W_New"
      using inv(2) 1(1) i(1) by (simp add: create_inv_def)
    ultimately show ?thesis
      using free [of i] by (intro exI [of _ i]) (auto simp: class_defs)
  next
    case 2
    have s: "start c"
      using inv(4) 2(1) by (simp add: start_inv_def)
    have sleep: "Worker i \<notin> waiting c" for i
      using inv(5) s by (auto simp: wait_inv_def)
    have p: "wpcs c i \<in> {W_Stop, W_Run, W_Wait, W_End}" if "i < n" for i
      using that inv(4) s free [of i] by (cases "wpcs c i") (auto simp: start_inv_def class_defs)
    obtain i where i: "i < n" "\<not> counted_out (wpcs c i)"
      using inv(3) 2(2) number_all [of n counted_out "wpcs c"] by (auto simp: count_inv_def)
    show ?thesis
    proof (cases "\<exists>j<n. j \<noteq> 0 \<and> \<not> counted_out (wpcs c j)")
      case True
      then show ?thesis
        using p sleep by (fastforce simp: counted_out_def)
    next
      case False
      then have "i = 0"
        using i by blast
      moreover have "n \<le> num_done c + 1"
        using False inv(3) number_but_one [of n 0 counted_out "wpcs c"] by (auto simp: count_inv_def)
      moreover have "num_initialized c \<le> n"
        using inv(3) number_le by (simp add: count_inv_def)
      ultimately show ?thesis
        using i p [OF i(1)] sleep by (intro exI [of _ i]) (auto simp: others_done_def counted_out_def)
    qed
  qed
qed

lemma progress:
  assumes "barrier_inv n bg c" and "mpos c \<noteq> M_Merge"
  shows "\<exists>c'. bench_step n bg c c' \<and> closer n c' c"
proof -
  have inv: "mutex_inv c" "create_inv n c" "writer_inv n bg c"
    using assms(1) by (simp_all add: barrier_inv_def)
  consider i where "mu c = Some (Worker i)" | "mu c = Some Main" | "mu c = None"
    by (metis agent.exhaust option.exhaust)
  then show ?thesis
  proof cases
    case (1 i)
    then have cr: "critical (wpcs c i)"
      using inv(1) by (auto simp: mutex_inv_def holder_def)
    then have "wpcs c i \<noteq> W_New"
      by (auto simp: critical_def)
    moreover have "created n (mpos c) \<le> n"
      by (cases "mpos c") simp_all
    ultimately have "i < n"
      using inv(2) unfolding create_inv_def by (metis le_trans not_le)
    then show ?thesis
      using holder_progress cr inv(3) by blast
  next
    case 2
    then show ?thesis
      using inv(1) main_holder_progress by (simp add: mutex_inv_def holder_def)
  next
    case 3
    show ?thesis
    proof (cases "Main \<in> waiting c")
      case True
      then show ?thesis
        using somebody_awake [OF assms(1) 3] awake_worker_progress [OF _ 3] by blast
    next
      case False
      have "\<not> main_critical (mpos c)"
        using inv(1) 3 by (simp add: mutex_inv_def holder_def)
      then show ?thesis
        using awake_main_progress [OF 3 _ assms(2) False inv(2)] by blast
    qed
  qed
qed

lemma completes:
  assumes "barrier_inv n bg c"
  shows "\<exists>c'. (bench_step n bg)\<^sup>*\<^sup>* c c' \<and> mpos c' = M_Merge"
  using assms
proof (induction c rule: wf_induct_rule [OF wf_inv_image [OF wf_lex_prod [OF wf_less_than wf_less_than]], of "\<lambda>c. (stages n c, turns n c)"])
  case (1 c)
  show ?case
  proof (cases "mpos c = M_Merge")
    case False
    obtain c1 where c1: "bench_step n bg c c1" "closer n c1 c"
      using progress [OF 1(2) False] by blast
    then have "(c1, c) \<in> inv_image (less_than <*lex*> less_than) (\<lambda>c. (stages n c, turns n c))"
      by (auto simp: closer_def)
    moreover have "barrier_inv n bg c1"
      using 1(2) c1(1) by (rule barrier.inv_step)
    ultimately show ?thesis
      using 1(1) c1(1) by (meson converse_rtranclp_into_rtranclp)
  qed blast
qed

text \<open>
  Claim C16 (liveness).  The barrier neither deadlocks nor loses a wake-up: from every reachable state, whatever
  the threads did so far and whoever sleeps, the run can be completed, and every thread has ended by then.  In
  particular the background writer, once the others are done, sees it.
\<close>

theorem RunBenchmark_completes:
  assumes "reach shared_start (bench_step n bg) c"
  shows "\<exists>c'. (bench_step n bg)\<^sup>*\<^sup>* c c' \<and> mpos c' = M_Merge \<and> (\<forall>i<n. wpcs c' i = W_End)"
proof -
  have inv: "barrier_inv n bg c"
    using assms by (rule barrier.reach_inv)
  then obtain c' where "(bench_step n bg)\<^sup>*\<^sup>* c c'" "mpos c' = M_Merge"
    using completes by blast
  moreover from this have "start_inv n c'"
    using barrier.steps_inv inv by (auto simp: barrier_inv_def)
  ultimately show ?thesis
    by (auto simp: start_inv_def)
qed

text \<open>Two threads, one of them the background writer.\<close>

definition first_state :: SharedState where
  "first_state = \<lparr>mu = None, waiting = {}, num_initialized = 0, num_done = 0, start = False, wpcs = \<lambda>_. W_New, mpos = M_Create 0\<rparr>"

lemma first_reachable: "reach shared_start (bench_step 2 True) first_state"
  by (rule reach_init) (simp add: shared_start_def first_state_def)

theorem RunBenchmark_completes_witness:
  "\<exists>c'. (bench_step 2 True)\<^sup>*\<^sup>* first_state c' \<and> mpos c' = M_Merge \<and> wpcs c' 1 = W_End"
proof -
  obtain c' where "(bench_step 2 True)\<^sup>*\<^sup>* first_state c'" "mpos c' = M_Merge" "\<forall>i<2. wpcs c' i = W_End"
    using RunBenchmark_completes [OF first_reachable] by blast
  then show ?thesis
    by (intro exI [of _ c']) simp
qed

lemma reach_steps:
  assumes "step\<^sup>*\<^sup>* s t" and "reach init step s"
  shows "reach init step t"
  using assms by (induction rule: rtranclp_induct) (auto intro: reach_step)


end
