(* ===== verification/Bench_Sequential.thy ===== *)
theory Bench_Sequential
  imports Bench_Update
begin

text \<open>
  The other read benchmarks of \<open>db_bench_tool.cc\<close>: \<open>ReadSequential\<close>, the only one that looks into the databases of
  \<open>DB_MASTER\<close> directly, and \<open>ReadReverse\<close>, \<open>ReadToRowCache\<close>, \<open>ReadRandomFast\<close> and \<open>MultiReadRandom\<close> over the
  benchmark's own database.
\<close>

section \<open>Libraries and configuration\<close>

text \<open>
  RocksDB's iterators at the first and at the last key, reads from a column family, and the two forms of
  \<open>MultiGet\<close>: the one returns a vector, the other fills an array with one result per key.
\<close>

record ('g, 'h, 'm, 'c, 'q, 'w, 'i) slib = "('g, 'h, 'm, 'c, 'q, 'w, 'i) ulib" +
  l_first :: "'i \<Rightarrow> 'i"
  l_last :: "'i \<Rightarrow> 'i"
  l_get_cf :: "'h option option \<Rightarrow> bytes \<Rightarrow> 'm \<Rightarrow> Status \<times> bytes"
  l_multiget :: "u64 option \<Rightarrow> bytes list \<Rightarrow> 'm \<Rightarrow> (Status \<times> bytes) list"
  l_multiget_cf :: "u64 option \<Rightarrow> bytes \<Rightarrow> 'm \<Rightarrow> Status \<times> bytes"

record multi_cfg = read_cfg +
  rc_batched :: bool

record ('g, 'h, 'm, 'c, 'q, 'w) xstate = "('g, 'h, 'm, 'c, 'q, 'w) bench_thread" +
  xs_keys :: "region list"
  xs_read :: int
  xs_found :: int
  xs_nonexist :: int
  xs_bytes :: int

section \<open>Iterating over a database\<close>

fun iter_reads ::
  "('m, 'i) rocks_iter \<Rightarrow> ('i \<Rightarrow> 'i) \<Rightarrow> ('g, 'h, 'm, 'c, 'q, 'w, 'y) wlib_scheme \<Rightarrow> stats_flags \<Rightarrow> 'm \<Rightarrow> nat \<Rightarrow> 'i \<Rightarrow> int \<Rightarrow>
   ('g, 'h, 'm, 'c, 'q, 'w) bench_thread \<Rightarrow> (int \<times> ('g, 'h, 'm, 'c, 'q, 'w) bench_thread) outcome" where
  "iter_reads it adv L F m 0 iter bytes T = Inr (bytes, T)"
| "iter_reads it adv L F m (Suc n) iter bytes T =
     (if it_valid it iter
      then bindO (finished L F (Some m) 1 kRead T) (\<lambda>T.
             iter_reads it adv L F m n (adv iter) (bytes + int (length (it_key it iter)) + int (length (it_value it iter))) T)
      else Inr (bytes, T))"

definition ReadSequential_db ::
  "('g, 'h, 'm, 'c, 'q, 'w, 'i) slib \<Rightarrow> read_cfg \<Rightarrow> 'm \<Rightarrow> ('g, 'h, 'm, 'c, 'q, 'w) bench_thread \<Rightarrow>
   ('g, 'h, 'm, 'c, 'q, 'w) bench_thread outcome" where
  "ReadSequential_db L C m T =
     bindO (read_timestamp (l_random L) (rc_timestamp_size C) (rc_latest C) T) (\<lambda>T.
       let it = l_iter L (None, None)
       in bindO (iter_reads it (it_next it) L (rc_stats C) m (nat (rc_reads C)) (l_first L (it_new it m)) 0 T) (\<lambda>(bytes, T).
            Inr (T\<lparr>th_stats := AddBytes bytes (th_stats T)\<rparr>)))"

definition ReadReverse_db ::
  "('g, 'h, 'm, 'c, 'q, 'w, 'i) slib \<Rightarrow> read_cfg \<Rightarrow> 'm \<Rightarrow> ('g, 'h, 'm, 'c, 'q, 'w) bench_thread \<Rightarrow>
   ('g, 'h, 'm, 'c, 'q, 'w) bench_thread outcome" where
  "ReadReverse_db L C m T =
     (let it = l_iter L (None, None)
      in bindO (iter_reads it (it_prev it) L (rc_stats C) m (nat (rc_reads C)) (l_last L (it_new it m)) 0 T) (\<lambda>(bytes, T).
           Inr (T\<lparr>th_stats := AddBytes bytes (th_stats T)\<rparr>)))"

text \<open>
  The pointers of \<open>DB_MASTER\<close>: \<open>Open\<close> sets element 0 of the array, the constructor none.  Using a null pointer faults.
\<close>

definition GetNthDB :: "nat \<Rightarrow> ('w, 'm) master \<Rightarrow> 'm option outcome" where
  "GetNthDB i M = (if i = 0 then Inr (dbptr M) else Inl Uninit_Read)"

fun each_db ::
  "('m \<Rightarrow> 't \<Rightarrow> 't outcome) \<Rightarrow> 'm option outcome list \<Rightarrow> 't \<Rightarrow> 't outcome" where
  "each_db f [] T = Inr T"
| "each_db f (d # ds) T = bindO d (\<lambda>p. bindO (deref p) (\<lambda>m. bindO (f m T) (each_db f ds)))"

definition ReadSequential ::
  "('g, 'h, 'm, 'c, 'q, 'w, 'i) slib \<Rightarrow> read_cfg \<Rightarrow> ('g, 'h, 'm, 'c, 'q, 'w) bench_thread \<Rightarrow>
   ('g, 'h, 'm, 'c, 'q, 'w) bench_thread outcome" where
  "ReadSequential L C T =
     each_db (ReadSequential_db L C)
       (if db (bdb (th_dbs T)) \<noteq> None
        then map (\<lambda>i. GetNthDB i (th_master T)) [0..<nat (num_instances (th_master T))]
        else map (\<lambda>d. Inr (db d)) (multi_dbs (th_dbs T))) T"

definition ReadReverse ::
  "('g, 'h, 'm, 'c, 'q, 'w, 'i) slib \<Rightarrow> read_cfg \<Rightarrow> ('g, 'h, 'm, 'c, 'q, 'w) bench_thread \<Rightarrow>
   ('g, 'h, 'm, 'c, 'q, 'w) bench_thread outcome" where
  "ReadReverse L C T =
     each_db (ReadReverse_db L C)
       (if db (bdb (th_dbs T)) \<noteq> None then [Inr (db (bdb (th_dbs T)))]
        else map (\<lambda>d. Inr (db d)) (multi_dbs (th_dbs T))) T"

section \<open>Reading every key into the row cache\<close>

text \<open>One key: the number is increased before it selects the column family.\<close>

definition row_turn ::
  "('g, 'h, 'm, 'c, 'q, 'w, 'i) slib \<Rightarrow> read_cfg \<Rightarrow> int \<Rightarrow> ('g, 'h, 'm, 'c, 'q, 'w) xstate \<Rightarrow>
   ('g, 'h, 'm, 'c, 'q, 'w) xstate outcome" where
  "row_turn L C key_rand T =
     bindO (select_db (l_random L) T) (\<lambda>(i, T).
     bindO (at_index (xs_keys T) 0) (\<lambda>buf.
     bindO (GenerateKeyFromInt (rc_keys C) (of_int key_rand) (rc_num C) buf) (\<lambda>(key, buf).
       let T = T\<lparr>xs_keys := [buf], xs_read := xs_read T + 1\<rparr>;
           d = selected (th_dbs T) i
       in bindO (deref (db d)) (\<lambda>m.
          bindO (if 1 < rc_num_cf C then bindO (GetCfh (key_rand + 1) d) (\<lambda>h. Inr (Some h)) else Inr None) (\<lambda>h.
            let (s, v) = l_get_cf L h key m
            in bindO (if s = OK
                      then Inr (T\<lparr>xs_found := xs_found T + 1, xs_bytes := xs_bytes T + int (length key) + int (length v)\<rparr>)
                      else if s = NotFound then Inr T else Inl Process_Abort) (\<lambda>T.
                 finished L (rc_stats C) (db d) 1 kRead T))))))"

fun row_loop ::
  "('g, 'h, 'm, 'c, 'q, 'w, 'i) slib \<Rightarrow> read_cfg \<Rightarrow> nat \<Rightarrow> int \<Rightarrow> ('g, 'h, 'm, 'c, 'q, 'w) xstate \<Rightarrow>
   ('g, 'h, 'm, 'c, 'q, 'w) xstate outcome" where
  "row_loop L C 0 key_rand T = Inr T"
| "row_loop L C (Suc n) key_rand T = bindO (row_turn L C key_rand T) (row_loop L C n (key_rand + 1))"

definition ReadToRowCache ::
  "('g, 'h, 'm, 'c, 'q, 'w, 'i) slib \<Rightarrow> read_cfg \<Rightarrow> ('g, 'h, 'm, 'c, 'q, 'w) bench_thread \<Rightarrow>
   ('g, 'h, 'm, 'c, 'q, 'w) xstate outcome" where
  "ReadToRowCache L C T =
     bindO (row_loop L C (nat (rc_num C)) 0 (bench_thread.extend T (xstate.fields [AllocateKey (rc_keys C)] 0 0 0 0))) (\<lambda>T.
       Inr (T\<lparr>th_stats := AddMessage (found_message (xs_found T) (xs_read T)) (AddBytes (xs_bytes T) (th_stats T))\<rparr>))"

section \<open>Random reads in hundreds\<close>

text \<open>The least power of two that is not below \<open>num\<close>; a shift that leaves 64 bits overflows.\<close>

function pot_from :: "int \<Rightarrow> int \<Rightarrow> int outcome" where
  "pot_from num pot =
     (if pot < num then if pot \<le> 0 then Inl Out_Of_Fuel else bindO (i64 (2 * pot)) (pot_from num) else Inr pot)"
  by pat_completeness auto
termination
  by (relation "measure (\<lambda>(num, pot). nat (num - pot))") (auto simp: bindO_def i64_def split: if_splits)

declare pot_from.simps [simp del]

definition fast_get ::
  "('g, 'h, 'm, 'c, 'q, 'w, 'i) slib \<Rightarrow> read_cfg \<Rightarrow> 'm \<Rightarrow> bytes \<Rightarrow> ('g, 'h, 'm, 'c, 'q, 'w) xstate \<Rightarrow>
   (Status \<times> ('g, 'h, 'm, 'c, 'q, 'w) xstate) outcome" where
  "fast_get L C m key T =
     (if 0 < rc_timestamp_size C
      then bindO (GetTimestampForRead (rc_latest C) (r64_next (l_random L)) (th_rand T) (th_timestamp T)) (\<lambda>(ts, rand, clock).
             Inr (fst (l_get_ts L ts key m), T\<lparr>th_rand := rand, th_timestamp := clock\<rparr>))
      else Inr (fst (rdb_get (l_rdb L) key m), T))"

definition fast_read ::
  "('g, 'h, 'm, 'c, 'q, 'w, 'i) slib \<Rightarrow> read_cfg \<Rightarrow> int \<Rightarrow> 'm option \<Rightarrow> ('g, 'h, 'm, 'c, 'q, 'w) xstate \<Rightarrow>
   ('g, 'h, 'm, 'c, 'q, 'w) xstate outcome" where
  "fast_read L C pot dbp T =
     (let (x, rand) = r64_next (l_random L) (th_rand T);
          key_rand = sint (and x (of_int (pot - 1)))
      in bindO (at_index (xs_keys T) 0) (\<lambda>buf.
         bindO (GenerateKeyFromInt (rc_keys C) (of_int key_rand) (rc_num C) buf) (\<lambda>(key, buf).
         bindO (deref dbp) (\<lambda>m.
         bindO (fast_get L C m key (T\<lparr>th_rand := rand, xs_keys := [buf], xs_read := xs_read T + 1\<rparr>)) (\<lambda>(s, T).
         bindO (if s = OK then Inr (T\<lparr>xs_found := xs_found T + 1\<rparr>)
                else if s = NotFound then Inr T else Inl Process_Abort) (\<lambda>T.
           Inr (if rc_num C \<le> key_rand then T\<lparr>xs_nonexist := xs_nonexist T + 1\<rparr> else T)))))))"

fun fast_reads ::
  "('g, 'h, 'm, 'c, 'q, 'w, 'i) slib \<Rightarrow> read_cfg \<Rightarrow> int \<Rightarrow> 'm option \<Rightarrow> nat \<Rightarrow> ('g, 'h, 'm, 'c, 'q, 'w) xstate \<Rightarrow>
   ('g, 'h, 'm, 'c, 'q, 'w) xstate outcome" where
  "fast_reads L C pot dbp 0 T = Inr T"
| "fast_reads L C pot dbp (Suc n) T = bindO (fast_read L C pot dbp T) (fast_reads L C pot dbp n)"

definition fast_turn ::
  "('g, 'h, 'm, 'c, 'q, 'w, 'i) slib \<Rightarrow> read_cfg \<Rightarrow> int \<Rightarrow> 'm option \<Rightarrow> ('g, 'h, 'm, 'c, 'q, 'w) xstate \<Rightarrow>
   ('g, 'h, 'm, 'c, 'q, 'w) xstate outcome" where
  "fast_turn L C pot dbp T =
     bindO (fast_reads L C pot dbp 100 T) (\<lambda>T. finished L (rc_stats C) dbp 100 kRead T)"

text \<open>The message of \<open>ReadRandomFast\<close>.\<close>

definition nonexist_message :: "('g, 'h, 'm, 'c, 'q, 'w) xstate \<Rightarrow> bytes" where
  "nonexist_message T =
     take 99 (bytes_of ''('' @ u64_text (xs_found T) @ bytes_of '' of '' @ u64_text (xs_read T) @ bytes_of '' found, issued '' @
       u64_text (xs_nonexist T) @ bytes_of '' non-exist keys)'' @ [10])"

text \<open>The loop tests the duration after its body.\<close>

definition ReadRandomFast ::
  "('g, 'h, 'm, 'c, 'q, 'w, 'i) slib \<Rightarrow> read_cfg \<Rightarrow> nat \<Rightarrow> ('g, 'h, 'm, 'c, 'q, 'w) bench_thread \<Rightarrow>
   ('g, 'h, 'm, 'c, 'q, 'w) xstate outcome" where
  "ReadRandomFast L C fuel T =
     bindO (select_db (l_random L) T) (\<lambda>(i, T).
     bindO (pot_from (rc_num C) 1) (\<lambda>pot.
       let dbp = db (selected (th_dbs T) i);
           (D, c) = Duration_new (l_now L) (of_int (rc_duration C)) (rc_reads C) 0 (clk (th_env T));
           T = bench_thread.extend (T\<lparr>th_duration := D, th_env := (th_env T)\<lparr>clk := c\<rparr>\<rparr>)
                 (xstate.fields [AllocateKey (rc_keys C)] 0 0 0 0)
       in bindO (fast_turn L C pot dbp T) (\<lambda>T.
          bindO (bench_loop (l_now L) (rc_granularity C) 100 (fast_turn L C pot dbp) fuel T) (\<lambda>T.
            Inr (T\<lparr>th_stats := AddMessage (nonexist_message T) (th_stats T)\<rparr>)))))"

section \<open>Reading several keys at once\<close>

text \<open>The keys of a batch: equidistant numbers, or random ones, each in its own buffer.\<close>

fun stride_keys :: "read_cfg \<Rightarrow> int \<Rightarrow> region list \<Rightarrow> (bytes \<times> region) list outcome" where
  "stride_keys C key [] = Inr []"
| "stride_keys C key (buf # bufs) =
     bindO (GenerateKeyFromInt (rc_keys C) (of_int key) (rc_num C) buf) (\<lambda>kb.
     bindO (i64 (key + rc_stride C)) (\<lambda>key.
     bindO (stride_keys C key bufs) (\<lambda>kbs. Inr (kb # kbs))))"

fun random_keys :: "'g random64 \<Rightarrow> read_cfg \<Rightarrow> region list \<Rightarrow> 'g \<Rightarrow> ((bytes \<times> region) list \<times> 'g) outcome" where
  "random_keys R C [] rand = Inr ([], rand)"
| "random_keys R C (buf # bufs) rand =
     bindO (GetRandomKey R (rc_exp_range C) (rc_num C) rand) (\<lambda>(x, rand).
     bindO (GenerateKeyFromInt (rc_keys C) (of_int x) (rc_num C) buf) (\<lambda>kb.
     bindO (random_keys R C bufs rand) (\<lambda>(kbs, rand). Inr (kb # kbs, rand))))"

definition stride_start :: "read_cfg \<Rightarrow> int \<Rightarrow> int outcome" where
  "stride_start C key =
     bindO (i64 ((rc_entries_per_batch C - 1) * rc_stride C)) (\<lambda>span.
     bindO (i64 (key + span)) (\<lambda>last.
       if rc_num C \<le> last then bindO (i64 (rc_entries_per_batch C * rc_stride C)) (\<lambda>w. i64 (rc_num C - w)) else Inr key))"

definition batch_keys ::
  "'g random64 \<Rightarrow> read_cfg \<Rightarrow> region list \<Rightarrow> 'g \<Rightarrow> ((bytes \<times> region) list \<times> 'g) outcome" where
  "batch_keys R C bufs rand =
     (if rc_stride C \<noteq> 0
      then bindO (GetRandomKey R (rc_exp_range C) (rc_num C) rand) (\<lambda>(key, rand).
           bindO (stride_start C key) (\<lambda>key.
           bindO (stride_keys C key bufs) (\<lambda>kbs. Inr (kbs, rand))))
      else random_keys R C bufs rand)"

definition multi_timestamp ::
  "'g random64 \<Rightarrow> read_cfg \<Rightarrow> ('g, 'h, 'm, 'c, 'q, 'w) xstate \<Rightarrow> (u64 option \<times> ('g, 'h, 'm, 'c, 'q, 'w) xstate) outcome" where
  "multi_timestamp R C T =
     (if 0 < rc_timestamp_size C
      then bindO (GetTimestampForRead (rc_latest C) (r64_next R) (th_rand T) (th_timestamp T)) (\<lambda>(ts, rand, clock).
             Inr (Some ts, T\<lparr>th_rand := rand, th_timestamp := clock\<rparr>))
      else Inr (None, T))"

fun tally ::
  "int \<Rightarrow> (bytes \<times> Status \<times> bytes) list \<Rightarrow> ('g, 'h, 'm, 'c, 'q, 'w) xstate \<Rightarrow> ('g, 'h, 'm, 'c, 'q, 'w) xstate outcome" where
  "tally width [] T = Inr T"
| "tally width ((key, s, v) # rs) T =
     (if s = OK
      then tally width rs (T\<lparr>xs_found := xs_found T + 1, xs_bytes := xs_bytes T + int (length key) + int (length v) + width\<rparr>)
      else if s = NotFound then tally width rs T else Inl Process_Abort)"

definition multi_get ::
  "('g, 'h, 'm, 'c, 'q, 'w, 'i) slib \<Rightarrow> multi_cfg \<Rightarrow> u64 option \<Rightarrow> bytes list \<Rightarrow> 'm \<Rightarrow> (Status \<times> bytes) list outcome" where
  "multi_get L C ts keys m =
     (if rc_batched C then Inr (map (\<lambda>key. l_multiget_cf L ts key m) keys)
      else let rs = l_multiget L ts keys m
           in bindO (guardO (int (length rs) = rc_entries_per_batch C) Assert_Failed) (\<lambda>_. Inr rs))"

definition multi_turn ::
  "('g, 'h, 'm, 'c, 'q, 'w, 'i) slib \<Rightarrow> multi_cfg \<Rightarrow> ('g, 'h, 'm, 'c, 'q, 'w) xstate \<Rightarrow>
   ('g, 'h, 'm, 'c, 'q, 'w) xstate outcome" where
  "multi_turn L C T =
     bindO (select_db (l_random L) T) (\<lambda>(i, T).
     bindO (batch_keys (l_random L) (read_cfg.truncate C) (xs_keys T) (th_rand T)) (\<lambda>(kbs, rand).
     bindO (multi_timestamp (l_random L) (read_cfg.truncate C) (T\<lparr>th_rand := rand, xs_keys := map snd kbs\<rparr>)) (\<lambda>(ts, T).
     bindO (deref (db (selected (th_dbs T) i))) (\<lambda>m.
     bindO (multi_get L C ts (map fst kbs) m) (\<lambda>rs.
     bindO (tally (rc_timestamp_size C) (zip (map fst kbs) rs) (T\<lparr>xs_read := xs_read T + rc_entries_per_batch C\<rparr>)) (\<lambda>T.
       finished L (rc_stats C) (db (selected (th_dbs T) i)) (rc_entries_per_batch C) kRead T))))))"

definition MultiReadRandom ::
  "('g, 'h, 'm, 'c, 'q, 'w, 'i) slib \<Rightarrow> multi_cfg \<Rightarrow> nat \<Rightarrow> ('g, 'h, 'm, 'c, 'q, 'w) bench_thread \<Rightarrow>
   ('g, 'h, 'm, 'c, 'q, 'w) xstate outcome" where
  "MultiReadRandom L C fuel T =
     bindO (guardO (0 \<le> rc_entries_per_batch C) Length_Error) (\<lambda>_.
       let (D, c) = Duration_new (l_now L) (of_int (rc_duration C)) (rc_reads C) 0 (clk (th_env T));
           T = bench_thread.extend (T\<lparr>th_duration := D, th_env := (th_env T)\<lparr>clk := c\<rparr>\<rparr>)
                 (xstate.fields (replicate (nat (rc_entries_per_batch C)) (AllocateKey (rc_keys C))) 0 0 0 0)
       in bindO (bench_loop (l_now L) (rc_granularity C) (rc_entries_per_batch C) (multi_turn L C) fuel T) (\<lambda>T.
            Inr (T\<lparr>th_stats := AddMessage (bytes_of ''('' @ u64_text (xs_found T) @ bytes_of '' of '' @ u64_text (xs_read T) @
              bytes_of '' found)'') (AddBytes (xs_bytes T) (th_stats T))\<rparr>)))"

section \<open>What an iteration counts\<close>

text \<open>An iterator at a position from which stepping shows the pairs of a list, and then becomes invalid.\<close>

fun iterates :: "('m, 'i) rocks_iter \<Rightarrow> ('i \<Rightarrow> 'i) \<Rightarrow> 'i \<Rightarrow> (bytes \<times> bytes) list \<Rightarrow> bool" where
  "iterates it adv iter [] \<longleftrightarrow> \<not> it_valid it iter"
| "iterates it adv iter ((k, v) # kvs) \<longleftrightarrow>
     it_valid it iter \<and> it_key it iter = k \<and> it_value it iter = v \<and> iterates it adv (adv iter) kvs"

text \<open>
  What RocksDB documents of its iterators: from the first key forward, and from the last key backward, they show
  every pair that \<open>Get\<close> finds, and each once.
\<close>

definition entries_of :: "('g, 'h, 'm, 'c, 'q, 'w, 'i) slib \<Rightarrow> 'm \<Rightarrow> (bytes \<times> bytes) list \<Rightarrow> bool" where
  "entries_of L m kvs \<longleftrightarrow>
     (let it = l_iter L (None, None)
      in iterates it (it_next it) (l_first L (it_new it m)) kvs \<and>
         iterates it (it_prev it) (l_last L (it_new it m)) (rev kvs) \<and>
         distinct (map fst kvs) \<and> fst ` set kvs = {k. fst (rdb_get (l_rdb L) k m) = OK})"

definition scan_laws :: "('g, 'h, 'm, 'c, 'q, 'w, 'i) slib \<Rightarrow> bool" where
  "scan_laws L \<longleftrightarrow> (\<forall>m. \<exists>kvs. entries_of L m kvs)"

definition stored :: "('w, 'm) rocksdb \<Rightarrow> 'm \<Rightarrow> nat" where
  "stored rdb m = card {k. fst (rdb_get rdb k m) = OK}"

text \<open>Keys of different numbers are different, as long as the numbers fit in the bytes a key has for them.\<close>

lemma key_bytes_inj:
  assumes "keys_per_prefix K \<le> 0" and "unat v < 256 ^ min (nat (key_size K)) 8" and "unat w < 256 ^ min (nat (key_size K)) 8"
    and "key_bytes K v n = key_bytes K w n"
  shows "v = w"
proof -
  have c: "slice_compare (key_bytes K x n) (key_bytes K y n) = (if unat x < unat y then -1 else if unat y < unat x then 1 else 0)"
    if "unat x < 256 ^ min (nat (key_size K)) 8" "unat y < 256 ^ min (nat (key_size K)) 8" for x y
    using assms(1) that by (simp only: key_bytes_plain slice_compare_suffix length_be_bytes slice_compare_be_bytes mod_less sgn_cmp_def)
  have "slice_compare (key_bytes K v n) (key_bytes K w n) = 0"
    using c [OF assms(2,2)] assms(4) by simp
  then show ?thesis
    using c [OF assms(2,3)] by (auto simp: word_unat_eq_iff split: if_splits)
qed

lemma inj_number_keys:
  assumes "keys_per_prefix K \<le> 0" and "k \<le> 256 ^ min (nat (key_size K)) 8" and "k < 18446744073709551616"
  shows "inj_on (\<lambda>j. key_bytes K (of_nat j) n) {0..<k}"
proof (rule inj_onI)
  fix i j assume "i \<in> {0..<k}" "j \<in> {0..<k}" and e: "key_bytes K (of_nat i) n = key_bytes K (of_nat j) n"
  then have u: "unat (of_nat i :: u64) = i" "unat (of_nat j :: u64) = j" "i < k" "j < k"
    using assms(3) by (auto intro!: unat_of_nat64)
  have "(of_nat i :: u64) = of_nat j"
    using assms(2) u by (intro key_bytes_inj [OF assms(1) _ _ e]) simp_all
  then show "i = j"
    using u(1,2) by metis
qed

lemma card_number_keys:
  assumes "keys_per_prefix K \<le> 0" and "k \<le> 256 ^ min (nat (key_size K)) 8" and "k < 18446744073709551616"
  shows "card ((\<lambda>j. key_bytes K (of_nat j) n) ` {0..<k}) = k"
  using inj_number_keys [OF assms] by (simp add: card_image)

lemma entries_laws:
  assumes "entries_of L m kvs"
  shows "iterates (l_iter L (None, None)) (it_next (l_iter L (None, None))) (l_first L (it_new (l_iter L (None, None)) m)) kvs"
    and "iterates (l_iter L (None, None)) (it_prev (l_iter L (None, None))) (l_last L (it_new (l_iter L (None, None)) m)) (rev kvs)"
    and "length kvs = stored (l_rdb L) m"
proof -
  have d: "distinct (map fst kvs)" "set (map fst kvs) = {k. fst (rdb_get (l_rdb L) k m) = OK}"
    using assms by (simp_all add: entries_of_def Let_def)
  then show "length kvs = stored (l_rdb L) m"
    using distinct_card [OF d(1)] by (simp add: stored_def)
qed (use assms in \<open>simp_all add: entries_of_def Let_def\<close>)

lemma finished_done:
  assumes "s_reporter (th_stats T) \<noteq> None" and "fl_stats_interval F = 0"
  shows "\<exists>S E. finished L F dbp n op T = Inr (T\<lparr>th_stats := S, th_env := E\<rparr>) \<and> s_reporter S \<noteq> None \<and>
    s_done S = s_done (th_stats T) + of_int n"
proof -
  have "\<exists>S E. FinishedOps (l_rdb L) (l_hist L) (l_now L) F dbp n op (th_stats T) (th_env T) = Inr (S, E) \<and>
      s_reporter S = s_reporter (th_stats T) \<and> s_done S = s_done (th_stats T) + of_int n"
    using assms by (auto simp: FinishedOps_def record_latency_def Let_def split_beta)
  then obtain S E where "FinishedOps (l_rdb L) (l_hist L) (l_now L) F dbp n op (th_stats T) (th_env T) = Inr (S, E)"
    "s_reporter S = s_reporter (th_stats T)" "s_done S = s_done (th_stats T) + of_int n"
    by blast
  then show ?thesis
    using assms(1) by (intro exI [of _ S] exI [of _ E]) (simp add: finished_def)
qed

lemma iter_reads_counts:
  assumes "iterates it adv iter kvs" and "s_reporter (th_stats T) \<noteq> None" and "fl_stats_interval F = 0"
  shows "\<exists>b S E. iter_reads it adv L F m n iter bytes T = Inr (b, T\<lparr>th_stats := S, th_env := E\<rparr>) \<and> s_reporter S \<noteq> None \<and>
    s_done S = s_done (th_stats T) + of_nat (min n (length kvs))"
  using assms(1,2)
proof (induction n arbitrary: iter kvs bytes T)
  case 0
  then show ?case
    by (intro exI [of _ bytes] exI [of _ "th_stats T"] exI [of _ "th_env T"]) simp
next
  case (Suc n)
  show ?case
  proof (cases kvs)
    case Nil
    then show ?thesis
      using Suc.prems by (intro exI [of _ bytes] exI [of _ "th_stats T"] exI [of _ "th_env T"]) simp
  next
    case (Cons kv rest)
    obtain k v where kv: "kv = (k, v)" by (rule prod.exhaust)
    have it: "it_valid it iter" "iterates it adv (adv iter) rest"
      using Suc.prems(1) by (simp_all add: Cons kv)
    obtain S E where f: "finished L F (Some m) 1 kRead T = Inr (T\<lparr>th_stats := S, th_env := E\<rparr>)" "s_reporter S \<noteq> None"
      "s_done S = s_done (th_stats T) + of_int 1"
      using finished_done [OF Suc.prems(2) assms(3)] by blast
    obtain b S' E' where "iter_reads it adv L F m n (adv iter) (bytes + int (length (it_key it iter)) + int (length (it_value it iter)))
        (T\<lparr>th_stats := S, th_env := E\<rparr>) = Inr (b, T\<lparr>th_stats := S', th_env := E'\<rparr>)" "s_reporter S' \<noteq> None"
      "s_done S' = s_done S + of_nat (min n (length rest))"
      using Suc.IH [OF it(2), of "T\<lparr>th_stats := S, th_env := E\<rparr>"] f(2) by fastforce
    then show ?thesis
      using it(1) f by (intro exI [of _ b] exI [of _ S'] exI [of _ E']) (simp add: Cons)
  qed
qed

lemma ReadSequential_runs:
  assumes "scan_laws L" and "rc_timestamp_size C \<le> 0" and "fl_stats_interval (rc_stats C) = 0"
    and "s_reporter (th_stats T) \<noteq> None" and "db (bdb (th_dbs T)) \<noteq> None"
    and "num_instances (th_master T) = 1" and "dbptr (th_master T) = Some m"
  shows "\<exists>T'. ReadSequential L C T = Inr T' \<and> th_master T' = th_master T \<and> th_dbs T' = th_dbs T \<and>
    s_done (th_stats T') = s_done (th_stats T) + of_nat (min (nat (rc_reads C)) (stored (l_rdb L) m))"
proof -
  let ?it = "l_iter L (None, None)"
  obtain kvs where "entries_of L m kvs"
    using assms(1) by (auto simp: scan_laws_def)
  then have kvs: "iterates ?it (it_next ?it) (l_first L (it_new ?it m)) kvs" "length kvs = stored (l_rdb L) m"
    by (rule entries_laws)+
  obtain b S E where "iter_reads ?it (it_next ?it) L (rc_stats C) m (nat (rc_reads C)) (l_first L (it_new ?it m)) 0 T =
      Inr (b, T\<lparr>th_stats := S, th_env := E\<rparr>)" "s_done S = s_done (th_stats T) + of_nat (min (nat (rc_reads C)) (length kvs))"
    using iter_reads_counts [OF kvs(1) assms(4,3)] by blast
  then show ?thesis
    using assms(2,5-7) kvs(2) by (simp add: ReadSequential_def ReadSequential_db_def GetNthDB_def read_timestamp_def AddBytes_def)
qed

lemma ReadReverse_runs:
  assumes "scan_laws L" and "fl_stats_interval (rc_stats C) = 0"
    and "s_reporter (th_stats T) \<noteq> None" and "db (bdb (th_dbs T)) = Some d"
  shows "\<exists>T'. ReadReverse L C T = Inr T' \<and>
    s_done (th_stats T') = s_done (th_stats T) + of_nat (min (nat (rc_reads C)) (stored (l_rdb L) d))"
proof -
  let ?it = "l_iter L (None, None)"
  obtain kvs where "entries_of L d kvs"
    using assms(1) by (auto simp: scan_laws_def)
  then have kvs: "iterates ?it (it_prev ?it) (l_last L (it_new ?it d)) (rev kvs)" "length kvs = stored (l_rdb L) d"
    by (rule entries_laws)+
  obtain b S E where "iter_reads ?it (it_prev ?it) L (rc_stats C) d (nat (rc_reads C)) (l_last L (it_new ?it d)) 0 T =
      Inr (b, T\<lparr>th_stats := S, th_env := E\<rparr>)" "s_done S = s_done (th_stats T) + of_nat (min (nat (rc_reads C)) (length (rev kvs)))"
    using iter_reads_counts [OF kvs(1) assms(3,2)] by blast
  then show ?thesis
    using assms(4) kvs(2) by (simp add: ReadReverse_def ReadReverse_db_def AddBytes_def)
qed

section \<open>What the other benchmarks read\<close>

text \<open>The plain configuration: no prefixes, no timestamps, one family, numbers drawn evenly.\<close>

definition plain_scan :: "('r) read_cfg_scheme \<Rightarrow> bool" where
  "plain_scan C \<longleftrightarrow> valid_cfg (rc_keys C) \<and> keys_per_prefix (rc_keys C) \<le> 0 \<and> 0 < rc_num C \<and> in_i64 (rc_num C) \<and>
     rc_exp_range C = 0 \<and> rc_timestamp_size C \<le> 0 \<and> rc_duration C = 0 \<and> fl_stats_interval (rc_stats C) = 0"

lemma pot_from_steps:
  assumes "num \<le> 4611686018427387904" and "0 < pot" and "pot < 2 * num"
  shows "\<exists>e p. pot_from num pot = Inr p \<and> p = pot * 2 ^ e \<and> num \<le> p \<and> p < 2 * num"
  using assms
proof (induction num pot rule: pot_from.induct)
  case (1 num pot)
  show ?case
  proof (cases "pot < num")
    case True
    have i: "i64 (2 * pot) = Inr (2 * pot)"
      using True 1(2,3) by (simp add: in_i64_def)
    obtain e p where "pot_from num (2 * pot) = Inr p" "p = 2 * pot * 2 ^ e" "num \<le> p" "p < 2 * num"
      using 1 True i by auto
    then show ?thesis
      using True 1(3) i by (subst pot_from.simps) (auto intro!: exI [of _ "Suc e"])
  next
    case False
    then show ?thesis
      using 1(4) by (subst pot_from.simps) (auto intro!: exI [of _ 0])
  qed
qed

lemma sint_and_range:
  fixes x :: u64
  assumes "e \<le> 62"
  shows "0 \<le> sint (and x (of_int (2 ^ e - 1)))" and "sint (and x (of_int (2 ^ e - 1))) < 2 ^ e"
proof -
  have "(of_int (2 ^ e - 1) :: u64) = mask e"
    by (simp add: mask_eq_exp_minus_1)
  then have a: "and x (of_int (2 ^ e - 1)) = take_bit e x"
    by (simp add: take_bit_eq_mask)
  have u: "uint (take_bit e x) < 2 ^ e" "0 \<le> uint (take_bit e x)"
    by (simp_all add: unsigned_take_bit_eq)
  moreover have "(2 :: int) ^ e \<le> 4611686018427387904"
    using power_increasing [OF assms, of "2 :: int"] by simp
  ultimately have "in_i64 (uint (take_bit e x))"
    unfolding in_i64_def by (intro conjI) linarith+
  then have "sint (take_bit e x) = uint (take_bit e x)"
    using sint_of_int64 [of "uint (take_bit e x)"] by simp
  then show "0 \<le> sint (and x (of_int (2 ^ e - 1)))" "sint (and x (of_int (2 ^ e - 1))) < 2 ^ e"
    unfolding a using u by simp_all
qed

text \<open>What a thread has counted after reading the numbers \<open>xs\<close> from the database \<open>d\<close>.\<close>

definition fast_ok ::
  "('g, 'h, 'm, 'c, 'q, 'w, 'i) slib \<Rightarrow> read_cfg \<Rightarrow> nat \<Rightarrow> 'm \<Rightarrow> ('w, 'm) master \<Rightarrow> int list \<Rightarrow> ('g, 'h, 'm, 'c, 'q, 'w) xstate \<Rightarrow> bool" where
  "fast_ok L C e d M xs T \<longleftrightarrow>
     plain_scan C \<and> e \<le> 62 \<and> (\<forall>k. fst (rdb_get (l_rdb L) k d) \<in> {OK, NotFound}) \<and> th_master T = M \<and>
     s_reporter (th_stats T) \<noteq> None \<and> (\<exists>b. xs_keys T = [b] \<and> rsize b = nat (key_size (rc_keys C))) \<and>
     (\<forall>x\<in>set xs. 0 \<le> x \<and> x < 2 ^ e) \<and> xs_read T = int (length xs) \<and>
     xs_found T = int (length (filter (present (l_rdb L) (rc_keys C) (rc_num C) d) xs)) \<and>
     xs_nonexist T = int (length (filter (\<lambda>x. rc_num C \<le> x) xs))"

lemma fast_read_ok:
  assumes "fast_ok L C e d M xs T"
  shows "\<exists>T' x. fast_read L C (2 ^ e) (Some d) T = Inr T' \<and> fast_ok L C e d M (xs @ [x]) T' \<and> th_duration T' = th_duration T"
proof -
  let ?K = "rc_keys C" and ?num = "rc_num C"
  obtain b where b: "xs_keys T = [b]" "rsize b = nat (key_size ?K)" and C: "plain_scan C" "e \<le> 62"
    using assms by (auto simp: fast_ok_def)
  obtain y g where y: "r64_next (l_random L) (th_rand T) = (y, g)" by (rule prod.exhaust)
  define x where "x = sint (and y (of_int (2 ^ e - 1)))"
  obtain buf where k: "GenerateKeyFromInt ?K (of_int x) ?num b = Inr (key_bytes ?K (of_int x) ?num, buf)"
    "rsize buf = nat (key_size ?K)"
    using GenerateKeyFromInt_layout [of ?K b ?num "of_int x"] C(1) b(2) by (auto simp: plain_scan_def)
  obtain s v where v: "rdb_get (l_rdb L) (key_bytes ?K (of_int x) ?num) d = (s, v)" by (rule prod.exhaust)
  have "s \<in> {OK, NotFound}"
    using assms v unfolding fast_ok_def by (metis fst_conv)
  define T1 where "T1 = T\<lparr>th_rand := g, xs_keys := [buf], xs_read := xs_read T + 1,
    xs_found := xs_found T + of_bool (s = OK), xs_nonexist := xs_nonexist T + of_bool (?num \<le> x)\<rparr>"
  have "fast_read L C (2 ^ e) (Some d) T = Inr T1"
    using C(1) k(1) v \<open>s \<in> _\<close> unfolding fast_read_def fast_get_def y split_beta Let_def fst_conv snd_conv x_def [symmetric]
    by (auto simp: b(1) plain_scan_def T1_def)
  moreover have "fast_ok L C e d M (xs @ [x]) T1"
    using assms k(2) v sint_and_range [OF C(2), of y] by (auto simp: fast_ok_def T1_def present_def x_def)
  ultimately show ?thesis
    by (auto simp: T1_def)
qed

lemma fast_reads_ok:
  "fast_ok L C e d M xs T \<Longrightarrow> \<exists>T' ys. fast_reads L C (2 ^ e) (Some d) n T = Inr T' \<and> length ys = n \<and>
     fast_ok L C e d M (xs @ ys) T' \<and> th_duration T' = th_duration T"
proof (induction n arbitrary: xs T)
  case (Suc n)
  obtain T1 x where T1: "fast_read L C (2 ^ e) (Some d) T = Inr T1" "fast_ok L C e d M (xs @ [x]) T1"
    "th_duration T1 = th_duration T"
    using fast_read_ok [OF Suc.prems] by blast
  obtain T2 ys where "fast_reads L C (2 ^ e) (Some d) n T1 = Inr T2" "length ys = n"
    "fast_ok L C e d M ((xs @ [x]) @ ys) T2" "th_duration T2 = th_duration T1"
    using Suc.IH [OF T1(2)] by blast
  then show ?case
    using T1 by (intro exI [of _ T2] exI [of _ "x # ys"]) simp
qed simp

lemma fast_turn_ok:
  assumes "fast_ok L C e d M xs T"
  shows "\<exists>T' ys. fast_turn L C (2 ^ e) (Some d) T = Inr T' \<and> length ys = 100 \<and> fast_ok L C e d M (xs @ ys) T' \<and>
    th_duration T' = th_duration T"
proof -
  obtain T1 ys where T1: "fast_reads L C (2 ^ e) (Some d) 100 T = Inr T1" "length ys = 100" "fast_ok L C e d M (xs @ ys) T1"
    "th_duration T1 = th_duration T"
    using fast_reads_ok [OF assms] by blast
  then have "s_reporter (th_stats T1) \<noteq> None" "fl_stats_interval (rc_stats C) = 0"
    by (auto simp: fast_ok_def plain_scan_def)
  then obtain S E where "finished L (rc_stats C) (Some d) 100 kRead T1 = Inr (T1\<lparr>th_stats := S, th_env := E\<rparr>)" "s_reporter S \<noteq> None"
    using finished_plain by blast
  moreover have "fast_ok L C e d M (xs @ ys) (T1\<lparr>th_stats := S, th_env := E\<rparr>)"
    using T1(3) \<open>s_reporter S \<noteq> None\<close> by (simp add: fast_ok_def)
  ultimately show ?thesis
    using T1 by (intro exI [of _ "T1\<lparr>th_stats := S, th_env := E\<rparr>"] exI [of _ ys]) (simp add: fast_turn_def del: fast_reads.simps)
qed

definition fast_pos ::
  "('g, 'h, 'm, 'c, 'q, 'w, 'i) slib \<Rightarrow> read_cfg \<Rightarrow> nat \<Rightarrow> 'm \<Rightarrow> ('w, 'm) master \<Rightarrow> nat \<Rightarrow> ('g, 'h, 'm, 'c, 'q, 'w) xstate \<Rightarrow> bool" where
  "fast_pos L C e d M i T \<longleftrightarrow> (\<exists>xs. length xs = 100 * Suc i \<and> fast_ok L C e d M xs T)"

interpretation fasts: counted_body "fast_turn L C (2 ^ e) (Some d)" "fast_pos L C e d M"
proof
  show "\<exists>T'. fast_turn L C (2 ^ e) (Some d) T = Inr T' \<and> fast_pos L C e d M (Suc i) T' \<and> th_duration T' = th_duration T"
    if p: "fast_pos L C e d M i T" for i and T
  proof -
    obtain xs where xs: "length xs = 100 * Suc i" "fast_ok L C e d M xs T"
      using p by (auto simp: fast_pos_def)
    obtain T' ys where "fast_turn L C (2 ^ e) (Some d) T = Inr T'" "length ys = 100" "fast_ok L C e d M (xs @ ys) T'"
      "th_duration T' = th_duration T"
      using fast_turn_ok [OF xs(2)] by blast
    then show ?thesis
      using xs(1) by (auto simp: fast_pos_def intro!: exI [of _ "xs @ ys"])
  qed
  show "fast_pos L C e d M i T \<Longrightarrow> fast_pos L C e d M i (T\<lparr>th_duration := D, th_env := (th_env T)\<lparr>clk := c\<rparr>\<rparr>)" for i T D c
    by (auto simp: fast_pos_def fast_ok_def)
qed

text \<open>
  \<open>ReadRandomFast\<close> reads in hundreds and tests its limit only after a hundred, so it makes
  100 reads more than the largest multiple of 100 in the number it is asked for, even when asked for none.
  The numbers are below the least power of two that is not below the number of keys, those that are not
  numbers of keys are counted, and found are exactly those that the benchmark's own database has: what was
  loaded through \<open>DB_MASTER\<close> is not looked at.
\<close>

theorem ReadRandomFast_hundreds:
  assumes "plain_scan C" and "rc_num C \<le> 4611686018427387904" and "\<forall>k. fst (rdb_get (l_rdb L) k d) \<in> {OK, NotFound}"
    and "db (bdb (th_dbs T)) = Some d" and "s_reporter (th_stats T) \<noteq> None"
    and "0 \<le> rc_reads C" and "in_i64 (rc_reads C + 100)" and "nat (rc_reads C) < fuel"
  shows "\<exists>T' xs e. ReadRandomFast L C fuel T = Inr T' \<and> th_master T' = th_master T \<and>
    xs_read T' = 100 * (rc_reads C div 100 + 1) \<and> int (length xs) = xs_read T' \<and>
    rc_num C \<le> 2 ^ e \<and> 2 ^ e < 2 * rc_num C \<and> (\<forall>x\<in>set xs. 0 \<le> x \<and> x < 2 ^ e) \<and>
    xs_nonexist T' = int (length (filter (\<lambda>x. rc_num C \<le> x) xs)) \<and>
    xs_found T' = int (length (filter (present (l_rdb L) (rc_keys C) (rc_num C) d) xs))"
proof -
  let ?n = "rc_reads C"
  obtain y g where y: "r64_next (l_random L) (th_rand T) = (y, g)" by (rule prod.exhaust)
  have num: "0 < rc_num C"
    using assms(1) by (simp add: plain_scan_def)
  then obtain e where e: "pot_from (rc_num C) 1 = Inr (2 ^ e)" "rc_num C \<le> 2 ^ e" "2 ^ e < 2 * rc_num C"
    using pot_from_steps [OF assms(2), of 1] by auto
  have "(2 :: int) ^ e < 2 ^ 63"
    using e(3) assms(2) by simp
  then have e62: "e \<le> 62"
    using power_less_imp_less_exp [of "2 :: int" e 63] by simp
  obtain D c where D: "Duration_new (l_now L) 0 ?n 0 (clk (th_env T)) = (D, c)" by (rule prod.exhaust)
  let ?T = "bench_thread.extend (T\<lparr>th_rand := g, th_duration := D, th_env := (th_env T)\<lparr>clk := c\<rparr>\<rparr>)
    (xstate.fields [AllocateKey (rc_keys C)] 0 0 0 0)"
  have f0: "fast_ok L C e d (th_master T) [] ?T"
    using assms(1,3,5) e62 by (simp add: fast_ok_def bench_thread.defs xstate.defs AllocateKey_def)
  obtain T1 ys where T1: "fast_turn L C (2 ^ e) (Some d) ?T = Inr T1" "length ys = 100"
    "fast_ok L C e d (th_master T) ([] @ ys) T1" "th_duration T1 = th_duration ?T"
    using fast_turn_ok [OF f0] by blast
  have p0: "fast_pos L C e d (th_master T) 0 T1"
    using T1(2,3) by (auto simp: fast_pos_def)
  have d0: "th_duration T1 = fst (Duration_new (l_now L) 0 ?n 0 (clk (th_env T)))"
    using T1(4) by (simp add: bench_thread.defs xstate.defs D)
  obtain T2 where T2: "bench_loop (l_now L) (rc_granularity C) 100 (fast_turn L C (2 ^ e) (Some d)) fuel T1 = Inr T2"
    "fast_pos L C e d (th_master T) (nat (?n div 100)) T2"
    using fasts.loop_runs [OF p0 d0 assms(6), of 100] assms(7,8) by auto
  obtain xs where xs: "length xs = 100 * Suc (nat (?n div 100))" "fast_ok L C e d (th_master T) xs T2"
    using T2(2) by (auto simp: fast_pos_def)
  let ?T' = "T2\<lparr>th_stats := AddMessage (nonexist_message T2) (th_stats T2)\<rparr>"
  have "ReadRandomFast L C fuel T = Inr ?T'"
    using assms(1,4) y e(1) D T1(1) T2(1)
    by (simp add: ReadRandomFast_def select_db_def SelectDBWithCfh_def selected_def plain_scan_def)
  moreover have "int (length xs) = 100 * (?n div 100 + 1)"
    using xs(1) assms(6) by simp
  ultimately show ?thesis
    using xs(2) e(2,3) by (intro exI [of _ ?T'] exI [of _ xs] exI [of _ e]) (simp add: fast_ok_def)
qed

section \<open>Batches of reads\<close>

text \<open>With a stride the whole batch lies in the range of the numbers, provided a batch fits into it.\<close>

lemma stride_start_range:
  assumes "0 \<le> x" and "x < rc_num C" and "in_i64 (rc_num C)" and "0 < rc_stride C" and "0 < rc_entries_per_batch C"
    and "rc_entries_per_batch C * rc_stride C \<le> rc_num C" and "in_i64 (2 * rc_num C)" and "0 \<le> i" and "i < rc_entries_per_batch C"
  shows "\<exists>y. stride_start C x = Inr y \<and> 0 \<le> y + i * rc_stride C \<and> y + i * rc_stride C < rc_num C"
proof -
  let ?e = "rc_entries_per_batch C" and ?s = "rc_stride C"
  have nn: "0 \<le> (?e - 1) * ?s" "0 \<le> i * ?s" "(?e - 1) * ?s = ?e * ?s - ?s"
    using assms(4,5,8,9) by (simp_all add: left_diff_distrib)
  have le: "i * ?s \<le> (?e - 1) * ?s"
    using assms(4,9) by (intro mult_right_mono) auto
  have "in_i64 ((?e - 1) * ?s)" "in_i64 (x + (?e - 1) * ?s)" "in_i64 (?e * ?s)" "in_i64 (rc_num C - ?e * ?s)"
    using nn assms(1-7) unfolding in_i64_def by linarith+
  then show ?thesis
    using nn le assms(1,2,4,6,9) by (auto simp: stride_start_def)
qed

text \<open>What RocksDB documents of \<open>MultiGet\<close>: what \<open>Get\<close> would return for each key.\<close>

definition multi_laws :: "('g, 'h, 'm, 'c, 'q, 'w, 'i) slib \<Rightarrow> bool" where
  "multi_laws L \<longleftrightarrow> (\<forall>ks m. l_multiget L None ks m = map (\<lambda>k. rdb_get (l_rdb L) k m) ks) \<and>
     (\<forall>k m. l_multiget_cf L None k m = rdb_get (l_rdb L) k m)"

lemma random_keys_ok:
  assumes "plain_scan C" and "\<forall>b\<in>set bufs. rsize b = nat (key_size (rc_keys C))"
  shows "\<exists>xs kbs g'. random_keys R C bufs g = Inr (kbs, g') \<and> length xs = length bufs \<and> (\<forall>x\<in>set xs. 0 \<le> x \<and> x < rc_num C) \<and>
    map fst kbs = map (\<lambda>x. key_bytes (rc_keys C) (of_int x) (rc_num C)) xs \<and>
    (\<forall>b\<in>set (map snd kbs). rsize b = nat (key_size (rc_keys C)))"
  using assms(2)
proof (induction bufs arbitrary: g)
  case (Cons b bufs)
  obtain y g1 where y: "r64_next R g = (y, g1)" by (rule prod.exhaust)
  define x where "x = sint (y mod of_int (rc_num C))"
  have num: "0 < rc_num C" "in_i64 (rc_num C)"
    using assms(1) by (simp_all add: plain_scan_def)
  then have x: "0 \<le> x" "x < rc_num C" "(of_int (rc_num C) :: u64) \<noteq> 0"
    using sint_mod_range [of "rc_num C" y] sint_of_int64 [of "rc_num C"] by (auto simp: x_def)
  then have "GetRandomKey R (rc_exp_range C) (rc_num C) g = Inr (x, g1)"
    using assms(1) y by (simp add: GetRandomKey_def plain_scan_def x_def)
  moreover obtain b' where b': "GenerateKeyFromInt (rc_keys C) (of_int x) (rc_num C) b =
      Inr (key_bytes (rc_keys C) (of_int x) (rc_num C), b')" "rsize b' = nat (key_size (rc_keys C))"
    using GenerateKeyFromInt_layout [of "rc_keys C" b "rc_num C" "of_int x"] assms(1) Cons.prems by (auto simp: plain_scan_def)
  moreover obtain xs kbs g2 where "random_keys R C bufs g1 = Inr (kbs, g2)" "length xs = length bufs"
    "\<forall>x\<in>set xs. 0 \<le> x \<and> x < rc_num C" "map fst kbs = map (\<lambda>x. key_bytes (rc_keys C) (of_int x) (rc_num C)) xs"
    "\<forall>b\<in>set (map snd kbs). rsize b = nat (key_size (rc_keys C))"
    using Cons.IH [of g1] Cons.prems by auto
  ultimately show ?case
    using x by (intro exI [of _ "x # xs"] exI [of _ "(key_bytes (rc_keys C) (of_int x) (rc_num C), b') # kbs"] exI [of _ g2]) simp
qed simp

lemma tally_counts:
  assumes "\<forall>(k, s, v)\<in>set rs. s \<in> {OK, NotFound}"
  shows "\<exists>b. tally w rs T = Inr (T\<lparr>xs_found := xs_found T + int (length (filter (\<lambda>(k, s, v). s = OK) rs)), xs_bytes := b\<rparr>)"
  using assms
proof (induction w rs T rule: tally.induct)
  case (1 width T)
  then show ?case
    by (auto intro!: exI [of _ "xs_bytes T"])
next
  case (2 width key s v rs T)
  show ?case
  proof (cases "s = OK")
    case True
    then show ?thesis
      using 2(1) 2(3) by (auto simp: algebra_simps)
  next
    case False
    then show ?thesis
      using 2(2) 2(3) by auto
  qed
qed

lemma batch_tally:
  assumes "\<forall>k. fst (rdb_get rdb k d) \<in> {OK, NotFound}"
  shows "\<exists>b. tally w (map (\<lambda>x. (key_bytes K (of_int x) num, rdb_get rdb (key_bytes K (of_int x) num) d)) ys) T =
    Inr (T\<lparr>xs_found := xs_found T + int (length (filter (present rdb K num d) ys)), xs_bytes := b\<rparr>)" (is "\<exists>b. tally w ?rs T = _")
proof -
  have ok: "\<forall>(q, s, v)\<in>set ?rs. s \<in> {OK, NotFound}"
    using assms by (simp add: split_beta)
  have "length (filter (\<lambda>(q, s, v). s = OK) ?rs) = length (filter (present rdb K num d) ys)"
    unfolding present_def [abs_def] by (simp add: filter_map comp_def split_beta)
  then show ?thesis
    using tally_counts [OF ok, of w T] by simp
qed

text \<open>The state after the numbers \<open>xs\<close> were read from the database \<open>d\<close>, and that state after \<open>i\<close> batches.\<close>

definition multi_ok ::
  "('g, 'h, 'm, 'c, 'q, 'w, 'i) slib \<Rightarrow> multi_cfg \<Rightarrow> 'm \<Rightarrow> ('w, 'm) master \<Rightarrow> int list \<Rightarrow> ('g, 'h, 'm, 'c, 'q, 'w) xstate \<Rightarrow> bool" where
  "multi_ok L C d M xs T \<longleftrightarrow>
     plain_scan C \<and> rc_stride C = 0 \<and> 0 < rc_entries_per_batch C \<and> multi_laws L \<and>
     (\<forall>k. fst (rdb_get (l_rdb L) k d) \<in> {OK, NotFound}) \<and> th_master T = M \<and> db (bdb (th_dbs T)) = Some d \<and>
     s_reporter (th_stats T) \<noteq> None \<and> length (xs_keys T) = nat (rc_entries_per_batch C) \<and>
     (\<forall>b\<in>set (xs_keys T). rsize b = nat (key_size (rc_keys C))) \<and> (\<forall>x\<in>set xs. 0 \<le> x \<and> x < rc_num C) \<and>
     xs_read T = int (length xs) \<and> xs_found T = int (length (filter (present (l_rdb L) (rc_keys C) (rc_num C) d) xs))"

definition multi_pos ::
  "('g, 'h, 'm, 'c, 'q, 'w, 'i) slib \<Rightarrow> multi_cfg \<Rightarrow> 'm \<Rightarrow> ('w, 'm) master \<Rightarrow> nat \<Rightarrow> ('g, 'h, 'm, 'c, 'q, 'w) xstate \<Rightarrow> bool" where
  "multi_pos L C d M i T \<longleftrightarrow> (\<exists>xs. length xs = nat (rc_entries_per_batch C) * i \<and> multi_ok L C d M xs T)"

lemma multi_get_plain:
  assumes "multi_laws L" and "int (length keys) = rc_entries_per_batch C"
  shows "multi_get L C None keys m = Inr (map (\<lambda>k. rdb_get (l_rdb L) k m) keys)"
  using assms by (simp add: multi_get_def multi_laws_def)

lemma multi_turn_ok:
  assumes "multi_ok L C d M xs T"
  shows "\<exists>T' ys. multi_turn L C T = Inr T' \<and> length ys = nat (rc_entries_per_batch C) \<and> multi_ok L C d M (xs @ ys) T' \<and>
    th_duration T' = th_duration T"
proof -
  let ?K = "rc_keys C" and ?num = "rc_num C" and ?R = "read_cfg.truncate C" and ?e = "rc_entries_per_batch C"
  have C: "plain_scan C" "rc_stride C = 0" "0 < ?e" "multi_laws L" "db (bdb (th_dbs T)) = Some d" "length (xs_keys T) = nat ?e"
    "s_reporter (th_stats T) \<noteq> None"
    using assms by (simp_all add: multi_ok_def)
  have R: "plain_scan ?R" "rc_keys ?R = ?K" "rc_num ?R = ?num" "rc_stride ?R = 0" "rc_timestamp_size ?R = rc_timestamp_size C"
    using C(1,2) by (simp_all add: plain_scan_def read_cfg.defs)
  obtain y g where y: "r64_next (l_random L) (th_rand T) = (y, g)" by (rule prod.exhaust)
  have "\<forall>b\<in>set (xs_keys T). rsize b = nat (key_size (rc_keys ?R))"
    using assms by (simp add: multi_ok_def R(2))
  from random_keys_ok [OF R(1) this, of "l_random L" g] obtain ys kbs g' where
    k: "random_keys (l_random L) ?R (xs_keys T) g = Inr (kbs, g')" "length ys = nat ?e" "\<forall>x\<in>set ys. 0 \<le> x \<and> x < ?num"
      "map fst kbs = map (\<lambda>x. key_bytes ?K (of_int x) ?num) ys" "\<forall>b\<in>set (map snd kbs). rsize b = nat (key_size ?K)"
    unfolding R(2,3) C(6) by blast
  have l: "length kbs = nat ?e"
    using k(2,4) by (metis length_map)
  let ?rs = "zip (map fst kbs) (map (\<lambda>k. rdb_get (l_rdb L) k d) (map fst kbs))"
  have rs: "?rs = map (\<lambda>x. (key_bytes ?K (of_int x) ?num, rdb_get (l_rdb L) (key_bytes ?K (of_int x) ?num) d)) ys"
    unfolding k(4) by (simp add: zip_map_map zip_same_conv_map comp_def)
  let ?T = "T\<lparr>th_rand := g', xs_keys := map snd kbs, xs_read := xs_read T + ?e\<rparr>"
  have st: "\<forall>k. fst (rdb_get (l_rdb L) k d) \<in> {OK, NotFound}"
    using assms by (simp add: multi_ok_def)
  obtain b where t: "tally (rc_timestamp_size C) ?rs ?T = Inr (?T\<lparr>xs_found := xs_found ?T +
      int (length (filter (present (l_rdb L) ?K ?num d) ys)), xs_bytes := b\<rparr>)" (is "_ = Inr ?U")
    unfolding rs using batch_tally [OF st] by blast
  have r: "s_reporter (th_stats ?U) \<noteq> None" "fl_stats_interval (rc_stats C) = 0"
    using C(1,7) by (simp_all add: plain_scan_def)
  obtain S E where f: "finished L (rc_stats C) (Some d) ?e kRead ?U = Inr (?U\<lparr>th_stats := S, th_env := E\<rparr>)" "s_reporter S \<noteq> None"
    using finished_plain [OF r] by blast
  have "multi_get L C None (map fst kbs) d = Inr (map (\<lambda>k. rdb_get (l_rdb L) k d) (map fst kbs))"
    using C(3,4) l by (intro multi_get_plain) simp_all
  then have "multi_turn L C T = Inr (?U\<lparr>th_stats := S, th_env := E\<rparr>)"
    using y k(1) t f(1) R C(1,5)
    by (simp add: multi_turn_def select_db_def SelectDBWithCfh_def selected_def batch_keys_def multi_timestamp_def plain_scan_def del: map_map)
  moreover have "multi_ok L C d M (xs @ ys) (?U\<lparr>th_stats := S, th_env := E\<rparr>)"
    using assms k(2,3,5) l f(2) C(3) by (auto simp: multi_ok_def)
  ultimately show ?thesis
    using k(2) by (intro exI [of _ "?U\<lparr>th_stats := S, th_env := E\<rparr>"] exI [of _ ys]) simp
qed

interpretation multis: counted_body "multi_turn L C" "multi_pos L C d M"
proof
  show "\<exists>T'. multi_turn L C T = Inr T' \<and> multi_pos L C d M (Suc i) T' \<and> th_duration T' = th_duration T"
    if p: "multi_pos L C d M i T" for i and T
  proof -
    obtain xs where xs: "length xs = nat (rc_entries_per_batch C) * i" "multi_ok L C d M xs T"
      using p by (auto simp: multi_pos_def)
    obtain T' ys where "multi_turn L C T = Inr T'" "length ys = nat (rc_entries_per_batch C)" "multi_ok L C d M (xs @ ys) T'"
      "th_duration T' = th_duration T"
      using multi_turn_ok [OF xs(2)] by blast
    then show ?thesis
      using xs(1) by (auto simp: multi_pos_def intro!: exI [of _ "xs @ ys"])
  qed
  show "multi_pos L C d M i T \<Longrightarrow> multi_pos L C d M i (T\<lparr>th_duration := D, th_env := (th_env T)\<lparr>clk := c\<rparr>\<rparr>)" for i T D c
    by (auto simp: multi_pos_def multi_ok_def)
qed

text \<open>
  \<open>MultiReadRandom\<close> without a stride ends after as many whole batches as fit into the number of reads; every number
  is below the number of keys, and found are exactly the drawn keys of the benchmark's own database.
\<close>

theorem MultiReadRandom_batches:
  assumes "plain_scan C" and "rc_stride C = 0" and "0 < rc_entries_per_batch C" and "multi_laws L"
    and "\<forall>k. fst (rdb_get (l_rdb L) k d) \<in> {OK, NotFound}" and "db (bdb (th_dbs T)) = Some d" and "s_reporter (th_stats T) \<noteq> None"
    and "0 \<le> rc_reads C" and "in_i64 (rc_reads C + rc_entries_per_batch C)" and "nat (rc_reads C) < fuel"
  shows "\<exists>T' xs. MultiReadRandom L C fuel T = Inr T' \<and> th_master T' = th_master T \<and>
    xs_read T' = rc_entries_per_batch C * (rc_reads C div rc_entries_per_batch C) \<and> int (length xs) = xs_read T' \<and>
    (\<forall>x\<in>set xs. 0 \<le> x \<and> x < rc_num C) \<and> xs_found T' = int (length (filter (present (l_rdb L) (rc_keys C) (rc_num C) d) xs))"
proof -
  let ?n = "rc_reads C" and ?e = "rc_entries_per_batch C"
  obtain D c where D: "Duration_new (l_now L) 0 ?n 0 (clk (th_env T)) = (D, c)" by (rule prod.exhaust)
  let ?T = "bench_thread.extend (T\<lparr>th_duration := D, th_env := (th_env T)\<lparr>clk := c\<rparr>\<rparr>)
    (xstate.fields (replicate (nat ?e) (AllocateKey (rc_keys C))) 0 0 0 0)"
  have p0: "multi_pos L C d (th_master T) 0 ?T"
    using assms(1-7) by (auto simp: multi_pos_def multi_ok_def bench_thread.defs xstate.defs AllocateKey_def)
  have d0: "th_duration ?T = fst (Duration_new (l_now L) 0 ?n 0 (clk (th_env T)))"
    by (simp add: bench_thread.defs xstate.defs D)
  obtain T1 where T1: "bench_loop (l_now L) (rc_granularity C) ?e (multi_turn L C) fuel ?T = Inr T1"
    "multi_pos L C d (th_master T) (nat (?n div ?e)) T1"
    using multis.loop_runs [OF p0 d0 assms(8,3,9,10)] by blast
  obtain xs where xs: "length xs = nat ?e * nat (?n div ?e)" "multi_ok L C d (th_master T) xs T1"
    using T1(2) by (auto simp: multi_pos_def)
  have "int (length xs) = ?e * (?n div ?e)"
    using xs(1) assms(3,8) by (simp add: pos_imp_zdiv_nonneg_iff)
  then show ?thesis
    using xs(2) T1(1) D assms(1,3) by (auto simp: MultiReadRandom_def multi_ok_def plain_scan_def intro!: exI [of _ xs])
qed

section \<open>Families of the row cache benchmark\<close>

text \<open>Several column families without configured probabilities: number \<open>x\<close> belongs to family \<open>x\<close> modulo their number.\<close>

definition even_families :: "('h, 'm) DBWithColumnFamilies \<Rightarrow> 'h list \<Rightarrow> bool" where
  "even_families D hs \<longleftrightarrow> cfh D = map Some hs \<and> num_created D = of_nat (length hs) \<and> num_hot D = of_nat (length hs) \<and>
     cfh_idx_to_prob D = [] \<and> length hs < 18446744073709551616 \<and> 1 < length hs \<and> distinct hs"

lemma family_index: "0 < n \<Longrightarrow> nat (x mod int n) < n"
  using pos_mod_bound [of "int n" x] pos_mod_sign [of "int n" x] by linarith

lemma even_families_GetCfh:
  assumes "even_families D hs" and "0 \<le> x" and "in_i64 x"
  shows "GetCfh x D = Inr (Some (hs ! nat (x mod int (length hs))))"
proof -
  let ?n = "length hs"
  have n: "unat (of_nat ?n :: u64) = ?n" "0 < (of_nat ?n :: u64)"
    using assms(1) by (auto simp: even_families_def unat_of_nat64 word_gt_0 word_unat_eq_iff)
  have "unat ((of_int x :: u64) mod of_nat ?n) = unat (of_int x :: u64) mod ?n"
    by (simp add: unat_mod n(1))
  also have "unat (of_int x :: u64) = nat x"
    using assms(2,3) by (simp add: in_i64_def unat_eq_nat_uint uint_word_of_int_eq take_bit_int_eq_self)
  finally have u: "unat ((of_int x :: u64) mod of_nat ?n) = nat (x mod int ?n)"
    using assms(2) by (simp add: nat_mod_distrib)
  have "nat (x mod int ?n) < ?n"
    using assms(1) by (intro family_index) (auto simp: even_families_def)
  then show ?thesis
    using assms(1) n(2) u by (simp add: GetCfh_def even_families_def)
qed

lemma next_family:
  assumes "1 < n"
  shows "nat ((x + 1) mod int n) \<noteq> nat (x mod int n)"
proof
  assume "nat ((x + 1) mod int n) = nat (x mod int n)"
  then have "(x + 1) mod int n = x mod int n"
    using assms pos_mod_sign [of "int n"] by (metis of_nat_0_less_iff less_trans zero_less_one nat_eq_iff2)
  then have "int n dvd 1"
    by (simp add: mod_eq_dvd_iff)
  then show False
    using assms by (simp add: zdvd1_eq)
qed

text \<open>Every key is stored in the family of its number, and only there.\<close>

definition in_own_family :: "('g, 'h, 'm, 'c, 'q, 'w, 'i) slib \<Rightarrow> read_cfg \<Rightarrow> 'h list \<Rightarrow> 'm \<Rightarrow> bool" where
  "in_own_family L C hs m \<longleftrightarrow>
     (\<forall>x j. 0 \<le> x \<and> x < rc_num C \<and> j < length hs \<longrightarrow>
        fst (l_get_cf L (Some (Some (hs ! j))) (key_bytes (rc_keys C) (of_int x) (rc_num C)) m) =
          (if j = nat (x mod int (length hs)) then OK else NotFound))"

definition row_ok ::
  "('g, 'h, 'm, 'c, 'q, 'w, 'i) slib \<Rightarrow> read_cfg \<Rightarrow> 'h list \<Rightarrow> int \<Rightarrow> ('g, 'h, 'm, 'c, 'q, 'w) xstate \<Rightarrow> bool" where
  "row_ok L C hs x T \<longleftrightarrow>
     plain_scan C \<and> 1 < rc_num_cf C \<and> even_families (bdb (th_dbs T)) hs \<and> s_reporter (th_stats T) \<noteq> None \<and>
     (\<exists>m. db (bdb (th_dbs T)) = Some m \<and> in_own_family L C hs m) \<and>
     (\<exists>b. xs_keys T = [b] \<and> rsize b = nat (key_size (rc_keys C))) \<and> xs_read T = x \<and> xs_found T = 0"

lemma row_turn_ok:
  assumes "row_ok L C hs x T" and "0 \<le> x" and "x < rc_num C"
  shows "\<exists>T'. row_turn L C x T = Inr T' \<and> row_ok L C hs (x + 1) T'"
proof -
  let ?K = "rc_keys C" and ?num = "rc_num C" and ?d = "bdb (th_dbs T)"
  let ?key = "key_bytes ?K (of_int x) ?num" and ?j = "nat ((x + 1) mod int (length hs))"
  obtain m b where m: "db ?d = Some m" "in_own_family L C hs m" and b: "xs_keys T = [b]" "rsize b = nat (key_size ?K)"
    and C: "plain_scan C" "1 < rc_num_cf C" "even_families ?d hs" "s_reporter (th_stats T) \<noteq> None"
    using assms(1) by (auto simp: row_ok_def)
  obtain y g where y: "r64_next (l_random L) (th_rand T) = (y, g)" by (rule prod.exhaust)
  obtain buf where k: "GenerateKeyFromInt ?K (of_int x) ?num b = Inr (?key, buf)" "rsize buf = nat (key_size ?K)"
    using GenerateKeyFromInt_layout [of ?K b ?num "of_int x"] C(1) b(2) by (auto simp: plain_scan_def)
  have hs: "1 < length hs"
    using C(3) by (simp add: even_families_def)
  have h: "GetCfh (x + 1) ?d = Inr (Some (hs ! ?j))"
    using even_families_GetCfh [OF C(3)] assms(2,3) C(1) by (simp add: plain_scan_def in_i64_def)
  have "?j < length hs"
    using hs by (intro family_index) auto
  then obtain v where v: "l_get_cf L (Some (Some (hs ! ?j))) ?key m = (NotFound, v)"
    using m(2) assms(2,3) next_family [OF hs, of x] unfolding in_own_family_def by (metis prod.collapse)
  let ?T = "T\<lparr>th_rand := g, xs_keys := [buf], xs_read := xs_read T + 1\<rparr>"
  have r: "s_reporter (th_stats ?T) \<noteq> None" "fl_stats_interval (rc_stats C) = 0"
    using C(1,4) by (simp_all add: plain_scan_def)
  obtain S E where f: "finished L (rc_stats C) (Some m) 1 kRead ?T = Inr (?T\<lparr>th_stats := S, th_env := E\<rparr>)" "s_reporter S \<noteq> None"
    using finished_plain [OF r] by blast
  have "row_turn L C x T = Inr (?T\<lparr>th_stats := S, th_env := E\<rparr>)"
    using m(1) y b(1) k(1) h v f(1) C(2)
    by (simp add: row_turn_def select_db_def SelectDBWithCfh_def selected_def)
  moreover have "row_ok L C hs (x + 1) (?T\<lparr>th_stats := S, th_env := E\<rparr>)"
    using assms(1) k(2) f(2) m by (simp add: row_ok_def)
  ultimately show ?thesis by blast
qed

lemma row_loop_ok:
  "row_ok L C hs x T \<Longrightarrow> 0 \<le> x \<Longrightarrow> x + int n \<le> rc_num C \<Longrightarrow> \<exists>T'. row_loop L C n x T = Inr T' \<and> row_ok L C hs (x + int n) T'"
proof (induction n arbitrary: x T)
  case (Suc n)
  obtain T1 where "row_turn L C x T = Inr T1" "row_ok L C hs (x + 1) T1"
    using row_turn_ok [OF Suc.prems(1,2)] Suc.prems(3) by auto
  moreover obtain T2 where "row_loop L C n (x + 1) T1 = Inr T2" "row_ok L C hs (x + 1 + int n) T2"
    using Suc.IH [OF \<open>row_ok L C hs (x + 1) T1\<close>] Suc.prems(2,3) by auto
  ultimately show ?case
    by (simp add: algebra_simps)
qed auto

text \<open>
  \<open>ReadToRowCache\<close> reads every number once and ends, but increases the number between
  making the key and choosing the column family.  When every key is stored in the family of its own number, as
  the comment says it is, and there is more than one family, it finds none of them.
\<close>

theorem ReadToRowCache_wrong_family:
  assumes "plain_scan C" and "1 < rc_num_cf C" and "even_families (bdb (th_dbs T)) hs" and "db (bdb (th_dbs T)) = Some m"
    and "in_own_family L C hs m" and "s_reporter (th_stats T) \<noteq> None"
  shows "\<exists>T'. ReadToRowCache L C T = Inr T' \<and> xs_read T' = rc_num C \<and> xs_found T' = 0"
proof -
  let ?T = "bench_thread.extend T (xstate.fields [AllocateKey (rc_keys C)] 0 0 0 0)"
  have "row_ok L C hs 0 ?T" "0 < rc_num C"
    using assms by (simp_all add: row_ok_def bench_thread.defs xstate.defs AllocateKey_def plain_scan_def)
  then obtain T1 where "row_loop L C (nat (rc_num C)) 0 ?T = Inr T1" "row_ok L C hs (rc_num C) T1"
    using row_loop_ok [of L C hs 0 ?T "nat (rc_num C)"] by auto
  then show ?thesis
    by (simp add: ReadToRowCache_def row_ok_def)
qed

section \<open>Instances\<close>

text \<open>Iterators over a list of pairs, newest first: the distinct keys with the newest value, and a position.\<close>

definition list_entries :: "(bytes \<times> bytes) list \<Rightarrow> (bytes \<times> bytes) list" where
  "list_entries m = map (\<lambda>k. (k, the (map_of m k))) (remdups (map fst m))"

definition pair_iter :: "((bytes \<times> bytes) list, (bytes \<times> bytes) list \<times> int) rocks_iter" where
  "pair_iter =
     \<lparr>it_new = (\<lambda>m. (list_entries m, 0)), it_seek = (\<lambda>k (xs, i). (xs, int (length (takeWhile (\<lambda>(a, _). a \<noteq> k) xs)))),
      it_valid = (\<lambda>(xs, i). 0 \<le> i \<and> i < int (length xs)), it_next = (\<lambda>(xs, i). (xs, i + 1)), it_prev = (\<lambda>(xs, i). (xs, i - 1)),
      it_key = (\<lambda>(xs, i). fst (xs ! nat i)), it_value = (\<lambda>(xs, i). snd (xs ! nat i))\<rparr>"

definition scan_lib :: "(unit, nat, (bytes \<times> bytes) list, unit, unit, unit, (bytes \<times> bytes) list \<times> int) slib" where
  "scan_lib = ulib.extend
     (rlib.extend (wlib.extend sample_lib (rlib.fields (\<lambda>_. pair_iter) (\<lambda>_ _ vs _. ((NotFound, False), 0, vs))))
        (ulib.fields (\<lambda>bs m. (OK, fold list_apply bs m)) (\<lambda>_ k v m. (OK, (k, v) # m)) (\<lambda>_. rdb_get list_rdb)
           (\<lambda>_ k v m. (OK, (k, v) # m)) (\<lambda>_ v. v)))
     (slib.fields (\<lambda>(xs, _). (xs, 0)) (\<lambda>(xs, _). (xs, int (length xs) - 1))
        (\<lambda>h k _. if (h = Some (Some 0)) = (k = key_bytes four_byte_keys 0 2) then (OK, []) else (NotFound, []))
        (\<lambda>_ ks m. map (\<lambda>k. rdb_get list_rdb k m) ks) (\<lambda>_ k m. rdb_get list_rdb k m))"

lemmas scan_lib_simps = scan_lib_def sample_lib_def wlib.defs rlib.defs ulib.defs slib.defs

lemma iterates_Cons: "iterates it adv iter (kv # kvs) \<longleftrightarrow>
    it_valid it iter \<and> it_key it iter = fst kv \<and> it_value it iter = snd kv \<and> iterates it adv (adv iter) kvs"
  by (cases kv) simp

lemma list_iterates_next: "i \<le> length xs \<Longrightarrow> iterates pair_iter (it_next pair_iter) (xs, int i) (drop i xs)"
proof (induction "length xs - i" arbitrary: i)
  case (Suc n)
  then have "drop i xs = xs ! i # drop (Suc i) xs" "i < length xs"
    by (simp_all add: Cons_nth_drop_Suc)
  then show ?case
    using Suc(1) [of "Suc i"] Suc(2) by (simp add: iterates_Cons pair_iter_def add.commute)
qed (simp add: pair_iter_def)

lemma list_iterates_prev: "i \<le> length xs \<Longrightarrow> iterates pair_iter (it_prev pair_iter) (xs, int i - 1) (rev (take i xs))"
proof (induction i)
  case (Suc i)
  then have "rev (take (Suc i) xs) = xs ! i # rev (take i xs)"
    by (simp add: take_Suc_conv_app_nth)
  then show ?case
    using Suc by (simp add: iterates_Cons pair_iter_def)
qed (simp add: pair_iter_def)

lemma list_scan_laws: "scan_laws scan_lib"
proof -
  have "entries_of scan_lib m (list_entries m)" for m
  proof -
    have "fst ` set (list_entries m) = fst ` set m"
      by (simp add: list_entries_def image_image)
    also have "\<dots> = {k. fst (rdb_get list_rdb k m) = OK}"
    proof (rule set_eqI)
      show "k \<in> fst ` set m \<longleftrightarrow> k \<in> {k. fst (rdb_get list_rdb k m) = OK}" for k
        using map_of_eq_None_iff [of m k] by (auto simp: list_rdb_def split: option.splits)
    qed
    finally have "fst ` set (list_entries m) = {k. fst (rdb_get list_rdb k m) = OK}" .
    moreover have "distinct (map fst (list_entries m))"
      by (simp add: list_entries_def comp_def)
    ultimately show ?thesis
      using list_iterates_next [of 0 "list_entries m"] list_iterates_prev [of "length (list_entries m)" "list_entries m"]
      by (simp add: entries_of_def scan_lib_simps pair_iter_def Let_def)
  qed
  then show ?thesis
    by (auto simp: scan_laws_def)
qed

theorem ReadRandomFast_hundreds_witness:
  "\<exists>T'. ReadRandomFast scan_lib (three_reads\<lparr>rc_reads := 0\<rparr>) 1 reader = Inr T' \<and> xs_read T' = 100"
proof -
  have "plain_scan (three_reads\<lparr>rc_reads := 0\<rparr>)"
    using reader_ready(1) by (simp add: plain_scan_def plain_read_def)
  moreover have "\<forall>k. fst (rdb_get (l_rdb scan_lib) k []) \<in> {OK, NotFound}" "db (bdb (th_dbs reader)) = Some []"
    by (simp_all add: scan_lib_simps list_rdb_def reader_def write_start_def)
  ultimately show ?thesis
    using ReadRandomFast_hundreds [of "three_reads\<lparr>rc_reads := 0\<rparr>" scan_lib "[]" reader 1] reader_ready(5)
    by (auto simp: three_reads_def in_i64_def)
qed

definition two_family_reader :: "(unit, nat, (bytes \<times> bytes) list, unit, unit, unit) bench_thread" where
  "two_family_reader = reader\<lparr>th_dbs := \<lparr>bdb = \<lparr>cfh = [Some 0, Some 1], db = Some [], opt_txn_db = None, num_created = 2,
     num_hot = 2, cfh_idx_to_prob = []\<rparr>, multi_dbs = []\<rparr>\<rparr>"

theorem ReadToRowCache_wrong_family_witness:
  "\<exists>T'. ReadToRowCache scan_lib (three_reads\<lparr>rc_num := 2, rc_num_cf := 2\<rparr>) two_family_reader = Inr T' \<and>
     xs_read T' = 2 \<and> xs_found T' = 0"
proof -
  let ?C = "three_reads\<lparr>rc_num := 2, rc_num_cf := 2\<rparr>" and ?k = "key_bytes four_byte_keys"
  have C: "plain_scan ?C" "1 < rc_num_cf ?C"
    using reader_ready(1) by (simp_all add: plain_scan_def plain_read_def in_i64_def)
  have "?k 1 2 \<noteq> ?k 0 2"
    by code_simp
  then have g: "fst (l_get_cf scan_lib (Some (Some ([0, 1] ! j))) (?k (of_int x) 2) []) = (if j = nat (x mod 2) then OK else NotFound)"
    if "x = 0 \<or> x = 1" "j = 0 \<or> j = 1" for x j
    using that by (elim disjE) (simp_all add: scan_lib_simps)
  have "in_own_family scan_lib ?C [0, 1] []"
    unfolding in_own_family_def
  proof (intro allI impI, elim conjE)
    fix x :: int and j
    assume x: "0 \<le> x" "x < rc_num ?C" and j: "j < length [0 :: nat, 1]"
    have "x = 0 \<or> x = 1" "j = 0 \<or> j = 1"
      using x j by auto
    from g [OF this] show "fst (l_get_cf scan_lib (Some (Some ([0, 1] ! j))) (key_bytes (rc_keys ?C) (of_int x) (rc_num ?C)) []) =
        (if j = nat (x mod int (length [0 :: nat, 1])) then OK else NotFound)"
      by (simp add: three_reads_def)
  qed
  moreover have "even_families (bdb (th_dbs two_family_reader)) [0, 1]" "db (bdb (th_dbs two_family_reader)) = Some []"
    by (simp_all add: two_family_reader_def even_families_def)
  ultimately show ?thesis
    using ReadToRowCache_wrong_family [OF C, of two_family_reader "[0, 1]" "[]" scan_lib] reader_ready(5)
    by (simp add: two_family_reader_def)
qed

end
