(* ===== verification/Bench_Replace.thy ===== *)
theory Bench_Replace
  imports Bench_Sequential
begin

text \<open>
  \<open>RandomReplaceKeys\<close> of \<open>db_bench_tool.cc\<close>: every one of \<open>numdistinct\<close> entries has fifty keys, of which one is stored;
  a turn deletes it and stores the next one.  The normal distribution, RocksDB's deletions and the text of the
  closing message are parameters.
\<close>

section \<open>The benchmark\<close>

record ('g, 'h, 'm, 'c, 'q, 'w, 'i, 'e) plib = "('g, 'h, 'm, 'c, 'q, 'w, 'i) ulib" +
  l_normal :: "'e \<Rightarrow> real \<times> 'e"
  l_remove :: "bool \<Rightarrow> u64 option \<Rightarrow> bytes \<Rightarrow> 'm \<Rightarrow> Status \<times> 'm"

record ('g, 'h, 'm, 'c, 'q, 'w, 'e) pstate = "('g, 'h, 'm, 'c, 'q, 'w) bench_thread" +
  ps_key :: region
  ps_values :: "'g RandomGenerator"
  ps_counters :: "u32 list"
  ps_engine :: 'e

definition max_counter :: u64 where
  "max_counter = 50"

definition replace_key ::
  "update_cfg \<Rightarrow> u64 \<Rightarrow> ('g, 'h, 'm, 'c, 'q, 'w, 'e) pstate \<Rightarrow> (bytes \<times> ('g, 'h, 'm, 'c, 'q, 'w, 'e) pstate) outcome" where
  "replace_key C x T =
     bindO (GenerateKeyFromInt (uc_keys C) x (uc_num C) (ps_key T)) (\<lambda>(key, buf). Inr (key, T\<lparr>ps_key := buf\<rparr>))"

text \<open>\<open>Put\<close> and \<open>Delete\<close> or \<open>SingleDelete\<close>, at a new timestamp if there are any; the result is the status.\<close>

definition replace_put ::
  "('g, 'h, 'm, 'c, 'q, 'w, 'i, 'e) plib \<Rightarrow> update_cfg \<Rightarrow> nat option \<Rightarrow> bytes \<Rightarrow> bytes \<Rightarrow> ('g, 'h, 'm, 'c, 'q, 'w, 'e) pstate \<Rightarrow>
   (Status \<times> ('g, 'h, 'm, 'c, 'q, 'w, 'e) pstate) outcome" where
  "replace_put L C i key v T =
     bindO (deref (db (selected (th_dbs T) i))) (\<lambda>m.
       let ((s, m), clock) =
             (if 0 < uc_timestamp_size C
              then let (ts, clock) = Allocate (th_timestamp T) in (l_put_ts L ts key v m, clock)
              else (rdb_put (l_rdb L) key v m, th_timestamp T))
       in Inr (s, T\<lparr>th_timestamp := clock, th_dbs := put_selected i m (th_dbs T)\<rparr>))"

definition replace_remove ::
  "('g, 'h, 'm, 'c, 'q, 'w, 'i, 'e) plib \<Rightarrow> update_cfg \<Rightarrow> bool \<Rightarrow> nat option \<Rightarrow> bytes \<Rightarrow> ('g, 'h, 'm, 'c, 'q, 'w, 'e) pstate \<Rightarrow>
   (Status \<times> ('g, 'h, 'm, 'c, 'q, 'w, 'e) pstate) outcome" where
  "replace_remove L C single i key T =
     bindO (deref (db (selected (th_dbs T) i))) (\<lambda>m.
       let (ts, clock) =
             (if 0 < uc_timestamp_size C then let (ts, clock) = Allocate (th_timestamp T) in (Some ts, clock)
              else (None, th_timestamp T));
           (s, m) = l_remove L single ts key m
       in Inr (s, T\<lparr>th_timestamp := clock, th_dbs := put_selected i m (th_dbs T)\<rparr>))"

fun replace_fill ::
  "('g, 'h, 'm, 'c, 'q, 'w, 'i, 'e) plib \<Rightarrow> update_cfg \<Rightarrow> nat option \<Rightarrow> nat \<Rightarrow> nat \<Rightarrow> ('g, 'h, 'm, 'c, 'q, 'w, 'e) pstate \<Rightarrow>
   ('g, 'h, 'm, 'c, 'q, 'w, 'e) pstate outcome" where
  "replace_fill L C i 0 k T = Inr T"
| "replace_fill L C i (Suc n) k T =
     bindO (replace_key C (of_nat k * max_counter) T) (\<lambda>(key, T).
     bindO (Generate (l_sampler L) (ps_values T)) (\<lambda>(v, G).
     bindO (replace_put L C i key v (T\<lparr>ps_values := G\<rparr>)) (\<lambda>(s, T).
       if s \<noteq> OK then Inl Process_Exit else replace_fill L C i n (Suc k) T)))"

text \<open>The entry whose key is replaced: the sample, cut to the range of the entries.\<close>

definition replace_id :: "update_cfg \<Rightarrow> real \<Rightarrow> int outcome" where
  "replace_id C x = bindO (to_i64 x) (\<lambda>rnd_id. Inr (max (min (uc_numdistinct C - 1) rnd_id) 0))"

definition replace_turn ::
  "('g, 'h, 'm, 'c, 'q, 'w, 'i, 'e) plib \<Rightarrow> update_cfg \<Rightarrow> bool \<Rightarrow> nat option \<Rightarrow> ('g, 'h, 'm, 'c, 'q, 'w, 'e) pstate \<Rightarrow>
   ('g, 'h, 'm, 'c, 'q, 'w, 'e) pstate outcome" where
  "replace_turn L C single i T =
     (let (x, e) = l_normal L (ps_engine T)
      in bindO (replace_id C x) (\<lambda>key_id.
         bindO (at_index (ps_counters T) (nat key_id)) (\<lambda>cnt.
         bindO (replace_key C (of_int key_id * max_counter + ucast cnt) (T\<lparr>ps_engine := e\<rparr>)) (\<lambda>(key, T).
         bindO (replace_remove L C single i key T) (\<lambda>(s, T).
         bindO (if s = OK
                then let cnt = ucast (ucast (cnt + 1) mod max_counter);
                         T = T\<lparr>ps_counters := (ps_counters T)[nat key_id := cnt]\<rparr>
                     in bindO (replace_key C (of_int key_id * max_counter + ucast cnt) T) (\<lambda>(key, T). replace_put L C i key [] T)
                else Inr (s, T)) (\<lambda>(s, T).
           if s \<noteq> OK then Inl Process_Exit else finished L (uc_stats C) (db (selected (th_dbs T) i)) 1 kOthers T))))))"

definition RandomReplaceKeys ::
  "('g, 'h, 'm, 'c, 'q, 'w, 'i, 'e) plib \<Rightarrow> update_cfg \<Rightarrow> bool \<Rightarrow> bytes \<Rightarrow> 'e \<Rightarrow> 'g RandomGenerator \<Rightarrow> nat \<Rightarrow>
   ('g, 'h, 'm, 'c, 'q, 'w) bench_thread \<Rightarrow> ('g, 'h, 'm, 'c, 'q, 'w, 'e) pstate outcome" where
  "RandomReplaceKeys L C single msg engine gen fuel T =
     bindO (guardO (0 \<le> uc_numdistinct C) Length_Error) (\<lambda>_.
     bindO (select_db (l_random L) T) (\<lambda>(i, T).
     bindO (replace_fill L C i (nat (uc_numdistinct C)) 0
              (bench_thread.extend T (pstate.fields (AllocateKey (uc_keys C)) gen (replicate (nat (uc_numdistinct C)) 0) engine))) (\<lambda>T.
     bindO (deref (db (selected (th_dbs T) i))) (\<lambda>_.
       let (D, c) = Duration_new (l_now L) (of_int (uc_duration C)) (uc_num C) 0 (clk (th_env T));
           T = T\<lparr>th_duration := D, th_env := (th_env T)\<lparr>clk := c\<rparr>\<rparr>
       in bindO (bench_loop (l_now L) (uc_granularity C) 1 (replace_turn L C single i) fuel T) (\<lambda>T.
            Inr (T\<lparr>th_stats := AddMessage msg (th_stats T)\<rparr>))))))"

section \<open>One key of every entry is stored\<close>

text \<open>The usual settings; all keys have different bytes.  What RocksDB promises of a deletion.\<close>

definition plain_replace :: "update_cfg \<Rightarrow> bool" where
  "plain_replace C \<longleftrightarrow> valid_cfg (uc_keys C) \<and> keys_per_prefix (uc_keys C) \<le> 0 \<and> uc_timestamp_size C \<le> 0 \<and>
     uc_duration C = 0 \<and> fl_stats_interval (uc_stats C) = 0 \<and> 0 < uc_numdistinct C \<and>
     50 * nat (uc_numdistinct C) \<le> 256 ^ min (nat (key_size (uc_keys C))) 8 \<and> 50 * nat (uc_numdistinct C) < 18446744073709551616"

definition remove_laws :: "('g, 'h, 'm, 'c, 'q, 'w, 'i, 'e) plib \<Rightarrow> bool" where
  "remove_laws L \<longleftrightarrow>
     (\<forall>single ts k m. fst (l_remove L single ts k m) = OK \<longrightarrow>
        (\<forall>k'. fst (rdb_get (l_rdb L) k' (snd (l_remove L single ts k m))) = OK \<longleftrightarrow>
              k' \<noteq> k \<and> fst (rdb_get (l_rdb L) k' m) = OK))"

definition replace_laws :: "('g, 'h, 'm, 'c, 'q, 'w, 'i, 'e) plib \<Rightarrow> bool" where
  "replace_laws L \<longleftrightarrow> uniform_laws (l_sampler L) \<and> main_laws (l_rdb L) \<and> remove_laws L \<and>
     (\<forall>k v m. fst (rdb_put (l_rdb L) k v m) = OK) \<and> (\<forall>single ts k m. fst (l_remove L single ts k m) = OK) \<and>
     (\<forall>e. \<exists>r. to_i64 (fst (l_normal L e)) = Inr r)"

text \<open>Of the keys of the first \<open>n\<close> entries exactly those the counters name are stored.\<close>

definition one_each :: "('w, 'm) rocksdb \<Rightarrow> update_cfg \<Rightarrow> nat \<Rightarrow> u32 list \<Rightarrow> 'm \<Rightarrow> bool" where
  "one_each rdb C n cs m \<longleftrightarrow>
     (\<forall>x < 50 * length cs. fst (rdb_get rdb (number_key C (int x)) m) = OK \<longleftrightarrow> x div 50 < n \<and> x mod 50 = unat (cs ! (x div 50)))"

lemma number_key_inj:
  assumes "plain_replace C" and "x < 50 * nat (uc_numdistinct C)" and "y < 50 * nat (uc_numdistinct C)"
  shows "number_key C (int x) = number_key C (int y) \<longleftrightarrow> x = y"
  using inj_number_keys [of "uc_keys C" "50 * nat (uc_numdistinct C)" "uc_num C"] assms
  by (auto simp: plain_replace_def number_key_def inj_on_def)

lemma replace_key_ok:
  assumes "plain_replace C" and "rsize (ps_key T) = nat (key_size (uc_keys C))"
  shows "\<exists>buf. replace_key C (of_nat x) T = Inr (number_key C (int x), T\<lparr>ps_key := buf\<rparr>) \<and> rsize buf = nat (key_size (uc_keys C))"
  using GenerateKeyFromInt_layout [of "uc_keys C" "ps_key T" "uc_num C" "of_nat x"] assms
  by (auto simp: plain_replace_def replace_key_def number_key_def)

lemma replace_put_ok:
  assumes "plain_replace C" and "replace_laws L" and "db (bdb (th_dbs T)) = Some m"
  shows "replace_put L C None key v T = Inr (OK, T\<lparr>th_dbs := put_selected None (snd (rdb_put (l_rdb L) key v m)) (th_dbs T)\<rparr>)"
  using assms by (simp add: replace_put_def plain_replace_def replace_laws_def selected_def split_beta)

lemma replace_remove_ok:
  assumes "plain_replace C" and "replace_laws L" and "db (bdb (th_dbs T)) = Some m"
  shows "replace_remove L C single None key T =
    Inr (OK, T\<lparr>th_dbs := put_selected None (snd (l_remove L single None key m)) (th_dbs T)\<rparr>)"
  using assms by (simp add: replace_remove_def plain_replace_def replace_laws_def selected_def split_beta)

text \<open>Filling stores the first key of the next entry.\<close>

lemma one_each_fill:
  assumes "plain_replace C" and "replace_laws L" and "length cs = nat (uc_numdistinct C)" and "k < length cs" and "cs ! k = 0"
    and "one_each (l_rdb L) C k cs m"
  shows "one_each (l_rdb L) C (Suc k) cs (snd (rdb_put (l_rdb L) (number_key C (int (k * 50))) v m))"
  unfolding one_each_def
proof (intro allI impI)
  fix x assume x: "x < 50 * length cs"
  have "number_key C (int x) = number_key C (int (k * 50)) \<longleftrightarrow> x = k * 50"
    using number_key_inj [OF assms(1), of x "k * 50"] x assms(3,4) by simp
  moreover have "x = k * 50 \<longleftrightarrow> x div 50 = k \<and> x mod 50 = 0"
    by auto
  ultimately show "fst (rdb_get (l_rdb L) (number_key C (int x)) (snd (rdb_put (l_rdb L) (number_key C (int (k * 50))) v m))) = OK \<longleftrightarrow>
    x div 50 < Suc k \<and> x mod 50 = unat (cs ! (x div 50))"
    using assms(2,5,6) x by (auto simp: replace_laws_def main_laws_def one_each_def less_Suc_eq)
qed

text \<open>A turn moves one counter on.\<close>

lemma one_each_turn:
  assumes "plain_replace C" and "replace_laws L" and "length cs = nat (uc_numdistinct C)" and "j < length cs"
    and "unat (cs ! j) < 50" and "unat c < 50" and "one_each (l_rdb L) C (length cs) cs m"
  shows "one_each (l_rdb L) C (length cs) (cs[j := c])
    (snd (rdb_put (l_rdb L) (number_key C (int (j * 50 + unat c))) v
       (snd (l_remove L single None (number_key C (int (j * 50 + unat (cs ! j)))) m))))"
  unfolding one_each_def
proof (intro allI impI)
  let ?a = "j * 50 + unat (cs ! j)" and ?b = "j * 50 + unat c"
  fix x assume x: "x < 50 * length (cs[j := c])"
  have e: "x = j * 50 + n \<longleftrightarrow> x div 50 = j \<and> x mod 50 = n" if "n < 50" for n
    using that by auto
  have b: "j * 50 + n < 50 * nat (uc_numdistinct C)" if "n < 50" for n
    using that assms(3,4) by simp
  have "x < 50 * nat (uc_numdistinct C)"
    using x assms(3) by simp
  note keys = number_key_inj [OF assms(1) this b [OF assms(5)]] number_key_inj [OF assms(1) this b [OF assms(6)]]
  have "fst (rdb_get (l_rdb L) (number_key C (int x)) (snd (rdb_put (l_rdb L) (number_key C (int ?b)) v
      (snd (l_remove L single None (number_key C (int ?a)) m))))) = OK \<longleftrightarrow>
    x = ?b \<or> x \<noteq> ?a \<and> x div 50 < length cs \<and> x mod 50 = unat (cs ! (x div 50))"
    using keys assms(2,7) x by (auto simp: replace_laws_def main_laws_def remove_laws_def one_each_def)
  then show "fst (rdb_get (l_rdb L) (number_key C (int x)) (snd (rdb_put (l_rdb L) (number_key C (int ?b)) v
      (snd (l_remove L single None (number_key C (int ?a)) m))))) = OK \<longleftrightarrow>
    x div 50 < length cs \<and> x mod 50 = unat (cs[j := c] ! (x div 50))"
    using e [OF assms(5)] e [OF assms(6)] assms(4) by (auto simp: nth_list_update)
qed

definition replace_inv ::
  "('g, 'h, 'm, 'c, 'q, 'w, 'i, 'e) plib \<Rightarrow> update_cfg \<Rightarrow> ('w, 'm) master \<Rightarrow> nat \<Rightarrow> ('g, 'h, 'm, 'c, 'q, 'w, 'e) pstate \<Rightarrow> bool" where
  "replace_inv L C M n T \<longleftrightarrow>
     plain_replace C \<and> replace_laws L \<and> th_master T = M \<and> s_reporter (th_stats T) \<noteq> None \<and>
     rsize (ps_key T) = nat (key_size (uc_keys C)) \<and> gen_inv (ps_values T) \<and>
     length (ps_counters T) = nat (uc_numdistinct C) \<and> (\<forall>c\<in>set (ps_counters T). unat c < 50) \<and>
     (\<exists>m. db (bdb (th_dbs T)) = Some m \<and> one_each (l_rdb L) C n (ps_counters T) m)"

lemma replace_fill_ok:
  assumes "replace_inv L C M k T" and "ps_counters T = replicate (nat (uc_numdistinct C)) 0" and "k + n = nat (uc_numdistinct C)"
  shows "\<exists>T'. replace_fill L C None n k T = Inr T' \<and> replace_inv L C M (nat (uc_numdistinct C)) T'"
  using assms
proof (induction n arbitrary: k T)
  case (Suc n)
  have C: "plain_replace C" "replace_laws L" "uniform_laws (l_sampler L)" "rsize (ps_key T) = nat (key_size (uc_keys C))"
    "gen_inv (ps_values T)"
    using Suc.prems(1) by (simp_all add: replace_inv_def replace_laws_def)
  obtain m where m: "db (bdb (th_dbs T)) = Some m" "one_each (l_rdb L) C k (ps_counters T) m"
    using Suc.prems(1) by (auto simp: replace_inv_def)
  let ?key = "number_key C (int (k * 50))"
  have w: "of_nat k * max_counter = of_nat (k * 50)"
    by (simp add: max_counter_def)
  obtain buf where b: "replace_key C (of_nat k * max_counter) T = Inr (?key, T\<lparr>ps_key := buf\<rparr>)" "rsize buf = nat (key_size (uc_keys C))"
    using replace_key_ok [OF C(1,4), of "k * 50"] w by metis
  obtain v G where v: "Generate (l_sampler L) (ps_values T) = Inr (v, G)" "gen_inv G"
    using Generate_ok [OF C(3,5)] by blast
  let ?m = "snd (rdb_put (l_rdb L) ?key v m)"
  let ?T = "T\<lparr>ps_key := buf, ps_values := G, th_dbs := put_selected None ?m (th_dbs T)\<rparr>"
  have "replace_put L C None ?key v (T\<lparr>ps_key := buf, ps_values := G\<rparr>) = Inr (OK, ?T)"
    using replace_put_ok [OF C(1,2), of "T\<lparr>ps_key := buf, ps_values := G\<rparr>" m ?key v] m(1) by simp
  then have s: "replace_fill L C None (Suc n) k T = replace_fill L C None n (Suc k) ?T"
    using b(1) v(1) by simp
  have "one_each (l_rdb L) C (Suc k) (ps_counters T) ?m"
    using one_each_fill [OF C(1,2) _ _ _ m(2)] Suc.prems(2,3) by simp
  then have "replace_inv L C M (Suc k) ?T"
    using Suc.prems(1) b(2) v(2) by (simp add: replace_inv_def put_selected_def)
  then show ?case
    using Suc.IH [of "Suc k" ?T] Suc.prems(2,3) s by simp
qed simp

lemma next_counter:
  assumes "unat (c :: u32) < 50"
  shows "unat (ucast (ucast (c + 1) mod max_counter :: u64) :: u32) = Suc (unat c) mod 50"
proof -
  have "unat (c + 1) = Suc (unat c)"
    using assms by (simp add: unat_word_ariths)
  then have "unat (ucast (c + 1) mod max_counter :: u64) = Suc (unat c) mod 50"
    using assms by (simp add: max_counter_def unat_mod_distrib unsigned_ucast_eq take_bit_nat_eq_self)
  then show ?thesis
    by (simp add: unsigned_ucast_eq unsigned_take_bit_eq take_bit_nat_eq_self)
qed

lemma replace_id_range:
  assumes "plain_replace C" and "to_i64 x = Inr r"
  shows "\<exists>j < nat (uc_numdistinct C). replace_id C x = Inr (int j)"
proof -
  let ?j = "max (min (uc_numdistinct C - 1) r) 0"
  have "0 \<le> ?j" "?j < uc_numdistinct C"
    using assms(1) by (auto simp: plain_replace_def)
  then show ?thesis
    using assms(2) by (intro exI [of _ "nat ?j"]) (simp add: replace_id_def)
qed

lemma replace_turn_inv:
  assumes "replace_inv L C M (nat (uc_numdistinct C)) T"
  shows "\<exists>T'. replace_turn L C single None T = Inr T' \<and> replace_inv L C M (nat (uc_numdistinct C)) T' \<and> th_duration T' = th_duration T"
proof -
  let ?cs = "ps_counters T"
  have C: "plain_replace C" "replace_laws L" "rsize (ps_key T) = nat (key_size (uc_keys C))" "length ?cs = nat (uc_numdistinct C)"
    "\<forall>c\<in>set ?cs. unat c < 50" "s_reporter (th_stats T) \<noteq> None" "fl_stats_interval (uc_stats C) = 0"
    using assms by (simp_all add: replace_inv_def plain_replace_def)
  obtain m where m: "db (bdb (th_dbs T)) = Some m" "one_each (l_rdb L) C (length ?cs) ?cs m"
    using assms by (auto simp: replace_inv_def)
  obtain y e where y: "l_normal L (ps_engine T) = (y, e)" by (rule prod.exhaust)
  obtain r where "to_i64 y = Inr r"
    using C(2) y by (metis fst_conv replace_laws_def)
  from replace_id_range [OF C(1) this] obtain j where j: "j < length ?cs" "replace_id C y = Inr (int j)"
    using C(4) by auto
  define c where "c = ?cs ! j"
  define c' :: u32 where "c' = ucast (ucast (c + 1) mod max_counter)"
  have c: "unat c < 50" "unat c' < 50"
    using C(5) j(1) next_counter [of c] by (simp_all add: c_def c'_def)
  have w: "of_int (int j) * max_counter + ucast d = (of_nat (j * 50 + unat d) :: u64)" for d :: u32
    by (simp add: max_counter_def)
  let ?a = "number_key C (int (j * 50 + unat c))" and ?b = "number_key C (int (j * 50 + unat c'))"
  obtain buf where b: "replace_key C (of_nat (j * 50 + unat c)) (T\<lparr>ps_engine := e\<rparr>) = Inr (?a, T\<lparr>ps_engine := e, ps_key := buf\<rparr>)"
    "rsize buf = nat (key_size (uc_keys C))"
    using replace_key_ok [OF C(1), of "T\<lparr>ps_engine := e\<rparr>" "j * 50 + unat c"] C(3) by auto
  define m1 where "m1 = snd (l_remove L single None ?a m)"
  define T1 where "T1 = T\<lparr>ps_engine := e, ps_key := buf, th_dbs := put_selected None m1 (th_dbs T), ps_counters := ?cs[j := c']\<rparr>"
  obtain buf' where b': "replace_key C (of_nat (j * 50 + unat c')) T1 = Inr (?b, T1\<lparr>ps_key := buf'\<rparr>)"
    "rsize buf' = nat (key_size (uc_keys C))"
    using replace_key_ok [OF C(1), of T1 "j * 50 + unat c'"] b(2) by (auto simp: T1_def)
  define m2 where "m2 = snd (rdb_put (l_rdb L) ?b [] m1)"
  define U where "U = T1\<lparr>ps_key := buf', th_dbs := put_selected None m2 (th_dbs T1)\<rparr>"
  have del: "replace_remove L C single None ?a (T\<lparr>ps_engine := e, ps_key := buf\<rparr>) =
      Inr (OK, T\<lparr>ps_engine := e, ps_key := buf, th_dbs := put_selected None m1 (th_dbs T)\<rparr>)"
    using replace_remove_ok [OF C(1,2)] m(1) by (simp add: m1_def)
  have put: "replace_put L C None ?b [] (T1\<lparr>ps_key := buf'\<rparr>) = Inr (OK, U)"
    using replace_put_ok [OF C(1,2), of "T1\<lparr>ps_key := buf'\<rparr>" m1 ?b "[]"] by (simp add: U_def m2_def T1_def put_selected_def)
  have "s_reporter (th_stats U) \<noteq> None"
    using C(6) by (simp add: U_def T1_def)
  from finished_plain [OF this C(7)] obtain S E where
    f: "finished L (uc_stats C) (db (selected (th_dbs U) None)) 1 kOthers U = Inr (U\<lparr>th_stats := S, th_env := E\<rparr>)" "s_reporter S \<noteq> None"
    by blast
  have at: "at_index ?cs (nat (int j)) = Inr c"
    using j(1) by (simp add: at_index_def c_def)
  have "replace_turn L C single None T = Inr (U\<lparr>th_stats := S, th_env := E\<rparr>)"
    using y j(2) at b(1) del b'(1) put f(1)
    by (simp add: replace_turn_def w T1_def c'_def del: of_nat_add of_nat_mult of_int_of_nat_eq)
  moreover have "one_each (l_rdb L) C (length ?cs) (?cs[j := c']) m2"
    using one_each_turn [OF C(1,2,4) j(1) _ c(2) m(2)] c(1) by (simp add: c_def m1_def m2_def)
  then have "replace_inv L C M (nat (uc_numdistinct C)) (U\<lparr>th_stats := S, th_env := E\<rparr>)"
    using assms b'(2) f(2) C(4,5) c(2) set_update_subset_insert [of ?cs j c']
    by (auto simp: replace_inv_def U_def T1_def put_selected_def)
  ultimately show ?thesis
    by (simp add: U_def T1_def)
qed

definition replace_pos ::
  "('g, 'h, 'm, 'c, 'q, 'w, 'i, 'e) plib \<Rightarrow> update_cfg \<Rightarrow> ('w, 'm) master \<Rightarrow> nat \<Rightarrow> ('g, 'h, 'm, 'c, 'q, 'w, 'e) pstate \<Rightarrow> bool" where
  "replace_pos L C M i T \<longleftrightarrow> replace_inv L C M (nat (uc_numdistinct C)) T"

interpretation replaces: counted_body "replace_turn L C single None" "replace_pos L C M"
  by (unfold_locales, unfold replace_pos_def, erule replace_turn_inv, simp add: replace_inv_def)

text \<open>
  Claim C24 (functional).  \<open>RandomReplaceKeys\<close> on an empty database of the benchmark ends, with enough fuel for \<open>FLAGS_num\<close>
  turns, and then exactly one of the fifty keys of every entry is stored, the one its counter names, whatever the
  normal distribution drew.  \<open>DB_MASTER\<close> is left as it was.
\<close>

theorem RandomReplaceKeys_one_each:
  assumes "plain_replace C" and "replace_laws L" and "db (bdb (th_dbs T)) = Some m"
    and "\<forall>k. fst (rdb_get (l_rdb L) k m) = NotFound" and "s_reporter (th_stats T) \<noteq> None" and "gen_inv gen"
    and "0 \<le> uc_num C" and "in_i64 (uc_num C + 1)" and "nat (uc_num C) < fuel"
  shows "\<exists>T' m'. RandomReplaceKeys L C single msg engine gen fuel T = Inr T' \<and> th_master T' = th_master T \<and>
    db (bdb (th_dbs T')) = Some m' \<and> length (ps_counters T') = nat (uc_numdistinct C) \<and>
    (\<forall>j < nat (uc_numdistinct C). \<forall>i < 50. fst (rdb_get (l_rdb L) (number_key C (int (j * 50 + i))) m') = OK \<longleftrightarrow>
       i = unat (ps_counters T' ! j))"
proof -
  let ?n = "nat (uc_numdistinct C)" and ?M = "th_master T"
  obtain g where b: "select_db (l_random L) T = Inr (None, T\<lparr>th_rand := g\<rparr>)"
    using assms(3) by (auto simp: select_db_def SelectDBWithCfh_def split_beta)
  define U where "U = bench_thread.extend (T\<lparr>th_rand := g\<rparr>) (pstate.fields (AllocateKey (uc_keys C)) gen (replicate ?n 0) engine)"
  have "replace_inv L C ?M 0 U"
    using assms(1-6) by (simp add: replace_inv_def U_def bench_thread.defs pstate.defs AllocateKey_def one_each_def)
  then obtain T1 where T1: "replace_fill L C None ?n 0 U = Inr T1" "replace_inv L C ?M ?n T1"
    using replace_fill_ok [of L C ?M 0 U ?n] by (auto simp: U_def bench_thread.defs pstate.defs)
  obtain D c where D: "Duration_new (l_now L) 0 (uc_num C) 0 (clk (th_env T1)) = (D, c)" by (rule prod.exhaust)
  let ?T = "T1\<lparr>th_duration := D, th_env := (th_env T1)\<lparr>clk := c\<rparr>\<rparr>"
  have p0: "replace_pos L C ?M 0 ?T" and d0: "th_duration ?T = fst (Duration_new (l_now L) 0 (uc_num C) 0 (clk (th_env T1)))"
    using T1(2) D by (simp_all add: replace_pos_def replace_inv_def)
  obtain T2 where T2: "bench_loop (l_now L) (uc_granularity C) 1 (replace_turn L C single None) fuel ?T = Inr T2"
    "replace_inv L C ?M ?n T2"
    using replaces.loop_runs [OF p0 d0 assms(7) zero_less_one assms(8,9)] unfolding replace_pos_def by blast
  obtain m2 where m2: "db (bdb (th_dbs T2)) = Some m2" "one_each (l_rdb L) C ?n (ps_counters T2) m2"
    using T2(2) by (auto simp: replace_inv_def)
  have r: "RandomReplaceKeys L C single msg engine gen fuel T = Inr (T2\<lparr>th_stats := AddMessage msg (th_stats T2)\<rparr>)"
    using assms(1) b T1 D T2(1)
    by (auto simp: RandomReplaceKeys_def plain_replace_def U_def [symmetric] replace_inv_def selected_def)
  have l: "length (ps_counters T2) = ?n" "th_master T2 = ?M"
    using T2(2) by (simp_all add: replace_inv_def)
  have "fst (rdb_get (l_rdb L) (number_key C (int (j * 50 + i))) m2) = OK \<longleftrightarrow> i = unat (ps_counters T2 ! j)"
    if "j < ?n" "i < 50" for i j
    using m2(2) that l(1) unfolding one_each_def by (elim allE [of _ "j * 50 + i"]) simp
  then show ?thesis
    using r m2(1) l by (intro exI [of _ "T2\<lparr>th_stats := AddMessage msg (th_stats T2)\<rparr>"] exI [of _ m2]) simp
qed

text \<open>Ten replacements among five entries, the sample always being the middle.\<close>

definition replace_lib :: "(unit, nat, (bytes \<times> bytes) list, unit, unit, unit, nat, unit) plib" where
  "replace_lib = ulib.extend update_lib (plib.fields (\<lambda>e. (5 / 2, e)) (\<lambda>_ _ k m. (OK, filter (\<lambda>(a, _). a \<noteq> k) m)))"

lemma replacer_ready: "plain_replace three_updates" "replace_laws replace_lib"
proof -
  show "plain_replace three_updates"
    by (simp add: plain_replace_def three_updates_def one_write_def four_byte_keys_def valid_cfg_def)
  have "map_of (filter (\<lambda>(a, _). a \<noteq> k) m) k' = (if k' = k then None else map_of m k')" for k k' :: bytes and m :: "(bytes \<times> bytes) list"
    by (induction m) auto
  then show "replace_laws replace_lib"
    using updater_ready(2-4)
    by (simp add: replace_laws_def remove_laws_def replace_lib_def update_lib_simps plib.defs to_i64_def i64_def in_i64_def
        split: option.split)
qed

theorem RandomReplaceKeys_one_each_witness:
  "\<exists>T' m'. RandomReplaceKeys replace_lib three_updates True [] () byte_values 11 reader = Inr T' \<and>
     th_master T' = th_master reader \<and> db (bdb (th_dbs T')) = Some m' \<and> length (ps_counters T') = 5 \<and>
     (\<forall>j < 5. \<forall>i < 50. fst (rdb_get list_rdb (number_key three_updates (int (j * 50 + i))) m') = OK \<longleftrightarrow>
        i = unat (ps_counters T' ! j))"
proof -
  have m: "db (bdb (th_dbs reader)) = Some []" "\<forall>k. fst (rdb_get (l_rdb replace_lib) k []) = NotFound" "l_rdb replace_lib = list_rdb"
    by (simp_all add: reader_def write_start_def replace_lib_def update_lib_simps plib.defs)
  show ?thesis
    using RandomReplaceKeys_one_each [OF replacer_ready m(1,2) updater_ready(9,10), of 11 True "[]" "()"] m(3)
    by (simp add: three_updates_def in_i64_def)
qed

end
