(* ===== verification/Bench_Run.thy ===== *)
theory Bench_Run
  imports Bench_Write
begin

text \<open>
  \<open>Benchmark::Run\<close> of \<open>db_bench_tool.cc\<close>: how the list of benchmarks is taken apart, what each name sets and
  starts, how databases are opened and made fresh, and how often a benchmark is run.  \<open>RunBenchmark\<close>, whose threads
  are the subject of \<open>Bench_Barrier\<close> and whose methods that of the other theories, and the maintenance calls to
  RocksDB are arguments.  Tracing, printing and the compaction filter of \<open>timeseries\<close> are left out.
\<close>

section \<open>Flags, members and methods\<close>

record bench_flags =
  bf_num :: int
  bf_reads :: int
  bf_writes :: int
  bf_deletes :: int
  bf_value_size :: int
  bf_key_size :: int
  bf_batch_size :: int
  bf_threads :: int
  bf_sync :: bool
  bf_compression_ratio :: real
  bf_num_multi_db :: int
  bf_db :: bytes
  bf_use_existing_db :: bool
  bf_use_existing_keys :: bool
  bf_row_cache_size :: int
  bf_disable_auto_compactions :: bool
  bf_merge_operator :: bytes
  bf_trace_file :: bytes

text \<open>The members of \<open>Benchmark\<close> that decide what a benchmark does, and the variable \<open>value_size\<close>.\<close>

record benchmark =
  bm_num :: int
  bm_reads :: int
  bm_writes :: int
  bm_deletes :: int
  bm_readwrites :: int
  bm_value_size :: u32
  bm_key_size :: int
  bm_entries_per_batch :: int
  bm_sync :: bool
  bm_read_operands :: bool
  bm_keys :: "bytes list"

text \<open>The constructor; \<open>deletes_\<close> gets its first value in \<open>Run\<close>.\<close>

definition Benchmark_new :: "bench_flags \<Rightarrow> benchmark" where
  "Benchmark_new F =
     \<lparr>bm_num = bf_num F, bm_reads = (if bf_reads F < 0 then bf_num F else bf_reads F),
      bm_writes = (if bf_writes F < 0 then bf_num F else bf_writes F), bm_deletes = 0,
      bm_readwrites = (if bf_writes F < 0 \<and> bf_reads F < 0 then bf_num F
                       else if bf_reads F < bf_writes F then bf_writes F else bf_reads F),
      bm_value_size = 100, bm_key_size = bf_key_size F, bm_entries_per_batch = 1, bm_sync = False,
      bm_read_operands = False, bm_keys = []\<rparr>"

datatype bench_method =
    M_WriteSeqDeterministic | M_WriteUniqueRandomDeterministic | M_WriteSeq | M_WriteRandom | M_WriteUniqueRandom
  | M_ReadSequential | M_ReadToRowCache | M_ReadReverse | M_ReadRandom | M_ReadRandomFast | M_MultiReadRandom
  | M_MultiReadWhileWriting | M_ApproximateSizeRandom | M_MixGraph | M_IteratorCreation | M_IteratorCreationWhileWriting
  | M_SeekRandom | M_SeekRandomWhileWriting | M_SeekRandomWhileMerging | M_DeleteSeq | M_DeleteRandom
  | M_ReadWhileWriting | M_ReadWhileMerging | M_ReadWhileScanning | M_ReadRandomWriteRandom | M_ReadRandomMergeRandom
  | M_UpdateRandom | M_XORUpdateRandom | M_AppendRandom | M_MergeRandom | M_RandomWithVerify | M_WriteSeqSeekSeq
  | M_Compact | M_Crc32c | M_xxHash | M_xxHash64 | M_xxh3 | M_AcquireLoad | M_Compress | M_Uncompress
  | M_RandomTransaction | M_RandomReplaceKeys | M_TimeSeries | M_Replay | M_GetMergeOperands | M_VerifyChecksum
  | M_VerifyFileChecksums | M_Backup | M_Restore

text \<open>Calls that a name makes at once, and the verification after \<open>RandomTransaction\<close>.\<close>

datatype bench_call =
    CompactAll | CompactLevel int | WaitForCompaction | Flush_dbs | PrintStats string | ResetStats | VerifyDBFromDB
  | PrintStatsHistory | RandomTransactionVerify

section \<open>Taking a list entry apart\<close>

text \<open>The options in brackets: \<open>X\<close> repetitions and \<open>W\<close> runs to warm up.\<close>

fun bench_args :: "bytes list \<Rightarrow> int \<times> int \<Rightarrow> (int \<times> int) outcome" where
  "bench_args [] rw = Inr rw"
| "bench_args (arg # args) (num_repeat, num_warmup) =
     (if arg = [] then bench_args args (num_repeat, num_warmup)
      else if hd arg = of_char CHR ''X'' then bindO (stoi (tl arg)) (\<lambda>n. bench_args args (n, num_warmup))
      else if hd arg = of_char CHR ''W'' then bindO (stoi (tl arg)) (\<lambda>n. bench_args args (num_repeat, n))
      else bench_args args (num_repeat, num_warmup))"

definition bench_spec :: "bytes \<Rightarrow> (bytes \<times> int \<times> int) outcome" where
  "bench_spec name =
     (if name \<noteq> [] \<and> last name = of_char CHR '']''
      then if of_char CHR ''['' \<notin> set name then Inl Process_Exit
           else let base = takeWhile (\<lambda>c. c \<noteq> of_char CHR ''['') name;
                    args = butlast (drop (Suc (length base)) name)
                in bindO (bench_args (getline_all (of_char CHR ''-'') args) (1, 0)) (\<lambda>(r, w). Inr (base, r, w))
      else Inr (name, 1, 0))"

section \<open>What a name starts\<close>

record bench_choice =
  ch_method :: "bench_method option"
  ch_calls :: "bench_call list"
  ch_post :: "bench_call option"
  ch_fresh :: bool
  ch_threads :: int
  ch_bench :: benchmark

text \<open>The members set before every benchmark.\<close>

definition sanitize :: "bench_flags \<Rightarrow> benchmark \<Rightarrow> benchmark" where
  "sanitize F B =
     B\<lparr>bm_num := bf_num F, bm_reads := (if bf_reads F < 0 then bf_num F else bf_reads F),
       bm_writes := (if bf_writes F < 0 then bf_num F else bf_writes F),
       bm_deletes := (if bf_deletes F < 0 then bf_num F else bf_deletes F),
       bm_value_size := of_int (bf_value_size F), bm_key_size := bf_key_size F, bm_entries_per_batch := bf_batch_size F,
       bm_sync := bf_sync F\<rparr>"

definition choice_new :: "bench_flags \<Rightarrow> benchmark \<Rightarrow> bench_choice" where
  "choice_new F B =
     \<lparr>ch_method = None, ch_calls = [], ch_post = None, ch_fresh = False, ch_threads = bf_threads F, ch_bench = B\<rparr>"

text \<open>The names whose branch only sets the method, and those whose branch also adds a thread.\<close>

definition plain_methods :: "(string \<times> bench_method) list" where
  "plain_methods =
     [(''overwrite'', M_WriteRandom), (''readseq'', M_ReadSequential), (''readreverse'', M_ReadReverse),
      (''readrandom'', M_ReadRandom), (''readrandomfast'', M_ReadRandomFast), (''multireadrandom'', M_MultiReadRandom),
      (''approximatesizerandom'', M_ApproximateSizeRandom), (''mixgraph'', M_MixGraph), (''newiterator'', M_IteratorCreation),
      (''seekrandom'', M_SeekRandom), (''deleteseq'', M_DeleteSeq), (''deleterandom'', M_DeleteRandom),
      (''readrandomwriterandom'', M_ReadRandomWriteRandom), (''updaterandom'', M_UpdateRandom),
      (''xorupdaterandom'', M_XORUpdateRandom), (''appendrandom'', M_AppendRandom), (''randomwithverify'', M_RandomWithVerify),
      (''fillseekseq'', M_WriteSeqSeekSeq), (''compact'', M_Compact), (''crc32c'', M_Crc32c), (''xxhash'', M_xxHash),
      (''xxhash64'', M_xxHash64), (''xxh3'', M_xxh3), (''acquireload'', M_AcquireLoad), (''compress'', M_Compress),
      (''uncompress'', M_Uncompress), (''getmergeoperands'', M_GetMergeOperands), (''verifychecksum'', M_VerifyChecksum),
      (''verifyfilechecksums'', M_VerifyFileChecksums), (''backup'', M_Backup), (''restore'', M_Restore)]"

definition extra_thread_methods :: "(string \<times> bench_method) list" where
  "extra_thread_methods =
     [(''multireadwhilewriting'', M_MultiReadWhileWriting), (''newiteratorwhilewriting'', M_IteratorCreationWhileWriting),
      (''seekrandomwhilewriting'', M_SeekRandomWhileWriting), (''seekrandomwhilemerging'', M_SeekRandomWhileMerging),
      (''readwhilewriting'', M_ReadWhileWriting), (''readwhilemerging'', M_ReadWhileMerging),
      (''readwhilescanning'', M_ReadWhileScanning)]"

definition immediate_calls :: "(string \<times> bench_call list) list" where
  "immediate_calls =
     [(''compactall'', [CompactAll]), (''compact0'', [CompactLevel 0]), (''compact1'', [CompactLevel 1]),
      (''waitforcompaction'', [WaitForCompaction]), (''flush'', [Flush_dbs]),
      (''block_cache_entry_stats'', [PrintStats ''rocksdb.block-cache-entry-stats'']), (''stats'', [PrintStats ''rocksdb.stats'']),
      (''resetstats'', [ResetStats]), (''verify'', [VerifyDBFromDB]), (''levelstats'', [PrintStats ''rocksdb.levelstats'']),
      (''memstats'', map PrintStats [''rocksdb.num-immutable-mem-table'', ''rocksdb.cur-size-active-mem-table'',
         ''rocksdb.cur-size-all-mem-tables'', ''rocksdb.size-all-mem-tables'', ''rocksdb.num-entries-active-mem-table'',
         ''rocksdb.num-entries-imm-mem-tables'']),
      (''sstables'', [PrintStats ''rocksdb.sstables'']), (''stats_history'', [PrintStatsHistory])]"

definition lookup_name :: "(string \<times> 'a) list \<Rightarrow> bytes \<Rightarrow> 'a option" where
  "lookup_name t name = map_of (map (\<lambda>(s, x). (bytes_of s, x)) t) name"

text \<open>The names that fill a fresh database.\<close>

definition fill_choice :: "bench_flags \<Rightarrow> bytes \<Rightarrow> bench_choice \<Rightarrow> bench_choice option outcome" where
  "fill_choice F name c =
     (let c = c\<lparr>ch_fresh := True\<rparr>; B = ch_bench c
      in if name = bytes_of ''fillseqdeterministic'' \<or> name = bytes_of ''filluniquerandomdeterministic''
         then if \<not> bf_disable_auto_compactions F then Inl Process_Exit
              else Inr (Some (c\<lparr>ch_threads := min 1 (ch_threads c),
                ch_method := Some (if name = bytes_of ''fillseqdeterministic'' then M_WriteSeqDeterministic
                                   else M_WriteUniqueRandomDeterministic)\<rparr>))
         else if name = bytes_of ''fillseq'' then Inr (Some (c\<lparr>ch_method := Some M_WriteSeq\<rparr>))
         else if name = bytes_of ''fillbatch''
         then Inr (Some (c\<lparr>ch_bench := B\<lparr>bm_entries_per_batch := 1000\<rparr>, ch_method := Some M_WriteSeq\<rparr>))
         else if name = bytes_of ''fillrandom'' then Inr (Some (c\<lparr>ch_method := Some M_WriteRandom\<rparr>))
         else if name = bytes_of ''filluniquerandom'' \<or> name = bytes_of ''fillanddeleteuniquerandom''
         then Inr (Some (c\<lparr>ch_threads := min 1 (ch_threads c), ch_method := Some M_WriteUniqueRandom\<rparr>))
         else if name = bytes_of ''fillsync''
         then Inr (Some (c\<lparr>ch_bench := B\<lparr>bm_num := bm_num B sdiv 1000, bm_sync := True\<rparr>, ch_method := Some M_WriteRandom\<rparr>))
         else if name = bytes_of ''fill100K''
         then Inr (Some (c\<lparr>ch_bench := B\<lparr>bm_num := bm_num B sdiv 1000, bm_value_size := 100000\<rparr>, ch_method := Some M_WriteRandom\<rparr>))
         else if name = bytes_of ''randomreplacekeys'' then Inr (Some (c\<lparr>ch_method := Some M_RandomReplaceKeys\<rparr>))
         else if name = bytes_of ''timeseries'' then Inr (Some (c\<lparr>ch_method := Some M_TimeSeries\<rparr>))
         else Inr None)"

text \<open>The other names; the last branch is the message for an unknown name, which an empty name does not get.\<close>

definition other_choice :: "bench_flags \<Rightarrow> bytes \<Rightarrow> bench_choice \<Rightarrow> bench_choice outcome" where
  "other_choice F name c =
     (let B = ch_bench c
      in if name = bytes_of ''readtorowcache''
         then if \<not> bf_use_existing_keys F \<or> bf_row_cache_size F = 0 then Inl Process_Exit
              else Inr (c\<lparr>ch_method := Some M_ReadToRowCache\<rparr>)
         else if name = bytes_of ''readtocache''
         then Inr (c\<lparr>ch_method := Some M_ReadSequential, ch_threads := 1, ch_bench := B\<lparr>bm_reads := bm_num B\<rparr>\<rparr>)
         else if name = bytes_of ''readmissing''
         then bindO (int_add (bm_key_size B) 1) (\<lambda>k. Inr (c\<lparr>ch_bench := B\<lparr>bm_key_size := k\<rparr>, ch_method := Some M_ReadRandom\<rparr>))
         else if name = bytes_of ''readrandomsmall''
         then Inr (c\<lparr>ch_bench := B\<lparr>bm_reads := bm_reads B sdiv 1000\<rparr>, ch_method := Some M_ReadRandom\<rparr>)
         else if name = bytes_of ''readrandommergerandom''
         then if bf_merge_operator F = [] then Inl Process_Exit else Inr (c\<lparr>ch_method := Some M_ReadRandomMergeRandom\<rparr>)
         else if name = bytes_of ''mergerandom''
         then if bf_merge_operator F = [] then Inl Process_Exit else Inr (c\<lparr>ch_method := Some M_MergeRandom\<rparr>)
         else if name = bytes_of ''randomtransaction''
         then Inr (c\<lparr>ch_method := Some M_RandomTransaction, ch_post := Some RandomTransactionVerify\<rparr>)
         else if name = bytes_of ''replay''
         then if 1 < ch_threads c \<or> bf_trace_file F = [] then Inl Process_Exit else Inr (c\<lparr>ch_method := Some M_Replay\<rparr>)
         else if name = bytes_of ''readrandomoperands''
         then Inr (c\<lparr>ch_bench := B\<lparr>bm_read_operands := True\<rparr>, ch_method := Some M_ReadRandom\<rparr>)
         else if name \<noteq> [] then Inl Process_Exit else Inr c)"

definition dispatch :: "bench_flags \<Rightarrow> bytes \<Rightarrow> benchmark \<Rightarrow> bench_choice outcome" where
  "dispatch F name B =
     (let c = choice_new F B
      in case lookup_name plain_methods name of Some m \<Rightarrow> Inr (c\<lparr>ch_method := Some m\<rparr>)
       | None \<Rightarrow> (case lookup_name extra_thread_methods name of
             Some m \<Rightarrow> bindO (int_add (ch_threads c) 1) (\<lambda>n. Inr (c\<lparr>ch_threads := n, ch_method := Some m\<rparr>))
           | None \<Rightarrow> (case lookup_name immediate_calls name of Some cs \<Rightarrow> Inr (c\<lparr>ch_calls := cs\<rparr>)
               | None \<Rightarrow> bindO (fill_choice F name c) (\<lambda>r. case r of Some c \<Rightarrow> Inr c | None \<Rightarrow> other_choice F name c))))"

text \<open>What is run for one entry of the list: the choice, the repetitions and the runs to warm up.\<close>

definition prepare :: "bench_flags \<Rightarrow> bytes \<Rightarrow> benchmark \<Rightarrow> (bench_choice \<times> int \<times> int) outcome" where
  "prepare F entry B =
     bindO (bench_spec entry) (\<lambda>(name, r, w). bindO (dispatch F name (sanitize F B)) (\<lambda>c. Inr (c, r, w)))"

section \<open>Opening and making fresh\<close>

record ('h, 'm, 'w) session =
  se_flags :: bench_flags
  se_dbflags :: db_flags
  se_bench :: benchmark
  se_dbs :: "('h, 'm) bench_dbs"
  se_master :: "('w, 'm) master"

text \<open>
  RocksDB and the driver, the ways of opening that bypass \<open>DB_MASTER\<close>, the keys an iterator over a database shows,
  the options, \<open>RunBenchmark\<close> and the calls made at once.
\<close>

record ('h, 'm, 'w) run_lib =
  rn_rdb :: "('w, 'm) rocksdb"
  rn_os :: "'w os"
  rn_ext :: "db_flags \<Rightarrow> 'w \<Rightarrow> (Status \<times> 'h option list \<times> 'm option \<times> 'm option) \<times> 'w"
  rn_keys :: "'m \<Rightarrow> bytes list"
  rn_options :: bench_options
  rn_run :: "bench_method \<Rightarrow> int \<Rightarrow> ('h, 'm, 'w) session \<Rightarrow> ('h, 'm, 'w) session outcome"
  rn_call :: "bench_call \<Rightarrow> ('h, 'm, 'w) session \<Rightarrow> ('h, 'm, 'w) session outcome"

fun open_multi ::
  "('h, 'm, 'w) run_lib \<Rightarrow> bytes \<Rightarrow> nat list \<Rightarrow> ('h, 'm) DBWithColumnFamilies list \<times> ('w, 'm) master \<times> db_flags \<Rightarrow>
   (('h, 'm) DBWithColumnFamilies list \<times> ('w, 'm) master \<times> db_flags) outcome" where
  "open_multi R path [] st = Inr st"
| "open_multi R path (i # is) (ds, M, F) =
     bindO (OpenDb (rn_rdb R) (rn_os R) (rn_ext R) F (rn_options R) (GetPathForMultiple path i) DBWithColumnFamilies_new M)
       (\<lambda>(d, M, F). open_multi R path is (ds @ [d], M, F))"

text \<open>The keys of a database that is there already are added to those known, and their number becomes \<open>num\<close>.\<close>

definition existing_keys_of :: "('h, 'm, 'w) run_lib \<Rightarrow> ('h, 'm, 'w) session \<Rightarrow> ('h, 'm, 'w) session outcome" where
  "existing_keys_of R S =
     (if bf_use_existing_keys (se_flags S)
      then case db (bdb (se_dbs S)) of None \<Rightarrow> Inl Assert_Failed
           | Some m \<Rightarrow> let ks = bm_keys (se_bench S) @ rn_keys R m
                      in Inr (S\<lparr>se_bench := (se_bench S)\<lparr>bm_keys := ks\<rparr>, se_flags := (se_flags S)\<lparr>bf_num := int (length ks)\<rparr>\<rparr>)
      else Inr S)"

definition Open_dbs :: "('h, 'm, 'w) run_lib \<Rightarrow> ('h, 'm, 'w) session \<Rightarrow> ('h, 'm, 'w) session outcome" where
  "Open_dbs R S =
     bindO
       (if bf_num_multi_db (se_flags S) \<le> 1
        then bindO (OpenDb (rn_rdb R) (rn_os R) (rn_ext R) (se_dbflags S) (rn_options R) (bf_db (se_flags S)) (bdb (se_dbs S))
                      (se_master S))
               (\<lambda>(d, M, F). Inr (S\<lparr>se_dbs := (se_dbs S)\<lparr>bdb := d\<rparr>, se_master := M, se_dbflags := F\<rparr>))
        else bindO (open_multi R (bf_db (se_flags S)) [0..<nat (bf_num_multi_db (se_flags S))] ([], se_master S, se_dbflags S))
               (\<lambda>(ds, M, F). Inr (S\<lparr>se_dbs := (se_dbs S)\<lparr>multi_dbs := ds\<rparr>, se_master := M, se_dbflags := F\<rparr>)))
       (existing_keys_of R)"

definition destroy_path :: "('h, 'm, 'w) run_lib \<Rightarrow> bytes \<Rightarrow> ('w, 'm) master \<Rightarrow> ('w, 'm) master" where
  "destroy_path R path M =
     (let (_, w) = rdb_destroy (rn_rdb R) path (Options.truncate (rn_options R)) (world (ilsm_db M))
      in M\<lparr>ilsm_db := (ilsm_db M)\<lparr>world := w\<rparr>\<rparr>)"

text \<open>Destroying what is open; the status of \<open>DestroyDB_Master\<close> is ignored.\<close>

definition destroy_dbs :: "('h, 'm, 'w) run_lib \<Rightarrow> ('h, 'm, 'w) session \<Rightarrow> ('h, 'm, 'w) session outcome" where
  "destroy_dbs R S =
     bindO
       (if db (bdb (se_dbs S)) \<noteq> None
        then let M = destroy_path R (bf_db (se_flags S)) (se_master S)
             in bindO (DestroyDB_Master (rn_rdb R) (Options.truncate (rn_options R)) M) (\<lambda>(_, M).
                  Inr (S\<lparr>se_dbs := (se_dbs S)\<lparr>bdb := DeleteDBs (bdb (se_dbs S))\<rparr>, se_master := M\<rparr>))
        else Inr S)
       (\<lambda>S. Inr (S\<lparr>se_master := fold (\<lambda>i. destroy_path R (GetPathForMultiple (bf_db (se_flags S)) i))
                     [0..<length (multi_dbs (se_dbs S))] (se_master S),
                   se_dbs := (se_dbs S)\<lparr>multi_dbs := []\<rparr>\<rparr>))"

text \<open>A fresh database: with \<open>use_existing_db\<close> the benchmark is skipped, but the database is opened once more.\<close>

definition make_fresh ::
  "('h, 'm, 'w) run_lib \<Rightarrow> bench_method option \<Rightarrow> ('h, 'm, 'w) session \<Rightarrow>
   (bench_method option \<times> ('h, 'm, 'w) session) outcome" where
  "make_fresh R m S =
     (if bf_use_existing_db (se_flags S) then bindO (Open_dbs R S) (\<lambda>S. Inr (None, S))
      else bindO (destroy_dbs R S) (\<lambda>S. bindO (Open_dbs R S) (\<lambda>S. Inr (m, S))))"

section \<open>Running\<close>

fun repeat_run ::
  "('h, 'm, 'w) run_lib \<Rightarrow> bench_method \<Rightarrow> int \<Rightarrow> nat \<Rightarrow> ('h, 'm, 'w) session \<Rightarrow> ('h, 'm, 'w) session outcome" where
  "repeat_run R m threads 0 S = Inr S"
| "repeat_run R m threads (Suc n) S = bindO (rn_run R m threads S) (repeat_run R m threads n)"

fun calls_run ::
  "('h, 'm, 'w) run_lib \<Rightarrow> bench_call list \<Rightarrow> ('h, 'm, 'w) session \<Rightarrow> ('h, 'm, 'w) session outcome" where
  "calls_run R [] S = Inr S"
| "calls_run R (c # cs) S = bindO (rn_call R c S) (calls_run R cs)"

definition run_entry ::
  "('h, 'm, 'w) run_lib \<Rightarrow> bytes \<Rightarrow> ('h, 'm, 'w) session \<Rightarrow> ('h, 'm, 'w) session outcome" where
  "run_entry R entry S =
     bindO (prepare (se_flags S) entry (se_bench S)) (\<lambda>(c, num_repeat, num_warmup).
     bindO (calls_run R (ch_calls c) (S\<lparr>se_bench := ch_bench c\<rparr>)) (\<lambda>S.
     bindO (if ch_fresh c then make_fresh R (ch_method c) S else Inr (ch_method c, S)) (\<lambda>(m, S).
     bindO (case m of None \<Rightarrow> Inr S
            | Some m \<Rightarrow> bindO (repeat_run R m (ch_threads c) (nat num_warmup) S) (repeat_run R m (ch_threads c) (nat num_repeat)))
       (\<lambda>S. case ch_post c of None \<Rightarrow> Inr S | Some p \<Rightarrow> rn_call R p S))))"

fun run_entries ::
  "('h, 'm, 'w) run_lib \<Rightarrow> bytes list \<Rightarrow> ('h, 'm, 'w) session \<Rightarrow> ('h, 'm, 'w) session outcome" where
  "run_entries R [] S = Inr S"
| "run_entries R (e # es) S = bindO (run_entry R e S) (run_entries R es)"

definition Run :: "('h, 'm, 'w) run_lib \<Rightarrow> bytes \<Rightarrow> ('h, 'm, 'w) session \<Rightarrow> ('h, 'm, 'w) session outcome" where
  "Run R benchmarks S =
     (if 1 < bf_compression_ratio (se_flags S) then Inl Process_Exit
      else bindO (Open_dbs R S) (run_entries R (getline_all (of_char CHR '','') benchmarks)))"

section \<open>List entries\<close>

lemma split_at_first:
  "d \<notin> set a \<Longrightarrow> takeWhile (\<lambda>c. c \<noteq> d) (a @ d # s) = a" "d \<notin> set a \<Longrightarrow> dropWhile (\<lambda>c. c \<noteq> d) (a @ d # s) = d # s"
  by (induction a) auto

lemma getline_all_step:
  assumes "d \<notin> set a"
  shows "getline_all d (a @ d # s) = a # getline_all d s"
  using split_at_first [OF assms, of s] by (subst getline_all.simps) simp

lemma getline_all_last:
  assumes "d \<notin> set a" and "a \<noteq> []"
  shows "getline_all d a = [a]"
proof -
  have "takeWhile (\<lambda>c. c \<noteq> d) a = a" "dropWhile (\<lambda>c. c \<noteq> d) a = []"
    using assms(1) by auto
  then have "getline_all d a = a # getline_all d []"
    using assms(2) by (subst getline_all.simps) (simp only: if_False drop_Nil)
  then show ?thesis
    by (simp add: getline_all.simps [of d "[]"])
qed

lemma to_string_no_dash: "(45 :: u8) \<notin> set (to_string n)"
proof
  assume "45 \<in> set (to_string n)"
  then obtain d where d: "d < 10" "(45 :: u8) = 48 + of_nat d"
    using to_string_digits by blast
  have "is_digit (45 :: u8)"
    unfolding d(2) by (rule digit_byte(1) [OF d(1)])
  then show False
    by (simp add: is_digit_def)
qed

text \<open>
  Claim C31 (roundtrip).  An entry of the list is read as it is meant: a name followed by \<open>[Xr-Ww]\<close> gives that name, \<open>r\<close>
  repetitions and \<open>w\<close> runs to warm up, for all numbers an \<open>int\<close> can hold and all names without a bracket, and a name
  alone is run once.
\<close>

theorem bench_spec_roundtrip:
  assumes "of_char CHR ''['' \<notin> set name" and "of_char CHR '']'' \<notin> set name" and "r < 2147483648" and "w < 2147483648"
  shows "bench_spec (name @ bytes_of ''[X'' @ to_string r @ bytes_of ''-W'' @ to_string w @ bytes_of '']'') = Inr (name, int r, int w) \<and>
    bench_spec name = Inr (name, 1, 0)"
proof -
  let ?a = "88 # to_string r" and ?b = "87 # to_string w"
  let ?e = "name @ bytes_of ''[X'' @ to_string r @ bytes_of ''-W'' @ to_string w @ bytes_of '']''"
  have e: "?e = name @ 91 # (?a @ 45 # ?b) @ [93]"
    by (simp add: bytes_of_def)
  have t: "takeWhile (\<lambda>c. c \<noteq> 91) ?e = name"
    unfolding e using assms(1) by (intro split_at_first) simp
  have "getline_all 45 (?a @ 45 # ?b) = ?a # getline_all 45 ?b"
    using to_string_no_dash [of r] by (intro getline_all_step) simp
  also have "getline_all 45 ?b = [?b]"
    using to_string_no_dash [of w] by (intro getline_all_last) simp_all
  finally have g: "getline_all 45 (?a @ 45 # ?b) = [?a, ?b]" .
  have "bench_args [?a, ?b] (1, 0) = Inr (int r, int w)"
    using stoi_to_string [OF assms(3)] stoi_to_string [OF assms(4)] by simp
  moreover have "butlast (drop (Suc (length name)) ?e) = ?a @ 45 # ?b"
  proof -
    have "drop (Suc (length name)) ?e = (?a @ 45 # ?b) @ [93]"
      unfolding e by simp
    then show ?thesis
      by (simp only: butlast_snoc)
  qed
  moreover have "last ?e = 93" "?e \<noteq> []" "91 \<in> set ?e"
    unfolding e by simp_all
  ultimately have "bench_spec ?e = Inr (name, int r, int w)"
    using t g by (simp add: bench_spec_def)
  moreover have "bench_spec name = Inr (name, 1, 0)"
  proof -
    have "name \<noteq> [] \<longrightarrow> last name \<noteq> 93"
      using assms(2) last_in_set by fastforce
    then show ?thesis
      by (auto simp: bench_spec_def)
  qed
  ultimately show ?thesis ..
qed

theorem bench_spec_roundtrip_witness:
  "bench_spec (bytes_of ''readrandom'' @ bytes_of ''[X'' @ to_string 3 @ bytes_of ''-W'' @ to_string 2 @ bytes_of '']'') =
     Inr (bytes_of ''readrandom'', 3, 2)"
  using bench_spec_roundtrip [of "bytes_of ''readrandom''" 3 2] by (simp add: bytes_of_def)

section \<open>What earlier benchmarks leave behind\<close>

text \<open>The members that \<open>Run\<close> does not set before every benchmark.\<close>

definition carry :: "benchmark \<Rightarrow> benchmark \<Rightarrow> benchmark" where
  "carry B C = C\<lparr>bm_read_operands := bm_read_operands C \<or> bm_read_operands B, bm_readwrites := bm_readwrites B,
     bm_keys := bm_keys B\<rparr>"

definition carry_choice :: "benchmark \<Rightarrow> bench_choice \<Rightarrow> bench_choice" where
  "carry_choice B c = c\<lparr>ch_bench := carry B (ch_bench c)\<rparr>"

lemma sanitize_carry: "sanitize F B = carry B (sanitize F (Benchmark_new G))"
  by (simp add: sanitize_def carry_def Benchmark_new_def)

lemma fill_choice_carry:
  "fill_choice F name (carry_choice B c) =
     (case fill_choice F name c of Inl e \<Rightarrow> Inl e | Inr None \<Rightarrow> Inr None | Inr (Some c) \<Rightarrow> Inr (Some (carry_choice B c)))"
  by (simp add: fill_choice_def carry_choice_def carry_def Let_def)

lemma other_choice_carry:
  "other_choice F name (carry_choice B c) =
     (case other_choice F name c of Inl e \<Rightarrow> Inl e | Inr c \<Rightarrow> Inr (carry_choice B c))"
  unfolding other_choice_def Let_def if_distrib [of "\<lambda>x. case x of Inl e \<Rightarrow> Inl e | Inr c \<Rightarrow> Inr (carry_choice B c)"]
  by (intro if_cong) (simp_all add: carry_choice_def carry_def int_add_def)

lemma dispatch_carry:
  "dispatch F name (carry B C) = (case dispatch F name C of Inl e \<Rightarrow> Inl e | Inr c \<Rightarrow> Inr (carry_choice B c))"
proof -
  have c: "choice_new F (carry B C) = carry_choice B (choice_new F C)"
    by (simp add: choice_new_def carry_choice_def)
  have f: "bindO (fill_choice F name (carry_choice B c')) (case_option (other_choice F name (carry_choice B c')) Inr) =
      (case bindO (fill_choice F name c') (case_option (other_choice F name c') Inr) of
         Inl e \<Rightarrow> Inl e | Inr c \<Rightarrow> Inr (carry_choice B c))" for c'
    unfolding fill_choice_carry other_choice_carry
    by (cases "fill_choice F name c'") (auto split: option.splits)
  show ?thesis
    unfolding dispatch_def c Let_def
    by (cases "lookup_name plain_methods name"; cases "lookup_name extra_thread_methods name"; cases "lookup_name immediate_calls name")
       (simp_all add: f, simp_all add: carry_choice_def int_add_def)
qed

text \<open>
  What an entry of the list starts depends on the flags and on the entry, whatever ran
  before it, with one exception: \<open>read_operands_\<close>, once set by \<open>readrandomoperands\<close>, is never cleared, so all reads after it
  ask for merge operands.  (\<open>readwrites_\<close> and the keys found at opening are meant to stay.)
\<close>

theorem prepare_history:
  "prepare F entry B =
     (case prepare F entry (Benchmark_new F) of Inl e \<Rightarrow> Inl e
      | Inr (c, r, w) \<Rightarrow>
          Inr (c\<lparr>ch_bench := (ch_bench c)\<lparr>bm_read_operands := bm_read_operands (ch_bench c) \<or> bm_read_operands B,
                 bm_readwrites := bm_readwrites B, bm_keys := bm_keys B\<rparr>\<rparr>, r, w))"
proof (cases "bench_spec entry")
  case (Inr x)
  obtain name r w where x: "x = (name, r, w)" by (cases x)
  have "dispatch F name (sanitize F B) =
      (case dispatch F name (sanitize F (Benchmark_new F)) of Inl e \<Rightarrow> Inl e | Inr c \<Rightarrow> Inr (carry_choice B c))"
    by (simp add: sanitize_carry [of F B F] dispatch_carry)
  then show ?thesis
    by (cases "dispatch F name (sanitize F (Benchmark_new F))")
       (simp_all add: prepare_def Inr x carry_choice_def carry_def)
qed (simp add: prepare_def)

section \<open>How much fillsync and fill100K write\<close>

lemma name_alone: "of_char CHR '']'' \<notin> set name \<Longrightarrow> bench_spec name = Inr (name, 1, 0)"
  using last_in_set by (fastforce simp: bench_spec_def)

lemma no_table_name:
  "lookup_name plain_methods (bytes_of ''fillsync'') = None" "lookup_name extra_thread_methods (bytes_of ''fillsync'') = None"
  "lookup_name immediate_calls (bytes_of ''fillsync'') = None" "lookup_name plain_methods (bytes_of ''fill100K'') = None"
  "lookup_name extra_thread_methods (bytes_of ''fill100K'') = None" "lookup_name immediate_calls (bytes_of ''fill100K'') = None"
  "lookup_name plain_methods (bytes_of ''seekscanrandomreadseq'') = None"
  "lookup_name extra_thread_methods (bytes_of ''seekscanrandomreadseq'') = None"
  "lookup_name immediate_calls (bytes_of ''seekscanrandomreadseq'') = None"
  "lookup_name plain_methods (bytes_of ''readmissing'') = None" "lookup_name extra_thread_methods (bytes_of ''readmissing'') = None"
  "lookup_name immediate_calls (bytes_of ''readmissing'') = None"
  by code_simp+

lemma dispatch_fills:
  "dispatch F (bytes_of ''fillsync'') B =
     Inr ((choice_new F B)\<lparr>ch_fresh := True, ch_bench := B\<lparr>bm_num := bm_num B sdiv 1000, bm_sync := True\<rparr>, ch_method := Some M_WriteRandom\<rparr>)"
  "dispatch F (bytes_of ''fill100K'') B =
     Inr ((choice_new F B)\<lparr>ch_fresh := True, ch_bench := B\<lparr>bm_num := bm_num B sdiv 1000, bm_value_size := 100000\<rparr>,
       ch_method := Some M_WriteRandom\<rparr>)"
  "dispatch F (bytes_of ''seekscanrandomreadseq'') B = Inl Process_Exit"
  unfolding dispatch_def no_table_name Let_def
  by (simp_all add: fill_choice_def other_choice_def choice_new_def bytes_of_def)

text \<open>
  \<open>fillsync\<close> and \<open>fill100K\<close> divide the number of keys by 1000, but not the number of writes:
  unless \<open>writes\<close> is given they make as many writes as \<open>fillrandom\<close>, where the description of the flag promises a
  thousandth.
\<close>

theorem fillsync_writes_all:
  assumes "name = bytes_of ''fillsync'' \<or> name = bytes_of ''fill100K''" and "bf_writes F < 0" and "0 < bf_num F"
  shows "\<exists>c. prepare F name B = Inr (c, 1, 0) \<and> ch_method c = Some M_WriteRandom \<and> bm_num (ch_bench c) = bf_num F div 1000 \<and>
    (\<forall>C. wc_writes C = bm_writes (ch_bench c) \<and> wc_num C = bm_num (ch_bench c) \<longrightarrow> num_ops_of C = bf_num F)"
proof -
  have "bench_spec name = Inr (name, 1, 0)"
    using assms(1) by (intro name_alone) (auto simp: bytes_of_def)
  moreover obtain c where "dispatch F name (sanitize F B) = Inr c" "ch_method c = Some M_WriteRandom"
    "bm_num (ch_bench c) = bf_num F sdiv 1000" "bm_writes (ch_bench c) = bf_num F"
    using assms(1,2) dispatch_fills [of F "sanitize F B"] by (auto simp: sanitize_def choice_new_def)
  moreover have "bf_num F sdiv 1000 = bf_num F div 1000"
    using assms(3) by (simp add: signed_divide_int_def)
  ultimately show ?thesis
    using assms(3) by (simp add: prepare_def num_ops_of_def)
qed

definition some_flags :: bench_flags where
  "some_flags =
     \<lparr>bf_num = 1000000, bf_reads = -1, bf_writes = -1, bf_deletes = -1, bf_value_size = 100, bf_key_size = 16, bf_batch_size = 1,
      bf_threads = 1, bf_sync = False, bf_compression_ratio = 1 / 2, bf_num_multi_db = 0, bf_db = bytes_of ''/tmp/db'',
      bf_use_existing_db = False, bf_use_existing_keys = False, bf_row_cache_size = 0, bf_disable_auto_compactions = False,
      bf_merge_operator = [], bf_trace_file = []\<rparr>"

theorem fillsync_writes_all_witness:
  "\<exists>c. prepare some_flags (bytes_of ''fillsync'') (Benchmark_new some_flags) = Inr (c, 1, 0) \<and> bm_num (ch_bench c) = 1000"
  using fillsync_writes_all [of "bytes_of ''fillsync''" some_flags "Benchmark_new some_flags"] by (auto simp: some_flags_def)

lemma prepare_readmissing:
  assumes "int_range (bf_key_size F + 1)"
  shows "\<exists>c. prepare F (bytes_of ''readmissing'') B = Inr (c, 1, 0) \<and> ch_method c = Some M_ReadRandom \<and>
    bm_key_size (ch_bench c) = bf_key_size F + 1"
proof -
  have "bench_spec (bytes_of ''readmissing'') = Inr (bytes_of ''readmissing'', 1, 0)"
    by (intro name_alone) (simp add: bytes_of_def)
  moreover have "dispatch F (bytes_of ''readmissing'') (sanitize F B) =
      Inr ((choice_new F (sanitize F B))\<lparr>ch_bench := (sanitize F B)\<lparr>bm_key_size := bf_key_size F + 1\<rparr>, ch_method := Some M_ReadRandom\<rparr>)"
    unfolding dispatch_def no_table_name Let_def using assms
    by (simp add: fill_choice_def other_choice_def choice_new_def bytes_of_def sanitize_def int_add_def)
  ultimately show ?thesis
    by (simp add: prepare_def)
qed

lemma prepare_readmissing_only:
  assumes "prepare F (bytes_of ''readmissing'') B = Inr (c, r, w)"
  shows "ch_method c = Some M_ReadRandom" and "bm_key_size (ch_bench c) = bf_key_size F + 1"
proof -
  have "bench_spec (bytes_of ''readmissing'') = Inr (bytes_of ''readmissing'', 1, 0)"
    by (intro name_alone) (simp add: bytes_of_def)
  then have "dispatch F (bytes_of ''readmissing'') (sanitize F B) = Inr c"
    using assms by (auto simp: prepare_def bindO_eq_Inr)
  then have "bindO (int_add (bf_key_size F) 1) (\<lambda>k. Inr ((choice_new F (sanitize F B))\<lparr>ch_bench := (sanitize F B)\<lparr>bm_key_size := k\<rparr>,
      ch_method := Some M_ReadRandom\<rparr>)) = Inr c"
    unfolding dispatch_def no_table_name Let_def
    by (simp add: fill_choice_def other_choice_def choice_new_def bytes_of_def sanitize_def)
  then show "ch_method c = Some M_ReadRandom" "bm_key_size (ch_bench c) = bf_key_size F + 1"
    by (auto simp: bindO_eq_Inr int_add_def split: if_splits)
qed

section \<open>The default list\<close>

text \<open>The default of the flag \<open>benchmarks\<close>; the comma after \<open>seekscanrandom\<close> is missing.\<close>

definition default_benchmarks :: string where
  "default_benchmarks =
     ''fillseq,fillseqdeterministic,fillsync,fillrandom,filluniquerandomdeterministic,overwrite,readrandom,newiterator,'' @
     ''newiteratorwhilewriting,seekrandom,seekrandomwhilewriting,seekrandomwhilemerging,seekscanrandomreadseq,readreverse,'' @
     ''compact,compactall,flush,compact0,compact1,waitforcompaction,multireadrandom,mixgraph,readseq,readtorowcache,'' @
     ''readtocache,readreverse,readwhilewriting,readwhilemerging,readwhilescanning,readrandomwriterandom,updaterandom,'' @
     ''xorupdaterandom,approximatesizerandom,randomwithverify,fill100K,crc32c,xxhash,xxhash64,xxh3,compress,uncompress,'' @
     ''acquireload,fillseekseq,randomtransaction,randomreplacekeys,timeseries,getmergeoperands,''"

lemma run_entries_fails:
  assumes "\<forall>S. \<exists>e. run_entry R x S = Inl e" and "x \<in> set es"
  shows "\<exists>e. run_entries R es S = Inl e"
  using assms(2)
proof (induction es arbitrary: S)
  case (Cons y es)
  show ?case
  proof (cases "run_entry R y S")
    case (Inr S')
    then have "x \<in> set es"
      using Cons.prems assms(1) by (metis Inl_Inr_False set_ConsD)
    then show ?thesis
      using Cons.IH Inr by simp
  qed simp
qed simp

text \<open>
  The default list of benchmarks cannot be run to its end, whatever the other flags are: it contains
  the entry \<open>seekscanrandomreadseq\<close>, which no branch knows, and the process exits there at the latest.
\<close>

theorem Run_default_exits:
  "\<exists>e. Run R (bytes_of default_benchmarks) S = Inl e"
proof -
  let ?x = "bytes_of ''seekscanrandomreadseq''"
  have "bench_spec ?x = Inr (?x, 1, 0)"
    by (intro name_alone) (simp add: bytes_of_def)
  then have "\<forall>S. \<exists>e. run_entry R ?x S = Inl e"
    by (simp add: run_entry_def prepare_def dispatch_fills)
  moreover have "?x \<in> set (getline_all (of_char CHR '','') (bytes_of default_benchmarks))"
    by code_simp
  ultimately show ?thesis
    using run_entries_fails by (cases "Open_dbs R S") (auto simp: Run_def)
qed

section \<open>Fresh databases\<close>

text \<open>A session with one database of each kind, opened without the flags that bypass \<open>DB_MASTER\<close>, and openings that succeed.\<close>

definition plain_session :: "('h, 'm, 'w) run_lib \<Rightarrow> ('h, 'm, 'w) session \<Rightarrow> bool" where
  "plain_session R S \<longleftrightarrow>
     plain_flags (se_dbflags S) \<and> fl_num_vlsm (se_dbflags S) = 1 \<and> bf_num_multi_db (se_flags S) \<le> 1 \<and> multi_dbs (se_dbs S) = [] \<and>
     (\<forall>opts name w. fst (fst (rdb_open (rn_rdb R) opts name w)) = OK)"

lemma OpenDb_plain:
  assumes "plain_flags F" and "fl_num_vlsm F = 1" and "\<forall>opts name w. fst (fst (rdb_open rdb opts name w)) = OK"
  shows "\<exists>M'. OpenDb rdb os ext_open F options name d M =
      Inr (d\<lparr>db := snd (fst (rdb_open rdb (Options.truncate (bg_options F options)) name (world (ilsm_db M))))\<rparr>, M', F) \<and>
    kache_flag M' = 0 \<and> hm_table (keyTracker M') = hm_table (keyTracker M) \<and>
    rollback_threads M' = (if checker_set M then rollback_threads M else rollback_threads M + 1)"
  using assms by (auto simp: OpenDb_def plain_flags_def master_Open_def open_instances_def Let_def split_beta)

lemma destroy_dbs_plain:
  assumes "db (bdb (se_dbs S)) \<noteq> None" and "multi_dbs (se_dbs S) = []" and "dbptr (se_master S) \<noteq> None"
  shows "\<exists>S'. destroy_dbs R S = Inr S' \<and> se_flags S' = se_flags S \<and> se_dbflags S' = se_dbflags S \<and> multi_dbs (se_dbs S') = [] \<and>
    keyTracker (se_master S') = keyTracker (se_master S) \<and> rollback_threads (se_master S') = rollback_threads (se_master S) \<and>
    checker_set (se_master S') = checker_set (se_master S)"
  using assms by (auto simp: destroy_dbs_def destroy_path_def DestroyDB_Master_def Let_def split_beta)


definition list_run_lib :: "(nat, (bytes \<times> bytes) list, unit) run_lib" where
  "list_run_lib =
     \<lparr>rn_rdb = list_rdb, rn_os = ok_os, rn_ext = (\<lambda>_ w. ((OK, [], Some [], None), w)), rn_keys = map fst,
      rn_options = some_bench_options, rn_run = (\<lambda>_ _. Inr), rn_call = (\<lambda>_. Inr)\<rparr>"

definition some_session :: "(nat, (bytes \<times> bytes) list, unit) session" where
  "some_session =
     \<lparr>se_flags = some_flags, se_dbflags = default_flags\<lparr>fl_num_vlsm := 1\<rparr>, se_bench = Benchmark_new some_flags,
      se_dbs = \<lparr>bdb = DBWithColumnFamilies_new\<lparr>db := Some []\<rparr>, multi_dbs = []\<rparr>,
      se_master = started\<lparr>keyTracker := Insert hm_new 5 []\<rparr>\<rparr>"


section \<open>Existing keys\<close>

text \<open>
  With \<open>use_existing_keys\<close> the keys are taken from the benchmark's own database.  The write benchmarks fill that of
  \<open>DB_MASTER\<close>, so after a load it is empty: \<open>num\<close> becomes 0, and the first random key is a division by zero.
\<close>

lemma existing_keys_none:
  assumes "plain_session R S" and "bf_use_existing_keys (se_flags S)" and "bm_keys (se_bench S) = []"
    and "\<forall>opts w. snd (fst (rdb_open (rn_rdb R) opts (bf_db (se_flags S)) w)) = Some d" and "rn_keys R d = []"
  shows "\<exists>S'. Open_dbs R S = Inr S' \<and> bf_num (se_flags S') = 0 \<and>
    (\<forall>G e g. GetRandomKey G e (bf_num (se_flags S')) g = Inl Div_By_Zero)"
proof -
  have S: "plain_flags (se_dbflags S)" "fl_num_vlsm (se_dbflags S) = 1" "bf_num_multi_db (se_flags S) \<le> 1"
    "\<forall>opts name w. fst (fst (rdb_open (rn_rdb R) opts name w)) = OK"
    using assms(1) by (simp_all add: plain_session_def)
  obtain M' where "OpenDb (rn_rdb R) (rn_os R) (rn_ext R) (se_dbflags S) (rn_options R) (bf_db (se_flags S)) (bdb (se_dbs S))
      (se_master S) = Inr ((bdb (se_dbs S))\<lparr>db := Some d\<rparr>, M', se_dbflags S)"
    using OpenDb_plain [OF S(1,2,4), of "rn_os R" "rn_ext R" "rn_options R" "bf_db (se_flags S)" "bdb (se_dbs S)" "se_master S"] assms(4)
    by auto
  then show ?thesis
    using assms(2,3,5) S(3) by (simp add: Open_dbs_def existing_keys_of_def GetRandomKey_def split_beta Let_def)
qed

end
