(* ===== verification/Lifecycle.thy ===== *)
theory Lifecycle
  imports KV_Prelude
begin

text \<open>
  The life of the roll-back thread across \<open>DB_MASTER::Open\<close> and \<open>DB_MASTER::DestroyDB_Master\<close>
  (\<open>db_impl_master.cc\<close>).  The thread is started by the first \<open>Open\<close>, detached, and told to end by the flag
  \<open>rollback_should_exit\<close>, which \<open>DestroyDB_Master\<close> raises and the next \<open>Open\<close> lowers; nobody waits for it.  It is also
  the only caller of \<open>Monitor_Consumer\<close>.  \<open>db_bench\<close> destroys and opens again before every benchmark that wants
  a fresh database.  Both sides are step relations over what they share: the flag and the state of
  \<open>dbptr_array[0]\<close>.  Every \<open>DB::Open\<close> succeeds in this model.
\<close>

section \<open>State\<close>

datatype pointer = Valid | Freed | Null

text \<open>Where \<open>Rollback_Consumer\<close> stands; \<open>R_Fault\<close> is a call through a pointer that is not valid.\<close>

datatype roll_pc = R_None | R_Test | R_Monitor | R_Check | R_Work | R_Gone | R_Fault

text \<open>
  Where the owner of the object stands: no database open, in \<open>Open\<close> before the flag is lowered and before the
  thread is started, in use, in \<open>DestroyDB_Master\<close> before the database is deleted and before the pointer is reset.
\<close>

datatype owner_pc = O_Closed | O_Lower | O_Start | O_Use | O_Delete | O_Reset

record life =
  lf_exit :: bool
  lf_checker :: bool
  lf_ptr :: pointer
  lf_roll :: roll_pc
  lf_owner :: owner_pc

definition life_start :: "life \<Rightarrow> bool" where
  "life_start c \<longleftrightarrow>
     c = \<lparr>lf_exit = False, lf_checker = False, lf_ptr = Null, lf_roll = R_None, lf_owner = O_Closed\<rparr>"

section \<open>Steps\<close>

text \<open>\<open>Open\<close>: the database, the flag, and the thread if there was none before.\<close>

inductive open_step :: "life \<Rightarrow> life \<Rightarrow> bool" where
  open_db: "lf_owner c = O_Closed \<Longrightarrow> open_step c (c\<lparr>lf_ptr := Valid, lf_owner := O_Lower\<rparr>)"
| lower_flag: "lf_owner c = O_Lower \<Longrightarrow> open_step c (c\<lparr>lf_exit := False, lf_owner := O_Start\<rparr>)"
| start_thread: "lf_owner c = O_Start \<Longrightarrow> \<not> lf_checker c \<Longrightarrow>
    open_step c (c\<lparr>lf_checker := True, lf_roll := R_Test, lf_owner := O_Use\<rparr>)"
| no_thread: "lf_owner c = O_Start \<Longrightarrow> lf_checker c \<Longrightarrow> open_step c (c\<lparr>lf_owner := O_Use\<rparr>)"

text \<open>\<open>DestroyDB_Master\<close>: the flag, the database, and the pointer.\<close>

inductive destroy_step :: "life \<Rightarrow> life \<Rightarrow> bool" where
  raise_flag: "lf_owner c = O_Use \<Longrightarrow> destroy_step c (c\<lparr>lf_exit := True, lf_owner := O_Delete\<rparr>)"
| delete_db: "lf_owner c = O_Delete \<Longrightarrow> destroy_step c (c\<lparr>lf_ptr := Freed, lf_owner := O_Reset\<rparr>)"
| reset_ptr: "lf_owner c = O_Reset \<Longrightarrow> destroy_step c (c\<lparr>lf_ptr := Null, lf_owner := O_Closed\<rparr>)"

text \<open>
  \<open>Rollback_Consumer\<close>: the test of the loop, the sleep and \<open>Monitor_Consumer\<close>, the second look at the flag, and
  the roll-back itself, whose rounds write to the database and call \<open>Monitor_Consumer\<close>.
\<close>

inductive thread_step :: "life \<Rightarrow> life \<Rightarrow> bool" where
  test_exit: "lf_roll c = R_Test \<Longrightarrow> lf_exit c \<Longrightarrow> thread_step c (c\<lparr>lf_roll := R_Gone\<rparr>)"
| test_again: "lf_roll c = R_Test \<Longrightarrow> \<not> lf_exit c \<Longrightarrow> thread_step c (c\<lparr>lf_roll := R_Monitor\<rparr>)"
| monitor: "lf_roll c = R_Monitor \<Longrightarrow> lf_ptr c = Valid \<Longrightarrow> thread_step c (c\<lparr>lf_roll := R_Check\<rparr>)"
| monitor_fault: "lf_roll c = R_Monitor \<Longrightarrow> lf_ptr c \<noteq> Valid \<Longrightarrow> thread_step c (c\<lparr>lf_roll := R_Fault\<rparr>)"
| check_exit: "lf_roll c = R_Check \<Longrightarrow> lf_exit c \<Longrightarrow> thread_step c (c\<lparr>lf_roll := R_Gone\<rparr>)"
| check_idle: "lf_roll c = R_Check \<Longrightarrow> \<not> lf_exit c \<Longrightarrow> thread_step c (c\<lparr>lf_roll := R_Test\<rparr>)"
| check_work: "lf_roll c = R_Check \<Longrightarrow> \<not> lf_exit c \<Longrightarrow> thread_step c (c\<lparr>lf_roll := R_Work\<rparr>)"
| work: "lf_roll c = R_Work \<Longrightarrow> lf_ptr c = Valid \<Longrightarrow> thread_step c c"
| work_done: "lf_roll c = R_Work \<Longrightarrow> lf_ptr c = Valid \<Longrightarrow> thread_step c (c\<lparr>lf_roll := R_Test\<rparr>)"
| work_fault: "lf_roll c = R_Work \<Longrightarrow> lf_ptr c \<noteq> Valid \<Longrightarrow> thread_step c (c\<lparr>lf_roll := R_Fault\<rparr>)"

inductive life_step :: "life \<Rightarrow> life \<Rightarrow> bool" where
  by_open: "open_step c c' \<Longrightarrow> life_step c c'"
| by_destroy: "destroy_step c c' \<Longrightarrow> life_step c c'"
| thread: "thread_step c c' \<Longrightarrow> life_step c c'"

inductive_cases open_stepE: "open_step c c'"
inductive_cases destroy_stepE: "destroy_step c c'"
inductive_cases thread_stepE: "thread_step c c'"
inductive_cases life_stepE: "life_step c c'"

section \<open>Invariant\<close>

text \<open>
  The pointer is valid exactly from the end of \<open>DB::Open\<close> to the deletion, the flag is down while the database is
  used, and there is a thread exactly if \<open>checker\<close> says that one has been started.
\<close>

definition life_inv :: "life \<Rightarrow> bool" where
  "life_inv c \<longleftrightarrow>
     (lf_ptr c = Valid \<longleftrightarrow> lf_owner c \<in> {O_Lower, O_Start, O_Use, O_Delete}) \<and>
     (lf_owner c \<in> {O_Start, O_Use} \<longrightarrow> \<not> lf_exit c) \<and>
     (lf_roll c = R_None \<longleftrightarrow> \<not> lf_checker c) \<and>
     (lf_owner c \<in> {O_Use, O_Delete, O_Reset} \<longrightarrow> lf_checker c)"

interpretation lives: inductive_invariant life_start life_step life_inv
proof
  show "life_start c \<Longrightarrow> life_inv c" for c
    by (simp add: life_start_def life_inv_def)
  show "life_inv c \<Longrightarrow> life_step c c' \<Longrightarrow> life_inv c'" for c c'
    by (elim life_stepE open_stepE destroy_stepE thread_stepE) (auto simp: life_inv_def)
qed

text \<open>A thread that has ended, normally or not, is never replaced.\<close>

definition lost :: "life \<Rightarrow> bool" where
  "lost c \<longleftrightarrow> lf_checker c \<and> lf_roll c \<in> {R_Gone, R_Fault}"

lemma lost_step: "lost c \<Longrightarrow> life_step c c' \<Longrightarrow> lost c' \<and> lf_roll c' = lf_roll c"
  by (elim life_stepE open_stepE destroy_stepE thread_stepE) (auto simp: lost_def)

lemma lost_forever: "life_step\<^sup>*\<^sup>* c c' \<Longrightarrow> lost c \<Longrightarrow> lost c' \<and> lf_roll c' = lf_roll c"
  by (induction rule: rtranclp_induct) (auto dest: lost_step)

section \<open>One destruction and one opening\<close>

definition in_use :: "roll_pc \<Rightarrow> life" where
  "in_use r = \<lparr>lf_exit = False, lf_checker = True, lf_ptr = Valid, lf_roll = r, lf_owner = O_Use\<rparr>"

definition destroying :: "roll_pc \<Rightarrow> life" where
  "destroying r = \<lparr>lf_exit = True, lf_checker = True, lf_ptr = Valid, lf_roll = r, lf_owner = O_Delete\<rparr>"

definition destroyed :: "roll_pc \<Rightarrow> life" where
  "destroyed r = \<lparr>lf_exit = True, lf_checker = True, lf_ptr = Null, lf_roll = r, lf_owner = O_Closed\<rparr>"

lemmas life_states = in_use_def destroying_def destroyed_def

lemma first_open: "reach life_start life_step (in_use R_Test)"
proof -
  let ?c0 = "\<lparr>lf_exit = False, lf_checker = False, lf_ptr = Null, lf_roll = R_None, lf_owner = O_Closed\<rparr>"
  have "life_step ?c0 (?c0\<lparr>lf_ptr := Valid, lf_owner := O_Lower\<rparr>)"
    by (intro by_open open_db) simp
  moreover have "life_step \<dots> (?c0\<lparr>lf_ptr := Valid, lf_owner := O_Start\<rparr>)"
    using by_open [OF lower_flag [of "?c0\<lparr>lf_ptr := Valid, lf_owner := O_Lower\<rparr>"]] by simp
  moreover have "life_step \<dots> (in_use R_Test)"
    using by_open [OF start_thread [of "?c0\<lparr>lf_ptr := Valid, lf_owner := O_Start\<rparr>"]] by (simp add: in_use_def)
  ultimately show ?thesis
    using reach_init [of life_start ?c0 life_step] reach_step [of life_start life_step]
    by (metis life_start_def)
qed

lemma destroy_begins: "life_step (in_use r) (destroying r)"
  using by_destroy [OF raise_flag [of "in_use r"]] by (simp add: life_states)

lemma destroy_ends: "life_step\<^sup>*\<^sup>* (destroying r) (destroyed r)"
proof -
  have "life_step (destroying r) ((destroying r)\<lparr>lf_ptr := Freed, lf_owner := O_Reset\<rparr>)"
    by (intro by_destroy delete_db) (simp add: life_states)
  moreover have "life_step \<dots> (destroyed r)"
    using by_destroy [OF reset_ptr [of "(destroying r)\<lparr>lf_ptr := Freed, lf_owner := O_Reset\<rparr>"]] by (simp add: life_states)
  ultimately show ?thesis
    by (meson converse_rtranclp_into_rtranclp r_into_rtranclp)
qed

lemma opened_again: "life_step\<^sup>*\<^sup>* (destroyed r) (in_use r)"
proof -
  have "life_step (destroyed r) ((destroyed r)\<lparr>lf_ptr := Valid, lf_owner := O_Lower\<rparr>)"
    by (intro by_open open_db) (simp add: life_states)
  moreover have "life_step \<dots> ((in_use r)\<lparr>lf_owner := O_Start\<rparr>)"
    using by_open [OF lower_flag [of "(destroyed r)\<lparr>lf_ptr := Valid, lf_owner := O_Lower\<rparr>"]] by (simp add: life_states)
  moreover have "life_step \<dots> (in_use r)"
    using by_open [OF no_thread [of "(in_use r)\<lparr>lf_owner := O_Start\<rparr>"]] by (simp add: life_states)
  ultimately show ?thesis
    by (meson converse_rtranclp_into_rtranclp r_into_rtranclp)
qed

lemma destroy: "life_step\<^sup>*\<^sup>* (in_use r) (destroyed r)"
  using destroy_begins destroy_ends by (rule converse_rtranclp_into_rtranclp)

lemma wakes_destroyed: "life_step (destroyed R_Monitor) (destroyed R_Fault)"
  using thread [OF monitor_fault [of "destroyed R_Monitor"]] by (simp add: life_states)

lemma sleeping_reachable: "reach life_start life_step (in_use R_Monitor)"
proof -
  have "life_step (in_use R_Test) (in_use R_Monitor)"
    using thread [OF test_again [of "in_use R_Test"]] by (simp add: life_states)
  then show ?thesis
    using first_open by (rule reach_step [rotated])
qed

lemma life_reach_steps: "life_step\<^sup>*\<^sup>* c c' \<Longrightarrow> reach life_start life_step c \<Longrightarrow> reach life_start life_step c'"
  by (induction rule: rtranclp_induct) (auto intro: reach_step)

section \<open>When the thread faults and when it is lost\<close>



text \<open>
  Destroying and opening again, as the benchmark does before it fills a database, has three
  outcomes, decided by where the roll-back thread happens to be: it sleeps through both and goes on; it
  wakes up in between and calls the monitor through the null pointer; or it sees the flag and ends.  In the
  last case no roll-back thread exists at any time after, so the monitor never runs and nothing is
  rolled back again.
\<close>

theorem reopen_race:
  "life_step\<^sup>*\<^sup>* (in_use R_Monitor) (destroyed R_Monitor) \<and> life_step\<^sup>*\<^sup>* (destroyed R_Monitor) (in_use R_Monitor) \<and>
   life_step\<^sup>*\<^sup>* (in_use R_Monitor) (in_use R_Fault) \<and>
   life_step\<^sup>*\<^sup>* (in_use R_Test) (in_use R_Gone) \<and>
   reach life_start life_step (in_use R_Test) \<and> reach life_start life_step (in_use R_Monitor) \<and>
   (\<forall>c. life_step\<^sup>*\<^sup>* (in_use R_Gone) c \<longrightarrow> lf_roll c = R_Gone)"
proof (intro conjI allI impI)
  show "life_step\<^sup>*\<^sup>* (in_use R_Monitor) (destroyed R_Monitor)" "life_step\<^sup>*\<^sup>* (destroyed R_Monitor) (in_use R_Monitor)"
    by (rule destroy, rule opened_again)
  show "life_step\<^sup>*\<^sup>* (in_use R_Monitor) (in_use R_Fault)"
    by (meson destroy wakes_destroyed opened_again rtranclp.rtrancl_into_rtrancl rtranclp_trans)
  have "life_step (destroying R_Test) (destroying R_Gone)"
    using thread [OF test_exit [of "destroying R_Test"]] by (simp add: life_states)
  then show "life_step\<^sup>*\<^sup>* (in_use R_Test) (in_use R_Gone)"
    by (meson destroy_begins destroy_ends opened_again converse_rtranclp_into_rtranclp rtranclp_trans)
  show "lf_roll c = R_Gone" if "life_step\<^sup>*\<^sup>* (in_use R_Gone) c" for c
    using lost_forever [OF that] by (simp add: lost_def life_states)
qed (rule first_open sleeping_reachable)+

theorem reopen_race_witness:
  "\<exists>c. life_step\<^sup>*\<^sup>* (in_use R_Gone) c \<and> c = in_use R_Gone \<and> lf_roll c = R_Gone"
  using reopen_race by blast

end
