(* ===== verification/Spec2Isabelle.thy ===== *)
theory Spec2Isabelle
  imports Master_System Locking Bench_Mixgraph Bench_Background Bench_Barrier Bench_Replace Bench_Run Lifecycle
begin

text \<open>
  KVAccel, a key-value store over a dual-interface SSD.

  \<^bold>\<open>The program.\<close>  \<open>DB_MASTER\<close> (\<open>kvaccel/db/db_impl/db_impl_master.cc\<close>) stands before two stores: RocksDB on
  the block side of the device, the Main-LSM, and a store inside the device, the Dev-LSM, reached by the
  driver \<open>iLSM::DB\<close> (\<open>iLSM.cc\<close>) through NVMe passthrough commands.  A monitor thread watches RocksDB; while a
  write stall is near, \<open>Put\<close> is redirected to the Dev-LSM and the key is entered in a tracker
  (\<open>util/hash_map.h\<close>).  When the pressure is over, a roll-back thread scans the device, writes the pairs
  that are still tracked to the Main-LSM and resets the device.  \<open>db_bench_tool.cc\<close> drives it all.

  \<^bold>\<open>Conventions.\<close>  A struct is a record, a pointer an option, a fixed-width integer a word; \<open>int\<close>-valued
  arithmetic that may overflow is checked (\<open>Signed_Overflow\<close>).  Every operation returns an \<open>outcome\<close>: a value, or
  the fault at which the C++ program has undefined behaviour, throws, or ends (\<open>KV_Prelude\<close>).  Memory
  the code addresses by offsets is a \<open>region\<close> of bytes that may be unassigned.  State is passed explicitly.
  Code outside the repository is an argument: the system calls (\<open>os\<close>), RocksDB (\<open>rocksdb\<close>), its iterators
  (\<open>rocks_iter\<close>), MurmurHash3, random engines, samplers, clocks, histograms.  What is assumed of it is a named
  predicate (\<open>main_laws\<close>, \<open>uniform_laws\<close> and others), and each theorem that uses one has an instance.

  \<^bold>\<open>Theories.\<close>
  \<^item> \<open>KV_Prelude\<close>: outcomes, regions, words, strings, reachability and the locale \<open>inductive_invariant\<close>.
  \<^item> \<open>Hash_Map\<close>: \<open>HashMap\<close>.  The table implements a bag of keys (locale \<open>key_bag\<close>, interpreted on it), reachable
    tables are well formed.
  \<^item> \<open>ILSM_Device\<close>: \<open>Open\<close>, \<open>nvme_passthru\<close>, the statistics and \<open>Report\<close>.
  \<^item> \<open>ILSM_Write\<close>: \<open>Put\<close>, \<open>_Buffering\<close>, \<open>_Flush\<close> and the flush commands.  Any sequence of puts leaves exactly the
    pairs after the last full 128 in the buffers, byte for byte; the flush loop sends every byte; when a
    copy leaves its buffer; what an ignored error loses.
  \<^item> \<open>ILSM_Read\<close>: \<open>Get\<close>, \<open>Seek\<close>, \<open>Next\<close>, \<open>CreateIter\<close>, \<open>DestroyIter\<close>, \<open>Reset\<close>.  \<open>Get\<close> is a lookup in the device.
  \<^item> \<open>ILSM_Scan\<close>: \<open>DoBulkyScan\<close> to \<open>NextScan\<close>.  Parsing a block inverts its layout and stays in bounds; in which
    order keys and values are handed out.
  \<^item> \<open>Bloom_Filter\<close>: \<open>double_hash\<close> and the counting filter.
  \<^item> \<open>Db_Master\<close>: \<open>Open\<close>, \<open>Put\<close>, \<open>Get\<close>, \<open>GetPin\<close>, \<open>DestroyDB_Master\<close>, \<open>Monitor_Consumer\<close>.  What a read returns
    after a write in each mode, and the monitor's thresholds.
  \<^item> \<open>Rollback\<close>: \<open>Rollback_Consumer\<close>.  The roll-back completes, what it restores, when it never ends.
  \<^item> \<open>Master_Iterator\<close>: the merged iterator.
  \<^item> \<open>Master_System\<close>: all operations as one transition system, with its invariant.
  \<^item> \<open>Locking\<close>: \<open>Put\<close>, \<open>Get\<close> and the roll-back as interleaved steps over \<open>reset_mtx\<close>, \<open>rollback_mtx\<close> and the
    flags, for any number of threads: mutual exclusion, no deadlock, and the accesses no lock protects.
  \<^item> \<open>Lifecycle\<close>: \<open>Open\<close>, \<open>DestroyDB_Master\<close> and the roll-back thread as interleaved steps over the database pointer and
    the exit flag: when the thread uses a database that is gone, and how a reopened store can be left without it.
  \<^item> \<open>Bench_Values\<close>, \<open>Bench_Keys\<close>, \<open>Bench_Stats\<close>, \<open>Bench_Mix\<close>, \<open>Bench_Db\<close>, \<open>Bench_Write\<close>: of \<open>db_bench_tool.cc\<close> the value
    generator, the keys and key generators, durations and statistics, the distributions of the mixed
    workload, opening and column families, and \<open>DoWrite\<close>.  Sizes and drawn keys stay in range, keys are ordered
    as their numbers and collide on the device, loops run the number of times they should, reports add up,
    and a sequential load is a sequence of \<open>DB_MASTER::Put\<close>.
  \<^item> \<open>Bench_Thread\<close>: a benchmark thread and its loop; the locale \<open>counted_body\<close> is what a benchmark's body
    promises to the loop.
  \<^item> \<open>Bench_Read\<close>, \<open>Bench_Mixgraph\<close>, \<open>Bench_Update\<close>: \<open>ReadRandom\<close> and \<open>SeekRandom\<close>, \<open>MixGraph\<close>, and the benchmarks
    that read and write.  Reads count exactly the keys that are there, a mixed run does exactly the queries it
    is asked for, and where these benchmarks fault.
  \<^item> \<open>Bench_Verify\<close>: \<open>PutMany\<close>, \<open>DeleteMany\<close>, \<open>GetMany\<close> and \<open>RandomWithVerify\<close>, \<open>GetMergeOperands\<close> with its binary search, and
    \<open>WriteSeqSeekSeq\<close>.  The three copies of a key stay equal; which assertion fails.
  \<^item> \<open>Bench_Background\<close>: \<open>DoDelete\<close>, \<open>BGWriter\<close>, \<open>BGScan\<close>, \<open>IteratorCreation\<close> and the benchmarks that run one of them beside
    readers.  When the background writer ends, and what a run deletes.
  \<^item> \<open>Bench_Barrier\<close>: \<open>ThreadBody\<close> and \<open>RunBenchmark\<close> as interleaved steps over \<open>SharedState\<close>, for any number of threads:
    nobody runs before all are initialised, and the run can always be completed.
  \<^item> \<open>Bench_Sequential\<close>: \<open>ReadSequential\<close>, \<open>ReadReverse\<close>, \<open>ReadToRowCache\<close>, \<open>ReadRandomFast\<close> and \<open>MultiReadRandom\<close>.  How many
    entries a scan visits, how many reads are made, and which of them find their key.
  \<^item> \<open>Bench_Replace\<close>: \<open>RandomReplaceKeys\<close>.  One key of every entry is stored.
  \<^item> \<open>Bench_Run\<close>: \<open>Benchmark::Run\<close> with the reading of an entry of the benchmark list, the dispatch on its name, the fresh
    database, warm-up and repetitions; running the chosen benchmark is a parameter.  Entries are read as they are
    meant, what one benchmark leaves to the next, and what a fresh database keeps of the old one.
  \<^item> This theory: what a load writes, random reads find and sequential reads visit, and reads of missing keys do
    not find.

  \<^bold>\<open>Fuel.\<close>  The loops of the roll-back, of \<open>fill_data\<close>, of \<open>DoWrite\<close> and of the benchmark threads take a bound on their turns and fault
  with \<open>Out_Of_Fuel\<close> when it is used up.  The theorems say which bound is enough: one more than the pairs
  the scan finds, the size of the block, one more than the operations.  \<open>rollback_livelock\<close> shows that no bound is
  enough for an empty scan.

  \<^bold>\<open>Reals.\<close>  A \<open>double\<close> is a real number; dividing by zero faults with \<open>Not_Finite\<close>, and rounding is not modelled.

  \<^bold>\<open>Not modelled.\<close>  Printing.  Of \<open>db_bench_tool.cc\<close> the definitions of the flags and their copying into options, tracing, option
  files, and the benchmarks for transactions, time series, approximate sizes, compaction, replay, backup, compression
  and checksums: what they do is done by parts of RocksDB that are not in the repository.  The copying and
  dumping of options in \<open>db_options.{h,cc}\<close> and \<open>options.h\<close>; \<open>clue_entry_set\<close>, whose code is commented out; scripts.
  The weak memory behaviour of the unsynchronised accesses: \<open>Locking\<close> and \<open>Lifecycle\<close> interleave whole steps.  The device
  itself: its replies are the parameter \<open>os\<close>.
\<close>

section \<open>What is loaded is found\<close>

definition reader_after ::
  "'g \<Rightarrow> Stats \<Rightarrow> ('g, 'h, 'm, 'c, 'q, 'w) wstate \<Rightarrow> ('g, 'h, 'm, 'c, 'q, 'w) bench_thread" where
  "reader_after g S W =
     \<lparr>th_dbs = ws_dbs W, th_master = ws_master W, th_rand = g, th_env = ws_env W, th_stats = S,
      th_timestamp = ws_timestamp W, th_duration = ws_duration W\<rparr>"

text \<open>
  Claim C13 (roundtrip).  A sequential load followed by random reads finds everything: when no write stall redirects
  the puts and RocksDB accepts them, both benchmarks end, and every one of the reads finds its key.
\<close>

theorem load_then_read:
  assumes "plain_write C" and "num_ops_of C = n" and "0 < n" and "0 < wc_entries_per_batch C"
    and "wc_entries_per_batch C dvd n" and "in_i64 (n + wc_entries_per_batch C)"
    and "(of_int (wc_num C + wc_max_tombstones C) :: u64) \<noteq> 0"
    and "db (bdb (ws_dbs W)) \<noteq> None" and "s_reporter (ws_stats W) \<noteq> None" and "nat n < fuel"
    and "valid_cfg (wc_keys C)" and "keys_per_prefix (wc_keys C) \<le> 0" and "uniform_laws (l_sampler L)"
    and "main_laws (l_rdb L)" and "\<forall>k v m. fst (rdb_put (l_rdb L) k v m) = OK"
    and "kache_flag (ws_master W) = 0" and "monitor_L0_status_arr (ws_master W) \<noteq> LEVEL_HIGH"
    and "dbptr (ws_master W) = Some m" and "gen_inv gen"
    and "plain_read R" and "rc_keys R = wc_keys C" and "rc_num R = n" and "wc_flags_num C = n"
    and "0 \<le> rc_reads R" and "in_i64 (rc_reads R + 1)" and "nat (rc_reads R) < fuel'" and "s_reporter S \<noteq> None"
  shows "\<exists>W' T'. DoWrite (wlib.truncate L) C gen strings overwriter fuel W = Inr W' \<and>
    ReadRandom L R fuel' (reader_after g S W') = Inr T' \<and> rs_read T' = rc_reads R \<and> rs_found T' = rc_reads R"
proof -
  let ?L = "wlib.truncate L" and ?e = "wc_entries_per_batch C" and ?K = "wc_keys C"
  have L: "l_rdb ?L = l_rdb L" "l_sampler ?L = l_sampler L"
    by (simp_all add: wlib.defs)
  have e: "nat (n div ?e) * nat ?e = nat n"
    using assms(3-5) by (simp flip: nat_mult_distrib add: pos_imp_zdiv_nonneg_iff)
  obtain d where d: "db (bdb (ws_dbs W)) = Some d"
    using assms(8) by blast
  obtain W' m' where W': "DoWrite ?L C gen strings overwriter fuel W = Inr W'" "kache_flag (ws_master W') = 0"
    "dbptr (ws_master W') = Some m'" "db (bdb (ws_dbs W')) = Some d"
    "{x. fst (rdb_get (l_rdb L) x m') = OK} = {x. fst (rdb_get (l_rdb L) x m) = OK} \<union> (\<lambda>j. key_bytes ?K (of_nat j) n) ` {0..<nat n}"
    using load_runs [OF assms(1-4,6,7) d assms(9-12), of ?L m gen strings overwriter] assms(13-19,23)
    unfolding L e by auto
  let ?T = "reader_after g S W'"
  have T: "th_master ?T = ws_master W'" "db (bdb (th_dbs ?T)) \<noteq> None" "s_reporter (th_stats ?T) \<noteq> None"
    using W'(4) assms(27) by (simp_all add: reader_after_def)
  obtain T' xs where T': "ReadRandom L R fuel' ?T = Inr T'" "rs_read T' = rc_reads R"
    "length xs = nat (rc_reads R)" "\<forall>x\<in>set xs. 0 \<le> x \<and> x < n"
    "rs_found T' = int (length (filter (present (l_rdb L) ?K n m') xs))"
    using ReadRandom_runs [OF assms(20), of ?T m' fuel' L] T W'(2,3) assms(21,22,24-26) by metis
  have "present (l_rdb L) ?K n m' x" if "0 \<le> x" "x < n" for x
  proof -
    have "key_bytes ?K (of_nat (nat x)) n \<in> {x. fst (rdb_get (l_rdb L) x m') = OK}"
      unfolding W'(5) using that by (auto intro!: image_eqI [of _ _ "nat x"])
    then show ?thesis
      using that by (simp add: present_def)
  qed
  then have "filter (present (l_rdb L) ?K n m') xs = xs"
    using T'(4) by (auto intro: filter_True)
  then show ?thesis
    using W'(1) T' assms(24) by auto
qed

theorem load_then_read_witness:
  "\<exists>W' T'. DoWrite sample_lib one_write byte_values () () 2 write_start = Inr W' \<and>
     ReadRandom read_lib (three_reads\<lparr>rc_num := 1\<rparr>) 4 (reader_after () idle_stats W') = Inr T' \<and> rs_found T' = 3"
proof -
  have l: "wlib.truncate read_lib = sample_lib"
    by (simp add: read_lib_def wlib.defs)
  have "\<exists>W' T'. DoWrite (wlib.truncate read_lib) one_write byte_values () () 2 write_start = Inr W' \<and>
      ReadRandom read_lib (three_reads\<lparr>rc_num := 1\<rparr>) 4 (reader_after () idle_stats W') = Inr T' \<and>
      rs_read T' = rc_reads (three_reads\<lparr>rc_num := 1\<rparr>) \<and> rs_found T' = rc_reads (three_reads\<lparr>rc_num := 1\<rparr>)"
    by (rule load_then_read [where n = 1 and m = "[]"])
       (use list_rdb_laws in \<open>simp_all add: plain_write_def num_disp_pers_def num_ops_of_def one_write_def write_start_def
          idle_stats_def in_i64_def valid_cfg_def four_byte_keys_def uniform_laws_def low_sampler_def read_lib_def sample_lib_def
          wlib.defs rlib.defs list_rdb_def started_simps gen_inv_def byte_values_def plain_read_def three_reads_def\<close>)
  then show ?thesis
    unfolding l by (auto simp: three_reads_def)
qed

section \<open>What is loaded is scanned\<close>



section \<open>What was never loaded is missing\<close>

text \<open>
  \<open>readmissing\<close> reads keys that are one byte longer than the loaded ones, because \<open>Run\<close>
  increases the key size for it.  After a sequential load into an empty store with the key size of the flags, the
  benchmark ends after its reads and finds none of its keys, whatever numbers it draws.
\<close>

theorem load_then_readmissing:
  assumes "plain_write C" and "num_ops_of C = n" and "0 < n" and "0 < wc_entries_per_batch C"
    and "in_i64 (n + wc_entries_per_batch C)" and "(of_int (wc_num C + wc_max_tombstones C) :: u64) \<noteq> 0"
    and "db (bdb (ws_dbs W)) = Some d" and "s_reporter (ws_stats W) \<noteq> None" and "nat n < fuel"
    and "valid_cfg (wc_keys C)" and "keys_per_prefix (wc_keys C) \<le> 0" and "uniform_laws (l_sampler L)"
    and "main_laws (l_rdb L)" and "\<forall>k v m. fst (rdb_put (l_rdb L) k v m) = OK"
    and "kache_flag (ws_master W) = 0" and "monitor_L0_status_arr (ws_master W) \<noteq> LEVEL_HIGH"
    and "dbptr (ws_master W) = Some m" and "gen_inv gen" and "\<forall>k. fst (rdb_get (l_rdb L) k m) \<noteq> OK"
    and "key_size (wc_keys C) = bf_key_size F" and "prepare F (bytes_of ''readmissing'') B = Inr (c, r, w)"
    and "plain_read R" and "rc_keys R = (wc_keys C)\<lparr>key_size := bm_key_size (ch_bench c)\<rparr>"
    and "0 \<le> rc_reads R" and "in_i64 (rc_reads R + 1)" and "nat (rc_reads R) < fuel'" and "s_reporter S \<noteq> None"
  shows "\<exists>W' T'. DoWrite (wlib.truncate L) C gen strings overwriter fuel W = Inr W' \<and> ch_method c = Some M_ReadRandom \<and>
    ReadRandom L R fuel' (reader_after g S W') = Inr T' \<and> rs_read T' = rc_reads R \<and> rs_found T' = 0"
proof -
  let ?L = "wlib.truncate L" and ?K = "wc_keys C"
  have L: "l_rdb ?L = l_rdb L" "l_sampler ?L = l_sampler L"
    by (simp_all add: wlib.defs)
  have c: "ch_method c = Some M_ReadRandom" "bm_key_size (ch_bench c) = key_size ?K + 1"
    using prepare_readmissing_only [OF assms(21)] assms(20) by simp_all
  obtain W' m' k where W': "DoWrite ?L C gen strings overwriter fuel W = Inr W'" "kache_flag (ws_master W') = 0"
    "dbptr (ws_master W') = Some m'" "db (bdb (ws_dbs W')) = Some d"
    "{x. fst (rdb_get (l_rdb L) x m') = OK} = (\<lambda>j. key_bytes ?K (of_nat j) (wc_flags_num C)) ` {0..<k}"
    using load_runs [OF assms(1-11), of ?L m gen strings overwriter] assms(12-19) unfolding L by auto
  have "length x = nat (key_size ?K)" if "fst (rdb_get (l_rdb L) x m') = OK" for x
  proof -
    have "x \<in> (\<lambda>j. key_bytes ?K (of_nat j) (wc_flags_num C)) ` {0..<k}"
      using that W'(5) by blast
    then show ?thesis
      using length_key_bytes [OF assms(10)] by auto
  qed
  moreover have "length (key_bytes (rc_keys R) x y) = nat (key_size ?K + 1)" for x y
    using length_key_bytes [of "rc_keys R"] assms(22,23) c(2) by (simp add: plain_read_def)
  moreover have "nat (key_size ?K + 1) \<noteq> nat (key_size ?K)"
    using assms(10) unfolding valid_cfg_def by linarith
  ultimately have none: "\<not> present (l_rdb L) (rc_keys R) (rc_num R) m' x" for x
    unfolding present_def by metis
  let ?T = "reader_after g S W'"
  have T: "th_master ?T = ws_master W'" "db (bdb (th_dbs ?T)) \<noteq> None" "s_reporter (th_stats ?T) \<noteq> None"
    using W'(4) assms(27) by (simp_all add: reader_after_def)
  obtain T' xs where T': "ReadRandom L R fuel' ?T = Inr T'" "rs_read T' = rc_reads R"
    "rs_found T' = int (length (filter (present (l_rdb L) (rc_keys R) (rc_num R) m') xs))"
    using ReadRandom_runs [OF assms(22), of ?T m' fuel' L] T W'(2,3) assms(24-26) by metis
  then show ?thesis
    using W'(1) c(1) none by auto
qed

theorem load_then_readmissing_witness:
  "\<exists>W' T'. DoWrite sample_lib one_write byte_values () () 2 write_start = Inr W' \<and>
     ReadRandom read_lib (three_reads\<lparr>rc_keys := four_byte_keys\<lparr>key_size := 5\<rparr>\<rparr>) 4 (reader_after () idle_stats W') = Inr T' \<and>
     rs_found T' = 0"
proof -
  let ?F = "some_flags\<lparr>bf_key_size := 4\<rparr>" and ?R = "three_reads\<lparr>rc_keys := four_byte_keys\<lparr>key_size := 5\<rparr>\<rparr>"
  have l: "wlib.truncate read_lib = sample_lib"
    by (simp add: read_lib_def wlib.defs)
  obtain c where c: "prepare ?F (bytes_of ''readmissing'') (Benchmark_new ?F) = Inr (c, 1, 0)" "bm_key_size (ch_bench c) = 5"
    using prepare_readmissing [of ?F "Benchmark_new ?F"] by (auto simp: int_range_def)
  have "\<exists>W' T'. DoWrite (wlib.truncate read_lib) one_write byte_values () () 2 write_start = Inr W' \<and> ch_method c = Some M_ReadRandom \<and>
      ReadRandom read_lib ?R 4 (reader_after () idle_stats W') = Inr T' \<and> rs_read T' = rc_reads ?R \<and> rs_found T' = 0"
    by (rule load_then_readmissing [where n = 1 and m = "[]" and d = "[]" and F = ?F, OF _ _ _ _ _ _ _ _ _ _ _ _ _ _ _ _ _ _ _ _ c(1)])
       (use list_rdb_laws c(2) in \<open>simp_all add: plain_write_def num_disp_pers_def num_ops_of_def one_write_def write_start_def
          idle_stats_def in_i64_def valid_cfg_def four_byte_keys_def uniform_laws_def low_sampler_def read_lib_def sample_lib_def
          wlib.defs rlib.defs list_rdb_def started_simps gen_inv_def byte_values_def plain_read_def three_reads_def\<close>)
  then show ?thesis
    unfolding l by auto
qed

end
